(* ===== verification/O_Prelude.thy ===== *)
theory O_Prelude
  imports Main "HOL-Library.Word" "HOL-Library.Sublist"
begin

text \<open>
  Vocabulary shared by every component of the development: Rust's \<open>Result\<close> as a sum type
  with its early-return operator, ordered sets as sorted lists, the string operations the
  sources use, and the generic list lemmas the component proofs rest on.

  Strings are lists of bytes (\<open>char\<close>). The sources treat them as UTF-8, and every operation
  modelled here either works on bytes or looks only for ASCII characters, which never occur
  inside a multi-byte sequence.
\<close>

section \<open>Results and early return\<close>

text \<open>
  \<open>Result<T, E>\<close> is \<open>'e + 'a\<close> with \<open>Inl\<close> for \<open>Err\<close>. The operator \<open>?\<close> is \<open>and_then\<close>;
  \<open>ensure c e\<close> is \<open>if !c { return Err(e) }\<close>.
\<close>

type_synonym u8 = "8 word"
type_synonym u16 = "16 word"
type_synonym u32 = "32 word"
type_synonym u64 = "64 word"
type_synonym bytes = "8 word list"

definition and_then :: "'e + 'a \<Rightarrow> ('a \<Rightarrow> 'e + 'b) \<Rightarrow> 'e + 'b" where
  "and_then r f = (case r of Inl e \<Rightarrow> Inl e | Inr x \<Rightarrow> f x)"

definition ensure :: "bool \<Rightarrow> 'e \<Rightarrow> 'e + unit" where
  "ensure c e = (if c then Inr () else Inl e)"

definition ok_or :: "'a option \<Rightarrow> 'e \<Rightarrow> 'e + 'a" where
  "ok_or r e = (case r of None \<Rightarrow> Inl e | Some x \<Rightarrow> Inr x)"

definition is_ok :: "'e + 'a \<Rightarrow> bool" where
  "is_ok r = (case r of Inl _ \<Rightarrow> False | Inr _ \<Rightarrow> True)"

text \<open>A \<open>for\<close> loop whose body may return early: without state and with state.\<close>

fun for_each :: "('a \<Rightarrow> 'e + unit) \<Rightarrow> 'a list \<Rightarrow> 'e + unit" where
  "for_each f [] = Inr ()"
| "for_each f (x # xs) = (case f x of Inl e \<Rightarrow> Inl e | Inr _ \<Rightarrow> for_each f xs)"

fun try_fold :: "('s \<Rightarrow> 'a \<Rightarrow> 'e + 's) \<Rightarrow> 's \<Rightarrow> 'a list \<Rightarrow> 'e + 's" where
  "try_fold f s [] = Inr s"
| "try_fold f s (x # xs) = (case f s x of Inl e \<Rightarrow> Inl e | Inr s' \<Rightarrow> try_fold f s' xs)"

fun try_map :: "('a \<Rightarrow> 'e + 'b) \<Rightarrow> 'a list \<Rightarrow> 'e + 'b list" where
  "try_map f [] = Inr []"
| "try_map f (x # xs) =
     (case f x of Inl e \<Rightarrow> Inl e
      | Inr y \<Rightarrow> (case try_map f xs of Inl e \<Rightarrow> Inl e | Inr ys \<Rightarrow> Inr (y # ys)))"

named_theorems result_simps \<open>inversion of successful results\<close>

lemma and_then_Inr [simp]: "and_then (Inr x) f = f x"
  by (simp add: and_then_def)

lemma and_then_Inl [simp]: "and_then (Inl e) f = Inl e"
  by (simp add: and_then_def)

lemma and_then_eq_Inr [result_simps]:
  "and_then r f = Inr y \<longleftrightarrow> (\<exists>x. r = Inr x \<and> f x = Inr y)"
  by (cases r) auto

lemma ensure_eq_Inr [result_simps]: "ensure c e = Inr u \<longleftrightarrow> c"
  by (simp add: ensure_def)

lemma ensure_True [simp]: "ensure True e = Inr ()"
  by (simp add: ensure_def)

lemma ensure_False [simp]: "ensure False e = Inl e"
  by (simp add: ensure_def)

lemma ok_or_eq_Inr [result_simps]: "ok_or r e = Inr x \<longleftrightarrow> r = Some x"
  by (simp add: ok_or_def split: option.splits)

lemma ok_or_Some [simp]: "ok_or (Some x) e = Inr x"
  by (simp add: ok_or_def)

lemma ok_or_None [simp]: "ok_or None e = Inl e"
  by (simp add: ok_or_def)

lemma is_ok_iff [simp]: "is_ok r \<longleftrightarrow> (\<exists>x. r = Inr x)"
  by (cases r) (simp_all add: is_ok_def)

lemma for_each_eq_Inr [result_simps]:
  "for_each f xs = Inr u \<longleftrightarrow> (\<forall>x \<in> set xs. f x = Inr ())"
  by (induction xs) (auto split: sum.splits)

lemma for_each_Inl_D:
  "for_each f xs = Inl e \<Longrightarrow> \<exists>x \<in> set xs. f x = Inl e"
  by (induction xs) (auto split: sum.splits)

lemma try_map_eq_Inr:
  "try_map f xs = Inr ys \<longleftrightarrow> list_all2 (\<lambda>x y. f x = Inr y) xs ys"
proof (induction xs arbitrary: ys)
  case Nil
  then show ?case by auto
next
  case (Cons x xs)
  show ?case
    by (cases ys) (auto split: sum.splits simp: Cons.IH [symmetric])
qed

lemma try_map_length: "try_map f xs = Inr ys \<Longrightarrow> length ys = length xs"
  by (simp add: try_map_eq_Inr list_all2_lengthD)

lemma try_fold_append:
  "try_fold f s (xs @ ys) = and_then (try_fold f s xs) (\<lambda>s'. try_fold f s' ys)"
  by (induction xs arbitrary: s) (auto split: sum.splits)

text \<open>The loop rule for \<open>try_fold\<close>: an invariant over the consumed prefix.\<close>

lemma try_fold_invariant:
  assumes "try_fold f s xs = Inr s'" and "P [] s"
    and "\<And>pre x t t'. P pre t \<Longrightarrow> f t x = Inr t' \<Longrightarrow> x \<in> set xs \<Longrightarrow> P (pre @ [x]) t'"
  shows "P xs s'"
proof -
  have "P (pre @ ys) s'" if "P pre t" "try_fold f t ys = Inr s'" "set ys \<subseteq> set xs" for pre ys t
    using that
  proof (induction ys arbitrary: pre t)
    case Nil
    then show ?case by simp
  next
    case (Cons y ys)
    then obtain t' where t': "f t y = Inr t'" "try_fold f t' ys = Inr s'"
      by (auto split: sum.splits)
    have "P (pre @ [y]) t'"
      using Cons.prems(1,3) t'(1) assms(3) by simp
    then have "P ((pre @ [y]) @ ys) s'"
      using t'(2) Cons.prems(3) by (intro Cons.IH) auto
    then show ?case by simp
  qed
  from this [of "[]" s xs] assms(1,2) show ?thesis by simp
qed

section \<open>Ordered sets\<close>

text \<open>
  \<open>BTreeSet<T>\<close> is a strictly ascending list: iteration is the list itself, \<open>insert\<close> is
  \<open>bt_insert\<close>, \<open>pop_first\<close> takes the head.
\<close>

fun bt_insert :: "'a::linorder \<Rightarrow> 'a list \<Rightarrow> 'a list" where
  "bt_insert x [] = [x]"
| "bt_insert x (y # ys) =
     (if x < y then x # y # ys else if x = y then y # ys else y # bt_insert x ys)"

definition bt_from :: "'a::linorder list \<Rightarrow> 'a list" where
  "bt_from xs = fold bt_insert xs []"

abbreviation ascending :: "'a::linorder list \<Rightarrow> bool" where
  "ascending \<equiv> sorted_wrt (<)"

lemma set_bt_insert [simp]: "set (bt_insert x xs) = insert x (set xs)"
  by (induction xs) auto

lemma ascending_bt_insert [simp]: "ascending xs \<Longrightarrow> ascending (bt_insert x xs)"
  by (induction xs) auto

lemma length_bt_insert: "length (bt_insert x xs) \<le> Suc (length xs)"
  by (induction xs) auto

lemma set_fold_bt_insert [simp]: "set (fold bt_insert xs acc) = set xs \<union> set acc"
  by (induction xs arbitrary: acc) auto

lemma ascending_fold_bt_insert [simp]: "ascending acc \<Longrightarrow> ascending (fold bt_insert xs acc)"
  by (induction xs arbitrary: acc) auto

lemma set_bt_from [simp]: "set (bt_from xs) = set xs"
  by (simp add: bt_from_def)

lemma ascending_bt_from [simp]: "ascending (bt_from xs)"
  by (simp add: bt_from_def)

lemma ascending_distinct: "ascending xs \<Longrightarrow> distinct xs"
  by (induction xs) auto

lemma ascending_sorted: "ascending xs \<Longrightarrow> sorted xs"
  by (induction xs) auto

lemma ascending_upt [simp]: "ascending [a..<b]"
  by (simp add: sorted_wrt_upt)

lemma ascending_filter: "ascending xs \<Longrightarrow> ascending (filter P xs)"
  by (induction xs) auto

lemma ascending_unique:
  "ascending xs \<Longrightarrow> ascending ys \<Longrightarrow> set xs = set ys \<Longrightarrow> xs = ys"
  by (metis ascending_distinct ascending_sorted sorted_distinct_set_unique)

section \<open>Strings\<close>

text \<open>
  \<open>str::split\<close> on one separator (never empty), \<open>str::trim\<close> and \<open>char::is_whitespace\<close> on
  ASCII, \<open>str::strip_prefix\<close>, \<open>str::starts_with\<close> and \<open>[T]::join\<close>.
\<close>

fun split_char :: "char \<Rightarrow> string \<Rightarrow> string list" where
  "split_char c [] = [[]]"
| "split_char c (x # xs) =
     (if x = c then [] # split_char c xs
      else (case split_char c xs of [] \<Rightarrow> [[x]] | w # ws \<Rightarrow> (x # w) # ws))"

definition is_space :: "char \<Rightarrow> bool" where
  "is_space c \<longleftrightarrow> of_char c \<in> {9, 10, 11, 12, 13, 32 :: nat}"

definition trim :: "string \<Rightarrow> string" where
  "trim s = rev (dropWhile is_space (rev (dropWhile is_space s)))"

fun strip_prefix :: "string \<Rightarrow> string \<Rightarrow> string option" where
  "strip_prefix [] s = Some s"
| "strip_prefix (p # ps) [] = None"
| "strip_prefix (p # ps) (c # cs) = (if p = c then strip_prefix ps cs else None)"

fun join_with :: "string \<Rightarrow> string list \<Rightarrow> string" where
  "join_with sep [] = []"
| "join_with sep [w] = w"
| "join_with sep (w # ws) = w @ sep @ join_with sep ws"

definition is_ascii_digit :: "char \<Rightarrow> bool" where
  "is_ascii_digit c \<longleftrightarrow> (48 :: nat) \<le> of_char c \<and> (of_char c :: nat) \<le> 57"

definition is_ascii_alphabetic :: "char \<Rightarrow> bool" where
  "is_ascii_alphabetic c \<longleftrightarrow>
     (65 :: nat) \<le> of_char c \<and> (of_char c :: nat) \<le> 90 \<or>
     (97 :: nat) \<le> of_char c \<and> (of_char c :: nat) \<le> 122"

definition is_ascii_alphanumeric :: "char \<Rightarrow> bool" where
  "is_ascii_alphanumeric c \<longleftrightarrow> is_ascii_alphabetic c \<or> is_ascii_digit c"

lemma split_char_nonempty [simp]: "split_char c s \<noteq> []"
  by (induction s) (auto split: list.splits)

lemma strip_prefix_Some_iff: "strip_prefix p s = Some r \<longleftrightarrow> s = p @ r"
  by (induction p s rule: strip_prefix.induct) auto

text \<open>Splitting loses nothing: joining the pieces with the separator gives the text back.\<close>

lemma join_with_Cons: "ws \<noteq> [] \<Longrightarrow> join_with sep (w # ws) = w @ sep @ join_with sep ws"
  by (cases ws) simp_all

lemma join_split_char: "join_with [c] (split_char c s) = s"
proof (induction s)
  case Nil
  then show ?case by simp
next
  case (Cons x xs)
  obtain w ws where "split_char c xs = w # ws"
    by (metis neq_Nil_conv split_char_nonempty)
  with Cons show ?case by (cases ws) (auto simp: join_with_Cons)
qed

lemma split_char_pieces: "w \<in> set (split_char c s) \<Longrightarrow> c \<notin> set w"
  by (induction s arbitrary: w) (auto split: if_splits list.splits)

section \<open>Decimal rendering\<close>

text \<open>
  \<open>format!("{n}")\<close> of an unsigned integer, most significant digit first. \<open>dec_value\<close> reads a
  digit string back.
\<close>

fun dec_digits :: "nat \<Rightarrow> string" where
  "dec_digits n =
     (if n < 10 then [char_of (48 + n)] else dec_digits (n div 10) @ [char_of (48 + n mod 10)])"

declare dec_digits.simps [simp del]

definition dec_value :: "string \<Rightarrow> nat" where
  "dec_value s = foldl (\<lambda>acc c. acc * 10 + (of_char c - 48)) 0 s"

lemma of_char_digit: "d < 10 \<Longrightarrow> of_char (char_of (48 + d) :: char) = (48 + d :: nat)"
  by simp

lemma dec_digits_digits: "\<forall>c \<in> set (dec_digits n). is_ascii_digit c"
  by (induction n rule: dec_digits.induct)
    (subst dec_digits.simps, auto simp: is_ascii_digit_def of_char_digit)

lemma dec_digits_nonempty [simp]: "dec_digits n \<noteq> []"
  by (subst dec_digits.simps) simp

lemma dec_value_digits [simp]: "dec_value (dec_digits n) = n"
proof (induction n rule: dec_digits.induct)
  case (1 n)
  show ?case
  proof (cases "n < 10")
    case True
    then show ?thesis by (subst dec_digits.simps) (simp add: dec_value_def of_char_digit)
  next
    case False
    then have "dec_value (dec_digits n) = dec_value (dec_digits (n div 10)) * 10 + n mod 10"
      by (subst dec_digits.simps) (simp add: dec_value_def of_char_digit)
    with 1 False show ?thesis by simp
  qed
qed

lemma dec_digits_inject [simp]: "dec_digits m = dec_digits n \<longleftrightarrow> m = n"
  by (metis dec_value_digits)

end
