(* ===== verification/Environment.thy ===== *)
theory Environment
  imports O_Prelude
begin

text \<open>
  Environment identity (\<open>environment.rs\<close>): the \<open>u32\<close> stored on syntax and OIR nodes and its
  typed reading. Two high values are sentinels; every other value names a persistent evaluator.
\<close>

section \<open>Environment references\<close>

definition EPHEMERAL_ENV_ID :: u32 where
  "EPHEMERAL_ENV_ID = 4294967295"

definition LINKER_ISOLATED_ENV_ID :: u32 where
  "LINKER_ISOLATED_ENV_ID = 4294967294"

definition MAX_PERSISTENT_ENV_ID :: u32 where
  "MAX_PERSISTENT_ENV_ID = 4294967293"

datatype environment_ref = Ephemeral | LinkerIsolated | Persistent u32

datatype environment_id_error = Reserved u32

definition persistent :: "u32 \<Rightarrow> environment_id_error + environment_ref" where
  "persistent i = (if i > MAX_PERSISTENT_ENV_ID then Inl (Reserved i) else Inr (Persistent i))"

definition from_encoded :: "u32 \<Rightarrow> environment_ref" where
  "from_encoded i =
     (if i = EPHEMERAL_ENV_ID then Ephemeral
      else if i = LINKER_ISOLATED_ENV_ID then LinkerIsolated
      else Persistent i)"

fun encoded :: "environment_ref \<Rightarrow> u32" where
  "encoded Ephemeral = EPHEMERAL_ENV_ID"
| "encoded LinkerIsolated = LINKER_ISOLATED_ENV_ID"
| "encoded (Persistent i) = i"

fun runtime_env_id :: "environment_ref \<Rightarrow> u32" where
  "runtime_env_id Ephemeral = EPHEMERAL_ENV_ID"
| "runtime_env_id LinkerIsolated = EPHEMERAL_ENV_ID"
| "runtime_env_id (Persistent i) = i"

fun is_fresh :: "environment_ref \<Rightarrow> bool" where
  "is_fresh (Persistent _) = False"
| "is_fresh _ = True"

fun is_persistent :: "environment_ref \<Rightarrow> bool" where
  "is_persistent (Persistent _) = True"
| "is_persistent _ = False"

fun source_marker :: "environment_ref \<Rightarrow> string option" where
  "source_marker Ephemeral = None"
| "source_marker LinkerIsolated = Some ''[*]''"
| "source_marker (Persistent i) = Some (''['' @ dec_digits (unat i) @ '']'')"

lemmas env_id_defs = EPHEMERAL_ENV_ID_def LINKER_ISOLATED_ENV_ID_def MAX_PERSISTENT_ENV_ID_def

lemma is_fresh_iff: "is_fresh e \<longleftrightarrow> \<not> is_persistent e"
  by (cases e) simp_all

lemma encoded_from_encoded [simp]: "encoded (from_encoded i) = i"
  by (simp add: from_encoded_def)

text \<open>The references the constructor can build: exactly those the encoding keeps apart.\<close>

definition valid_ref :: "environment_ref \<Rightarrow> bool" where
  "valid_ref e = (case e of Persistent i \<Rightarrow> i \<le> MAX_PERSISTENT_ENV_ID | _ \<Rightarrow> True)"

lemma u32_reserved_cases:
  "(i :: u32) \<le> 4294967293 \<longleftrightarrow> i \<noteq> 4294967295 \<and> i \<noteq> 4294967294"
  by (unat_arith, simp, arith)

lemma valid_ref_from_encoded: "valid_ref (from_encoded i)"
  by (simp add: valid_ref_def from_encoded_def env_id_defs u32_reserved_cases)

lemma from_encoded_encoded: "valid_ref e \<Longrightarrow> from_encoded (encoded e) = e"
  by (cases e) (simp_all add: valid_ref_def from_encoded_def env_id_defs u32_reserved_cases)

lemma persistent_ok_iff: "persistent i = Inr e \<longleftrightarrow> e = Persistent i \<and> valid_ref e"
  by (auto simp: persistent_def valid_ref_def)

section \<open>Properties\<close>

text \<open>
  C29. The encoded identifier and the typed reference determine each other: reading an identifier
  and writing it back is the identity on all 32-bit values, the references obtained this way are
  exactly those the constructor admits, and a reference is fresh exactly when the runtime gives
  it the ephemeral evaluator.
\<close>

theorem environment_reference_bijection:
  "encoded (from_encoded i) = i \<and> from_encoded (encoded (from_encoded i)) = from_encoded i \<and>
   (is_persistent (from_encoded i) \<longleftrightarrow> persistent i = Inr (from_encoded i)) \<and>
   (is_fresh (from_encoded i) \<longleftrightarrow> runtime_env_id (from_encoded i) = EPHEMERAL_ENV_ID) \<and>
   (source_marker (from_encoded i) = None \<longleftrightarrow> i = EPHEMERAL_ENV_ID)"
  using u32_reserved_cases [of i] by (auto simp: from_encoded_def persistent_def env_id_defs)

end
