(* ===== verification/Backend_Catalog.thy ===== *)
theory Backend_Catalog
  imports O_Prelude
begin

text \<open>
  The hosted-backend catalog (\<open>backend_catalog.rs\<close> and its table \<open>backend_catalog.inc.rs\<close>):
  the vocabulary of backend facts, the catalog itself, lookup by name or alias, and the typed
  interface that lowering freezes into every \<open>Exec\<close> instruction.

  SHA-256 is a parameter: \<open>h domain bytes\<close> is the digest of a catalogued name, and \<open>spec_sha\<close>
  of a registry is the digest of one catalog entry.
\<close>

section \<open>Vocabulary\<close>

datatype backend_authority = FileRead | FileWrite | Network | Process

datatype splice_renderer = PythonR | HtmlR | LatexR | MarkdownR | NixR | DefaultR

datatype execution_mode = InlineAst | InlineValue | Shim

datatype backend_adapter_kind = Inline | NativeRust | LegacyPythonShim

datatype integer_exactness =
    UnknownExact
  | ExactMagnitudeBits nat
  | TwosComplementBits nat
  | ExactRange int int
  | ArbitraryExact

datatype rich_number_preservation = UnknownRich | Preserved | Collapsed

record backend_value_capabilities =
  integer_exactness :: integer_exactness
  rich_numbers :: rich_number_preservation

definition UNKNOWN_CAPABILITIES :: backend_value_capabilities where
  "UNKNOWN_CAPABILITIES = \<lparr>integer_exactness = UnknownExact, rich_numbers = UnknownRich\<rparr>"

datatype snapshot_compatibility = ExactImplementation | CompatibilityClass string

datatype backend_state_support =
    Stateless
  | SemanticSnapshot string snapshot_compatibility
  | ExternalPinned string

record backend_spec =
  spec_name :: string
  spec_aliases :: "string list"
  spec_pure :: bool
  spec_renderer :: splice_renderer
  spec_execution :: execution_mode
  spec_required_authorities :: "backend_authority list"
  spec_adapter :: backend_adapter_kind
  spec_runtime_requirement_key :: string
  spec_value_capabilities :: backend_value_capabilities
  spec_state_support :: backend_state_support

record backend_interface =
  canonical :: string
  specification_sha256 :: "string option"
  pure :: bool
  renderer :: splice_renderer
  execution :: execution_mode
  value_capabilities :: backend_value_capabilities
  state_support :: "backend_state_support option"
  required_authorities :: "backend_authority list"

datatype requirement_precision = Exact | ConservativeAllSources

record runtime_requirement_spec =
  req_key :: string
  req_builtin :: bool
  req_precision :: requirement_precision
  req_alternatives :: "string list list"

fun authority_name :: "backend_authority \<Rightarrow> string" where
  "authority_name FileRead = ''fs_read''"
| "authority_name FileWrite = ''fs_write''"
| "authority_name Network = ''network''"
| "authority_name Process = ''process''"

definition authority_parse :: "string \<Rightarrow> backend_authority option" where
  "authority_parse n =
     (if n = ''fs_read'' then Some FileRead
      else if n = ''fs_write'' then Some FileWrite
      else if n = ''network'' then Some Network
      else if n = ''process'' then Some Process
      else None)"

fun execution_label :: "execution_mode \<Rightarrow> string" where
  "execution_label InlineAst = ''inline_ast''"
| "execution_label InlineValue = ''inline_value''"
| "execution_label Shim = ''shim''"

section \<open>The catalog\<close>

definition mk_spec ::
  "string \<Rightarrow> string list \<Rightarrow> bool \<Rightarrow> splice_renderer \<Rightarrow> execution_mode \<Rightarrow> backend_authority list
    \<Rightarrow> backend_adapter_kind \<Rightarrow> string \<Rightarrow> integer_exactness \<Rightarrow> rich_number_preservation
    \<Rightarrow> backend_state_support \<Rightarrow> backend_spec" where
  "mk_spec n al p r e au ad rt ie rn st =
     \<lparr>spec_name = n, spec_aliases = al, spec_pure = p, spec_renderer = r, spec_execution = e,
      spec_required_authorities = au, spec_adapter = ad, spec_runtime_requirement_key = rt,
      spec_value_capabilities = \<lparr>integer_exactness = ie, rich_numbers = rn\<rparr>,
      spec_state_support = st\<rparr>"

definition codec_digest :: "(string \<Rightarrow> string \<Rightarrow> string) \<Rightarrow> string \<Rightarrow> string" where
  "codec_digest h c = h ''ostadix/backend-state-codec-name/v2'' c"

definition manifest_digest :: "(string \<Rightarrow> string \<Rightarrow> string) \<Rightarrow> string \<Rightarrow> string" where
  "manifest_digest h m = h ''ostadix/external-state-manifest-schema-name/v2'' m"

definition BACKEND_SPECS_1 :: "(string \<Rightarrow> string \<Rightarrow> string) \<Rightarrow> backend_spec list" where
  "BACKEND_SPECS_1 h = [
    mk_spec ''O'' [''o''] False DefaultR InlineAst [] Inline
      ''builtin'' ArbitraryExact Preserved Stateless,
    mk_spec ''quote'' [] False DefaultR InlineAst [] Inline
      ''builtin'' UnknownExact UnknownRich Stateless,
    mk_spec ''nix'' [] False NixR Shim [FileRead, FileWrite, Network, Process] NativeRust
      ''nix'' (TwosComplementBits 63) Collapsed Stateless,
    mk_spec ''nix_expr'' [] True DefaultR InlineValue [] NativeRust
      ''builtin'' (TwosComplementBits 63) Collapsed Stateless,
    mk_spec ''nix_store'' [] False NixR Shim [FileRead, FileWrite, Network, Process] NativeRust
      ''nix'' (TwosComplementBits 63) Collapsed Stateless,
    mk_spec ''nixos_test'' [] False NixR Shim [FileRead, FileWrite, Network, Process] LegacyPythonShim
      ''nixos_test'' UnknownExact UnknownRich Stateless,
    mk_spec ''html'' [] True HtmlR InlineValue [] Inline
      ''builtin'' ArbitraryExact Collapsed Stateless,
    mk_spec ''markdown'' [''md''] True MarkdownR InlineValue [] Inline
      ''builtin'' ArbitraryExact Collapsed Stateless,
    mk_spec ''latex'' [''tex''] True LatexR InlineValue [] Inline
      ''builtin'' ArbitraryExact Collapsed Stateless,
    mk_spec ''text'' [''plain''] True DefaultR InlineValue [] Inline
      ''builtin'' ArbitraryExact Collapsed Stateless]"

definition BACKEND_SPECS_2 :: "(string \<Rightarrow> string \<Rightarrow> string) \<Rightarrow> backend_spec list" where
  "BACKEND_SPECS_2 h = [
    mk_spec ''sql'' [] False DefaultR Shim [] NativeRust
      ''sql'' (TwosComplementBits 63) Collapsed (SemanticSnapshot (codec_digest h ''ostadix.sqlite-cli-main/v1'') ExactImplementation),
    mk_spec ''haskell'' [] False DefaultR Shim [FileWrite, Process] NativeRust
      ''haskell'' ArbitraryExact Preserved Stateless,
    mk_spec ''ocaml'' [] False DefaultR Shim [FileWrite, Process] NativeRust
      ''ocaml'' UnknownExact UnknownRich Stateless,
    mk_spec ''webassembly'' [] False DefaultR Shim [FileWrite, Process] NativeRust
      ''webassembly'' (TwosComplementBits 63) Collapsed Stateless,
    mk_spec ''python'' [''py''] False PythonR Shim [] LegacyPythonShim
      ''python'' ArbitraryExact Preserved (SemanticSnapshot (codec_digest h ''ostadix.python-graph/v1'') ExactImplementation),
    mk_spec ''ubuntu_vm'' [''ubuntu''] False DefaultR Shim [Process] LegacyPythonShim
      ''ubuntu_vm'' UnknownExact UnknownRich (ExternalPinned (manifest_digest h ''ostadix.multipass-resource/v1'')),
    mk_spec ''bash'' [] False DefaultR Shim [Process] NativeRust
      ''bash'' UnknownExact UnknownRich Stateless,
    mk_spec ''shell'' [] False DefaultR Shim [Process] NativeRust
      ''shell'' UnknownExact UnknownRich Stateless,
    mk_spec ''rust'' [] False DefaultR Shim [FileWrite, Process] NativeRust
      ''rust'' (TwosComplementBits 63) Collapsed Stateless,
    mk_spec ''racket'' [] False DefaultR Shim [FileWrite, Process] NativeRust
      ''racket'' ArbitraryExact Preserved Stateless]"

definition BACKEND_SPECS_3 :: "(string \<Rightarrow> string \<Rightarrow> string) \<Rightarrow> backend_spec list" where
  "BACKEND_SPECS_3 h = [
    mk_spec ''csharp'' [] False DefaultR Shim [FileWrite, Process] NativeRust
      ''csharp'' (TwosComplementBits 63) Collapsed Stateless,
    mk_spec ''c'' [] False DefaultR Shim [FileWrite, Process] NativeRust
      ''c'' (TwosComplementBits 63) Collapsed Stateless,
    mk_spec ''cpp'' [] False DefaultR Shim [FileWrite, Process] NativeRust
      ''cpp'' (TwosComplementBits 63) Collapsed Stateless,
    mk_spec ''lisp'' [] False DefaultR Shim [FileWrite, Process] NativeRust
      ''common_lisp'' ArbitraryExact Collapsed Stateless,
    mk_spec ''common_lisp'' [] False DefaultR Shim [FileWrite, Process] NativeRust
      ''common_lisp'' ArbitraryExact Collapsed Stateless,
    mk_spec ''ruby'' [] False DefaultR Shim [FileWrite, Process] NativeRust
      ''ruby'' ArbitraryExact Collapsed Stateless,
    mk_spec ''matlab'' [] False DefaultR Shim [FileWrite, Process] NativeRust
      ''matlab'' (ExactMagnitudeBits 53) Collapsed Stateless,
    mk_spec ''mathematica'' [] False DefaultR Shim [FileWrite, Process] NativeRust
      ''mathematica'' ArbitraryExact Preserved Stateless,
    mk_spec ''java'' [] False DefaultR Shim [FileWrite, Process] NativeRust
      ''java'' (TwosComplementBits 63) Collapsed Stateless,
    mk_spec ''javascript'' [] False DefaultR Shim [FileWrite, Process] NativeRust
      ''javascript'' (ExactMagnitudeBits 53) Collapsed Stateless]"

definition BACKEND_SPECS :: "(string \<Rightarrow> string \<Rightarrow> string) \<Rightarrow> backend_spec list" where
  "BACKEND_SPECS h = BACKEND_SPECS_1 h @ BACKEND_SPECS_2 h @ BACKEND_SPECS_3 h"

definition mk_requirement ::
  "string \<Rightarrow> bool \<Rightarrow> requirement_precision \<Rightarrow> string list list \<Rightarrow> runtime_requirement_spec" where
  "mk_requirement k b p alts =
     \<lparr>req_key = k, req_builtin = b, req_precision = p, req_alternatives = alts\<rparr>"

definition RUNTIME_REQUIREMENT_SPECS :: "runtime_requirement_spec list" where
  "RUNTIME_REQUIREMENT_SPECS = [
    mk_requirement ''builtin'' True Exact [],
    mk_requirement ''python'' False Exact [[''python3'']],
    mk_requirement ''bash'' False Exact [[''bash'']],
    mk_requirement ''shell'' False Exact [[''sh'']],
    mk_requirement ''javascript'' False Exact [[''node'']],
    mk_requirement ''ruby'' False Exact [[''ruby'']],
    mk_requirement ''rust'' False Exact [[''rustc'']],
    mk_requirement ''c'' False Exact [[''cc'']],
    mk_requirement ''cpp'' False Exact [[''g++'']],
    mk_requirement ''java'' False Exact [[''javac'', ''java'']],
    mk_requirement ''nix'' False Exact [[''nix'']],
    mk_requirement ''nixos_test'' False ConservativeAllSources [[''python3'', ''nix'']],
    mk_requirement ''sql'' False Exact [[''sqlite3'']],
    mk_requirement ''haskell'' False Exact [[''runghc''], [''ghc'']],
    mk_requirement ''ocaml'' False Exact [[''ocaml''], [''ocamlopt''], [''ocamlc'']],
    mk_requirement ''racket'' False Exact [[''racket'']],
    mk_requirement ''common_lisp'' False Exact [[''sbcl''], [''clisp'']],
    mk_requirement ''csharp'' False Exact [[''dotnet''], [''mcs'', ''mono'']],
    mk_requirement ''matlab'' False Exact [[''octave''], [''matlab'']],
    mk_requirement ''mathematica'' False Exact [[''wolframscript'']],
    mk_requirement ''webassembly'' False ConservativeAllSources [[''wat2wasm'', ''wasmtime''], [''wat2wasm'', ''wasmer''], [''wasm-tools'', ''wasmtime''], [''wasm-tools'', ''wasmer'']],
    mk_requirement ''ubuntu_vm'' False Exact [[''python3'', ''multipass'']]]"

definition UNKNOWN_RUNTIME_REQUIREMENT :: runtime_requirement_spec where
  "UNKNOWN_RUNTIME_REQUIREMENT =
     mk_requirement ''unknown-legacy-python-shim'' False ConservativeAllSources [[''python3'']]"

section \<open>The registry\<close>

record backend_registry =
  specs :: "backend_spec list"
  spec_sha :: "backend_spec \<Rightarrow> string"

definition DEFAULT_SPEC :: backend_spec where
  "DEFAULT_SPEC =
     \<lparr>spec_name = [], spec_aliases = [], spec_pure = False, spec_renderer = DefaultR,
      spec_execution = Shim, spec_required_authorities = [FileRead, FileWrite, Network, Process],
      spec_adapter = LegacyPythonShim,
      spec_runtime_requirement_key = ''unknown-legacy-python-shim'',
      spec_value_capabilities = UNKNOWN_CAPABILITIES, spec_state_support = Stateless\<rparr>"

definition spec_matches :: "string \<Rightarrow> backend_spec \<Rightarrow> bool" where
  "spec_matches lang s \<longleftrightarrow> spec_name s = lang \<or> lang \<in> set (spec_aliases s)"

definition get :: "backend_registry \<Rightarrow> string \<Rightarrow> backend_spec option" where
  "get reg lang = find (spec_matches lang) (specs reg)"

definition canonical_name :: "backend_registry \<Rightarrow> string \<Rightarrow> string" where
  "canonical_name reg lang = (case get reg lang of None \<Rightarrow> lang | Some s \<Rightarrow> spec_name s)"

definition is_pure :: "backend_registry \<Rightarrow> string \<Rightarrow> bool" where
  "is_pure reg lang = (case get reg lang of None \<Rightarrow> False | Some s \<Rightarrow> spec_pure s)"

definition renderer_for :: "backend_registry \<Rightarrow> string \<Rightarrow> splice_renderer" where
  "renderer_for reg lang =
     (case get reg lang of None \<Rightarrow> spec_renderer DEFAULT_SPEC | Some s \<Rightarrow> spec_renderer s)"

definition adapter_for :: "backend_registry \<Rightarrow> string \<Rightarrow> backend_adapter_kind" where
  "adapter_for reg lang =
     (case get reg lang of None \<Rightarrow> spec_adapter DEFAULT_SPEC | Some s \<Rightarrow> spec_adapter s)"

definition state_support_for :: "backend_registry \<Rightarrow> string \<Rightarrow> backend_state_support option" where
  "state_support_for reg lang = map_option spec_state_support (get reg lang)"

definition specification_sha256_of :: "backend_registry \<Rightarrow> string \<Rightarrow> string option" where
  "specification_sha256_of reg lang = map_option (spec_sha reg) (get reg lang)"

definition runtime_requirements_for :: "backend_registry \<Rightarrow> string \<Rightarrow> runtime_requirement_spec" where
  "runtime_requirements_for reg lang =
     (let key = (case get reg lang of None \<Rightarrow> spec_runtime_requirement_key DEFAULT_SPEC
                 | Some s \<Rightarrow> spec_runtime_requirement_key s)
      in case find (\<lambda>r. req_key r = key) RUNTIME_REQUIREMENT_SPECS of
           None \<Rightarrow> UNKNOWN_RUNTIME_REQUIREMENT | Some r \<Rightarrow> r)"

definition interface_for :: "backend_registry \<Rightarrow> string \<Rightarrow> backend_interface" where
  "interface_for reg lang =
     (let spec = (case get reg lang of None \<Rightarrow> DEFAULT_SPEC | Some s \<Rightarrow> s) in
      \<lparr>canonical = canonical_name reg lang,
       specification_sha256 = specification_sha256_of reg lang,
       pure = spec_pure spec, renderer = spec_renderer spec, execution = spec_execution spec,
       value_capabilities = spec_value_capabilities spec,
       state_support = state_support_for reg lang,
       required_authorities = spec_required_authorities spec\<rparr>)"

definition registered_backend_names :: "backend_registry \<Rightarrow> string list" where
  "registered_backend_names reg = concat (map (\<lambda>s. spec_name s # spec_aliases s) (specs reg))"

definition global_registry ::
  "(string \<Rightarrow> string \<Rightarrow> string) \<Rightarrow> (backend_spec \<Rightarrow> string) \<Rightarrow> backend_registry" where
  "global_registry h sha = \<lparr>specs = BACKEND_SPECS h, spec_sha = sha\<rparr>"

text \<open>The parser's view of the catalog: which canonical tag captures syntax.\<close>

definition owns_quoted_syntax :: "backend_registry \<Rightarrow> string \<Rightarrow> bool" where
  "owns_quoted_syntax reg name \<longleftrightarrow>
     (let backend = interface_for reg name
      in execution backend = InlineAst \<and> canonical backend = ''quote'')"

section \<open>Lookup\<close>

lemma find_unique:
  assumes "x \<in> set xs" and "P x" and "\<And>y. y \<in> set xs \<Longrightarrow> P y \<Longrightarrow> y = x"
  shows "find P xs = Some x"
  using assms
proof (induction xs)
  case Nil
  then show ?case by simp
next
  case (Cons a xs)
  show ?case
  proof (cases "P a")
    case True
    with Cons.prems(3) have "a = x" by (meson list.set_intros(1))
    with True show ?thesis by simp
  next
    case False
    with Cons.prems(1,2) have "x \<in> set xs" by auto
    then have "find P xs = Some x"
      using Cons.prems(2,3) by (intro Cons.IH) (auto intro: list.set_intros(2))
    with False show ?thesis by simp
  qed
qed

lemma get_SomeD: "get reg lang = Some s \<Longrightarrow> s \<in> set (specs reg) \<and> spec_matches lang s"
  by (auto simp: get_def find_Some_iff)

lemma get_eq_None_iff: "get reg lang = None \<longleftrightarrow> lang \<notin> set (registered_backend_names reg)"
  by (auto simp: get_def find_None_iff registered_backend_names_def spec_matches_def)

text \<open>A registry is unambiguous when no accepted tag is spelled twice.\<close>

definition unambiguous :: "backend_registry \<Rightarrow> bool" where
  "unambiguous reg \<longleftrightarrow> distinct (registered_backend_names reg)"

lemma distinct_concat_map_unique:
  assumes "distinct (concat (map f xs))" and "x \<in> set xs" and "y \<in> set xs"
    and "a \<in> set (f x)" and "a \<in> set (f y)"
  shows "x = y"
  using assms
proof (induction xs)
  case Nil
  then show ?case by simp
next
  case (Cons z xs)
  then have disj: "a \<notin> set (f z) \<or> (\<forall>w \<in> set xs. a \<notin> set (f w))" by auto
  with Cons show ?case by auto
qed

lemma spec_matches_iff: "spec_matches lang s \<longleftrightarrow> lang \<in> set (spec_name s # spec_aliases s)"
  by (auto simp: spec_matches_def)

lemma unambiguous_match_unique:
  assumes "unambiguous reg" and "s \<in> set (specs reg)" and "t \<in> set (specs reg)"
    and "spec_matches lang s" and "spec_matches lang t"
  shows "s = t"
proof (rule distinct_concat_map_unique)
  show "distinct (concat (map (\<lambda>s. spec_name s # spec_aliases s) (specs reg)))"
    using assms(1) by (simp only: unambiguous_def registered_backend_names_def)
  show "s \<in> set (specs reg)" and "t \<in> set (specs reg)" by fact+
  show "lang \<in> set (spec_name s # spec_aliases s)" and "lang \<in> set (spec_name t # spec_aliases t)"
    using assms(4,5) by (simp_all only: spec_matches_iff)
qed

lemma unambiguous_get:
  assumes "unambiguous reg" and "s \<in> set (specs reg)" and "spec_matches lang s"
  shows "get reg lang = Some s"
  unfolding get_def
proof (rule find_unique)
  show "s \<in> set (specs reg)" and "spec_matches lang s" by fact+
next
  fix t assume "t \<in> set (specs reg)" and "spec_matches lang t"
  then show "t = s" using assms by (metis unambiguous_match_unique)
qed

lemma spec_matches_own_name [simp]: "spec_matches (spec_name s) s"
  by (simp add: spec_matches_def)

lemma canonical_name_idem:
  assumes "unambiguous reg"
  shows "canonical_name reg (canonical_name reg lang) = canonical_name reg lang"
proof (cases "get reg lang")
  case None
  then show ?thesis by (simp add: canonical_name_def)
next
  case (Some s)
  then have "get reg (spec_name s) = Some s"
    using get_SomeD [OF Some] by (intro unambiguous_get assms) simp_all
  with Some show ?thesis by (simp add: canonical_name_def)
qed

lemma interface_for_canonical:
  assumes "unambiguous reg"
  shows "interface_for reg (canonical_name reg lang) = interface_for reg lang"
proof (cases "get reg lang")
  case None
  then show ?thesis by (simp add: canonical_name_def)
next
  case (Some s)
  then have "get reg (spec_name s) = Some s"
    using get_SomeD [OF Some] by (intro unambiguous_get assms) simp_all
  with Some show ?thesis
    by (simp add: interface_for_def canonical_name_def specification_sha256_of_def
        state_support_for_def)
qed

lemmas catalog_table = BACKEND_SPECS_def BACKEND_SPECS_1_def BACKEND_SPECS_2_def
  BACKEND_SPECS_3_def mk_spec_def

definition catalog_tags :: "string list" where
  "catalog_tags = [
    ''O'', ''o'', ''quote'', ''nix'', ''nix_expr'', ''nix_store'', ''nixos_test'', ''html'',
    ''markdown'', ''md'', ''latex'', ''tex'', ''text'', ''plain'', ''sql'', ''haskell'',
    ''ocaml'', ''webassembly'', ''python'', ''py'', ''ubuntu_vm'', ''ubuntu'', ''bash'',
    ''shell'', ''rust'', ''racket'', ''csharp'', ''c'', ''cpp'', ''lisp'', ''common_lisp'',
    ''ruby'', ''matlab'', ''mathematica'', ''java'', ''javascript'']"

lemma registered_global: "registered_backend_names (global_registry h sha) = catalog_tags"
  by (simp add: registered_backend_names_def global_registry_def catalog_table catalog_tags_def)

lemma distinct_catalog_tags: "distinct catalog_tags"
  unfolding catalog_tags_def by code_simp

lemma global_unambiguous: "unambiguous (global_registry h sha)"
  by (simp add: unambiguous_def registered_global distinct_catalog_tags)

lemma catalog_pure_inline:
  "\<forall>s \<in> set (BACKEND_SPECS h).
     (spec_pure s \<longrightarrow> spec_execution s = InlineValue \<and> spec_required_authorities s = []) \<and>
     (spec_execution s = InlineValue \<longrightarrow> spec_pure s)"
  by (simp add: catalog_table)

section \<open>Properties\<close>

text \<open>
  C21. Every tag of the catalog, canonical or alias, names one backend: canonicalisation is
  idempotent and an alias has exactly the interface of its canonical name, so lowering does not
  depend on the spelling the program uses.
\<close>

theorem alias_resolution:
  "canonical_name (global_registry h sha) (canonical_name (global_registry h sha) lang) =
     canonical_name (global_registry h sha) lang \<and>
   interface_for (global_registry h sha) (canonical_name (global_registry h sha) lang) =
     interface_for (global_registry h sha) lang"
  by (simp add: canonical_name_idem interface_for_canonical global_unambiguous)

text \<open>
  C22. Purity is a promise about execution: a backend the catalog calls pure is evaluated inline as
  a value and needs no authority, and every inline-value backend is pure. A tag that is not
  catalogued is never pure and is charged with every authority.
\<close>

theorem purity_is_conservative:
  "let reg = global_registry h sha; i = interface_for reg lang in
     (pure i \<longleftrightarrow> execution i = InlineValue) \<and>
     (pure i \<longrightarrow> required_authorities i = []) \<and>
     (lang \<notin> set (registered_backend_names reg) \<longrightarrow>
        \<not> pure i \<and> execution i = Shim \<and> canonical i = lang \<and> specification_sha256 i = None \<and>
        set (required_authorities i) = UNIV)"
proof (cases "get (global_registry h sha) lang")
  case None
  have "a \<in> {FileRead, FileWrite, Network, Process}" for a by (cases a) simp_all
  then have "{FileRead, FileWrite, Network, Process} = UNIV" by blast
  with None show ?thesis
    by (simp add: Let_def interface_for_def DEFAULT_SPEC_def canonical_name_def
        specification_sha256_of_def)
next
  case (Some s)
  then have "s \<in> set (BACKEND_SPECS h)"
    using get_SomeD by (fastforce simp: global_registry_def)
  then have "spec_pure s \<longleftrightarrow> spec_execution s = InlineValue"
    "spec_pure s \<longrightarrow> spec_required_authorities s = []"
    using catalog_pure_inline [of h] by blast+
  moreover have "lang \<in> set (registered_backend_names (global_registry h sha))"
    using Some get_eq_None_iff [of "global_registry h sha" lang] by simp
  ultimately show ?thesis using Some by (simp add: Let_def interface_for_def)
qed

definition sample_registry :: backend_registry where
  "sample_registry = global_registry (\<lambda>domain name. domain @ name) spec_name"

theorem purity_is_conservative_witness:
  "pure (interface_for sample_registry ''html'') \<and>
   required_authorities (interface_for sample_registry ''html'') = [] \<and>
   \<not> pure (interface_for sample_registry ''cobol'')"
proof -
  have html: "pure (interface_for sample_registry ''html'')" by code_simp
  moreover have "''cobol'' \<notin> set (registered_backend_names sample_registry)" by code_simp
  ultimately show ?thesis
    using purity_is_conservative [of "\<lambda>domain name. domain @ name" spec_name "''html''"]
      purity_is_conservative [of "\<lambda>domain name. domain @ name" spec_name "''cobol''"]
    unfolding sample_registry_def Let_def by blast
qed

end
