(* ===== verification/Oir.thy ===== *)
theory Oir
  imports Environment Backend_Catalog
begin

text \<open>
  Syntax and its lowered form (\<open>parser.rs\<close>: \<open>ONode\<close>; \<open>ir.rs\<close>: \<open>OIr\<close>). Lowering is purely
  structural; it freezes the catalog interface of every typed block and the invocation policy
  of every call. \<open>flatten_for_plan\<close> enumerates the executable nodes in the preorder that the
  execution plan uses.
\<close>

section \<open>Syntax nodes\<close>

datatype onode =
    RawText string
  | VarRef string
  | LetBinding string onode
  | TypedExpr string u32 "string option" "onode list"
  | Call string "onode list"

section \<open>Instructions\<close>

datatype group_mode = BatchG | AllG | AnyG | RaceG

datatype invoke_mode = EagerI | LazyI | AutonomousI | GroupI group_mode

definition invoke_mode_for_name :: "string \<Rightarrow> invoke_mode" where
  "invoke_mode_for_name n =
     (if n = ''lazy'' then LazyI
      else if n = ''autonomous'' then AutonomousI
      else if n = ''batch'' then GroupI BatchG
      else if n = ''all'' then GroupI AllG
      else if n = ''any'' then GroupI AnyG
      else if n = ''race'' then GroupI RaceG
      else EagerI)"

fun invoke_mode_label :: "invoke_mode \<Rightarrow> string" where
  "invoke_mode_label EagerI = ''eager''"
| "invoke_mode_label LazyI = ''lazy''"
| "invoke_mode_label AutonomousI = ''autonomous''"
| "invoke_mode_label (GroupI BatchG) = ''group:batch''"
| "invoke_mode_label (GroupI AllG) = ''group:all''"
| "invoke_mode_label (GroupI AnyG) = ''group:any''"
| "invoke_mode_label (GroupI RaceG) = ''group:race''"

datatype oir =
    Text string
  | Load string
  | Store string oir
  | Invoke string invoke_mode "oir list"
  | Exec string u32 "string option" backend_interface "oir list"

record oir_program =
  prog_nodes :: "oir list"

fun is_quote_exec :: "oir \<Rightarrow> bool" where
  "is_quote_exec (Exec _ _ _ b _) \<longleftrightarrow> execution b = InlineAst \<and> canonical b = ''quote''"
| "is_quote_exec _ \<longleftrightarrow> False"

section \<open>Lowering\<close>

fun lower_node :: "backend_registry \<Rightarrow> onode \<Rightarrow> oir" where
  "lower_node reg (RawText s) = Text s"
| "lower_node reg (VarRef n) = Load n"
| "lower_node reg (LetBinding n e) = Store n (lower_node reg e)"
| "lower_node reg (Call f args) = Invoke f (invoke_mode_for_name f) (map (lower_node reg) args)"
| "lower_node reg (TypedExpr lang env attr body) =
     Exec lang env attr (interface_for reg lang) (map (lower_node reg) body)"

definition lower :: "backend_registry \<Rightarrow> onode list \<Rightarrow> oir_program" where
  "lower reg ns = \<lparr>prog_nodes = map (lower_node reg) ns\<rparr>"

section \<open>Plan preorder\<close>

fun flatten_node_for_plan :: "oir \<Rightarrow> oir list" where
  "flatten_node_for_plan (Text s) = [Text s]"
| "flatten_node_for_plan (Load n) = [Load n]"
| "flatten_node_for_plan (Store n e) = Store n e # flatten_node_for_plan e"
| "flatten_node_for_plan (Invoke f m args) =
     Invoke f m args # concat (map flatten_node_for_plan args)"
| "flatten_node_for_plan (Exec l e a b body) =
     Exec l e a b body #
     (if is_quote_exec (Exec l e a b body) then []
      else concat (map flatten_node_for_plan body))"

definition flatten_nodes_for_plan :: "oir list \<Rightarrow> oir list" where
  "flatten_nodes_for_plan ns = concat (map flatten_node_for_plan ns)"

definition flatten_for_plan :: "oir_program \<Rightarrow> oir list" where
  "flatten_for_plan p = flatten_nodes_for_plan (prog_nodes p)"

section \<open>Source reconstruction\<close>

text \<open>
  The optional pieces between the tag and the body: the environment marker, then the
  attribute list in braces.
\<close>

definition tag_suffix :: "u32 \<Rightarrow> string option \<Rightarrow> string" where
  "tag_suffix env attr =
     (case source_marker (from_encoded env) of None \<Rightarrow> [] | Some m \<Rightarrow> m) @
     (case attr of None \<Rightarrow> [] | Some a \<Rightarrow> ''{'' @ a @ ''}'')"

fun reconstruct_node :: "oir \<Rightarrow> string" where
  "reconstruct_node (Text s) = s"
| "reconstruct_node (Load n) = ''$'' @ n"
| "reconstruct_node (Store n e) = ''let '' @ n @ '' = '' @ reconstruct_node e"
| "reconstruct_node (Invoke f m args) =
     f @ ''('' @ join_with '', '' (map reconstruct_node args) @ '')''"
| "reconstruct_node (Exec lang env attr b body) =
     lang @ tag_suffix env attr @ ''^('' @ concat (map reconstruct_node body) @
     '')_'' @ lang @ tag_suffix env attr"

definition reconstruct_source :: "oir list \<Rightarrow> string" where
  "reconstruct_source ns = concat (map reconstruct_node ns)"

text \<open>The parser's own reconstruction, over syntax nodes.\<close>

fun reconstruct_onode :: "onode \<Rightarrow> string" where
  "reconstruct_onode (RawText s) = s"
| "reconstruct_onode (VarRef n) = ''$'' @ n"
| "reconstruct_onode (LetBinding n e) = ''let '' @ n @ '' = '' @ reconstruct_onode e"
| "reconstruct_onode (TypedExpr lang env attr body) =
     lang @ tag_suffix env attr @ ''^('' @ concat (map reconstruct_onode body) @
     '')_'' @ lang @ tag_suffix env attr"
| "reconstruct_onode (Call f args) =
     f @ ''('' @ join_with '', '' (map reconstruct_onode args) @ '')''"

definition reconstruct_onodes :: "onode list \<Rightarrow> string" where
  "reconstruct_onodes ns = concat (map reconstruct_onode ns)"

section \<open>Lemmas\<close>

lemma flatten_node_nonempty [simp]: "flatten_node_for_plan x \<noteq> []"
  by (cases x) auto

lemma flatten_node_hd: "hd (flatten_node_for_plan x) = x"
  by (cases x) auto

lemma flatten_node_length_pos [simp]: "0 < length (flatten_node_for_plan x)"
  by simp

lemma flatten_nodes_Nil [simp]: "flatten_nodes_for_plan [] = []"
  by (simp add: flatten_nodes_for_plan_def)

lemma flatten_nodes_Cons [simp]:
  "flatten_nodes_for_plan (n # ns) = flatten_node_for_plan n @ flatten_nodes_for_plan ns"
  by (simp add: flatten_nodes_for_plan_def)

lemma reconstruct_lower: "reconstruct_node (lower_node reg n) = reconstruct_onode n"
  by (induction n) (auto simp: comp_def cong: map_cong)

end
