(* ===== verification/Plan.thy ===== *)
theory Plan
  imports Oir "HOL-Library.AList"
begin

text \<open>
  Execution plans (\<open>ir.rs\<close>): the dependency graph over OIR nodes and the builder that derives
  it from a program. Node identities are preorder positions; structural edges run from child to
  parent, sequence edges from a node to its right sibling, data edges from a store to the nodes
  that read its binding.
\<close>

section \<open>Plan vocabulary\<close>

datatype plan_edge_kind = Structural | Sequence | Data

datatype plan_node_class = PureN | EffectN | ControlN

datatype cache_policy = Memoize | Bypass

definition cacheable :: "cache_policy \<Rightarrow> bool" where
  "cacheable p = (case p of Memoize \<Rightarrow> True | Bypass \<Rightarrow> False)"

datatype plan_request_kind = Instantiate | Realise | DryActivate | Activate

fun request_label :: "plan_request_kind \<Rightarrow> string" where
  "request_label Instantiate = ''instantiate''"
| "request_label Realise = ''realise''"
| "request_label DryActivate = ''dry_activate''"
| "request_label Activate = ''activate''"

fun request_cache_policy :: "plan_request_kind \<Rightarrow> cache_policy" where
  "request_cache_policy Instantiate = Memoize"
| "request_cache_policy Realise = Memoize"
| "request_cache_policy DryActivate = Bypass"
| "request_cache_policy Activate = Bypass"

datatype plan_schedule_kind = Force | LazyS | AutonomousS

fun schedule_label :: "plan_schedule_kind \<Rightarrow> string" where
  "schedule_label Force = ''force''"
| "schedule_label LazyS = ''lazy''"
| "schedule_label AutonomousS = ''autonomous''"

record plan_edge =
  edge_from :: nat
  edge_to :: nat
  edge_kind :: plan_edge_kind

datatype plan_node_kind =
    TextK
  | LoadK string
  | StoreK string
  | CallK string invoke_mode nat
  | RequestK string plan_request_kind nat
  | GroupK group_mode nat
  | ScheduleK string plan_schedule_kind nat
  | ExecK string u32 "string option" backend_interface

record plan_node =
  node_id :: nat
  node_kind :: plan_node_kind

record execution_plan =
  roots :: "nat list"
  nodes :: "plan_node list"
  edges :: "plan_edge list"

section \<open>Attributes\<close>

definition attr_entries :: "string option \<Rightarrow> string list" where
  "attr_entries attr = (case attr of None \<Rightarrow> [] | Some a \<Rightarrow> map trim (split_char CHR '','' a))"

definition parse_eval_cache_policy :: "string option \<Rightarrow> cache_policy option" where
  "parse_eval_cache_policy attr =
     fold (\<lambda>entry policy.
             if entry = ''lazy'' then Some Memoize
             else if entry = ''defer'' then Some Bypass
             else policy)
       (attr_entries attr) None"

fun find_map :: "('a \<Rightarrow> 'b option) \<Rightarrow> 'a list \<Rightarrow> 'b option" where
  "find_map f [] = None"
| "find_map f (x # xs) = (case f x of None \<Rightarrow> find_map f xs | Some y \<Rightarrow> Some y)"

definition attr_capability_binding :: "string option \<Rightarrow> string option" where
  "attr_capability_binding attr =
     find_map (\<lambda>entry. case strip_prefix ''cap='' entry of
                         None \<Rightarrow> None
                       | Some name \<Rightarrow> if name = [] then None else Some name)
       (attr_entries attr)"

fun eval_cache_policy :: "plan_node_kind \<Rightarrow> cache_policy option" where
  "eval_cache_policy (ExecK _ _ attr _) = parse_eval_cache_policy attr"
| "eval_cache_policy (RequestK _ k _) = Some (request_cache_policy k)"
| "eval_cache_policy _ = None"

fun node_class :: "plan_node_kind \<Rightarrow> plan_node_class" where
  "node_class (ExecK l e a b) =
     (if eval_cache_policy (ExecK l e a b) \<noteq> None then ControlN else EffectN)"
| "node_class (RequestK _ _ _) = ControlN"
| "node_class (GroupK _ _) = ControlN"
| "node_class (ScheduleK _ _ _) = ControlN"
| "node_class _ = PureN"

section \<open>Lexical scopes\<close>

text \<open>
  The builder's scope stack, innermost scope first. A scope is an association list with
  distinct names; the only traversal of it is followed by a sort, so its order is immaterial.
\<close>

type_synonym scope = "(string \<times> nat) list"

fun scope_lookup :: "scope list \<Rightarrow> string \<Rightarrow> nat option" where
  "scope_lookup [] name = None"
| "scope_lookup (s # stack) name =
     (case map_of s name of Some i \<Rightarrow> Some i | None \<Rightarrow> scope_lookup stack name)"

fun scope_bind :: "string \<Rightarrow> nat \<Rightarrow> scope list \<Rightarrow> scope list" where
  "scope_bind name i [] = []"
| "scope_bind name i (s # stack) = AList.update name i s # stack"

fun collect_visible :: "string set \<Rightarrow> scope list \<Rightarrow> nat list" where
  "collect_visible seen [] = []"
| "collect_visible seen (s # stack) =
     map snd (filter (\<lambda>(name, _). name \<notin> seen) s) @
     collect_visible (seen \<union> fst ` set s) stack"

definition visible_scope_sources :: "scope list \<Rightarrow> nat list" where
  "visible_scope_sources stack = sort (collect_visible {} stack)"

section \<open>The builder\<close>

record plan_builder =
  b_nodes :: "plan_node list"
  b_edges :: "plan_edge list"

definition new_builder :: plan_builder where
  "new_builder = \<lparr>b_nodes = [], b_edges = []\<rparr>"

definition add_edge :: "nat \<Rightarrow> nat \<Rightarrow> plan_edge_kind \<Rightarrow> plan_builder \<Rightarrow> plan_builder" where
  "add_edge f t k b =
     (let e = \<lparr>edge_from = f, edge_to = t, edge_kind = k\<rparr> in
      if e \<in> set (b_edges b) then b else b\<lparr>b_edges := b_edges b @ [e]\<rparr>)"

definition add_data_edges :: "nat list \<Rightarrow> nat \<Rightarrow> plan_builder \<Rightarrow> plan_builder" where
  "add_data_edges sources i b = fold (\<lambda>s. add_edge s i Data) sources b"

definition push_node :: "plan_node_kind \<Rightarrow> plan_builder \<Rightarrow> plan_builder" where
  "push_node k b =
     b\<lparr>b_nodes := b_nodes b @ [\<lparr>node_id = length (b_nodes b), node_kind = k\<rparr>]\<rparr>"

fun plan_kind :: "oir \<Rightarrow> plan_node_kind" where
  "plan_kind (Text _) = TextK"
| "plan_kind (Load n) = LoadK n"
| "plan_kind (Store n _) = StoreK n"
| "plan_kind (Invoke f (GroupI m) args) = GroupK m (length args)"
| "plan_kind (Invoke f LazyI args) = ScheduleK f LazyS (length args)"
| "plan_kind (Invoke f AutonomousI args) = ScheduleK f AutonomousS (length args)"
| "plan_kind (Invoke f EagerI args) =
     (if f = ''instantiate'' then RequestK f Instantiate (length args)
      else if f = ''realise'' then RequestK f Realise (length args)
      else if f = ''dry_activate'' then RequestK f DryActivate (length args)
      else if f = ''activate'' then RequestK f Activate (length args)
      else if f = ''now'' then ScheduleK f Force (length args)
      else CallK f EagerI (length args))"
| "plan_kind (Exec lang env attr b _) = ExecK lang env attr b"

definition data_edge_from_scope :: "scope list \<Rightarrow> string \<Rightarrow> nat \<Rightarrow> plan_builder \<Rightarrow> plan_builder" where
  "data_edge_from_scope stack name i b =
     (case scope_lookup stack name of None \<Rightarrow> b | Some s \<Rightarrow> add_edge s i Data b)"

text \<open>The edges a node receives before its children are visited.\<close>

definition link_node :: "nat option \<Rightarrow> nat option \<Rightarrow> nat \<Rightarrow> plan_builder \<Rightarrow> plan_builder" where
  "link_node parent prev i b =
     (let b1 = (case parent of None \<Rightarrow> b | Some p \<Rightarrow> add_edge i p Structural b) in
      case prev of None \<Rightarrow> b1 | Some q \<Rightarrow> add_edge q i Sequence b1)"

fun read_edges :: "oir \<Rightarrow> scope list \<Rightarrow> nat \<Rightarrow> plan_builder \<Rightarrow> plan_builder" where
  "read_edges (Text _) stack i b = b"
| "read_edges (Load name) stack i b = data_edge_from_scope stack name i b"
| "read_edges (Store _ _) stack i b = b"
| "read_edges (Invoke f _ _) stack i b =
     (if f = ''scope'' then add_data_edges (visible_scope_sources stack) i b else b)"
| "read_edges (Exec _ _ attr backend _) stack i b =
     (let b1 = (if execution backend = Shim
                then add_data_edges (visible_scope_sources stack) i b else b) in
      case attr_capability_binding attr of
        None \<Rightarrow> b1
      | Some binding \<Rightarrow> data_edge_from_scope stack binding i b1)"

fun add_node ::
  "oir \<Rightarrow> scope list \<Rightarrow> nat option \<Rightarrow> nat option \<Rightarrow> plan_builder \<Rightarrow> nat \<times> scope list \<times> plan_builder"
and add_children ::
  "oir list \<Rightarrow> scope list \<Rightarrow> nat \<Rightarrow> nat option \<Rightarrow> plan_builder \<Rightarrow> scope list \<times> plan_builder" where
  "add_node node stack parent prev b =
     (let i = length (b_nodes b);
          b1 = read_edges node stack i (link_node parent prev i (push_node (plan_kind node) b))
      in case node of
           Text _ \<Rightarrow> (i, stack, b1)
         | Load _ \<Rightarrow> (i, stack, b1)
         | Store name e \<Rightarrow>
             (case add_node e ([] # stack) (Some i) None b1 of
                (_, stack', b2) \<Rightarrow> (i, scope_bind name i (tl stack'), b2))
         | Invoke _ _ args \<Rightarrow>
             (case add_children args ([] # stack) i None b1 of (stack', b2) \<Rightarrow> (i, tl stack', b2))
         | Exec _ _ _ backend body \<Rightarrow>
             (if execution backend = InlineAst \<and> canonical backend = ''quote'' then (i, stack, b1)
              else (case add_children body ([] # stack) i None b1 of
                      (stack', b2) \<Rightarrow> (i, tl stack', b2))))"
| "add_children [] stack parent prev b = (stack, b)"
| "add_children (c # cs) stack parent prev b =
     (case add_node c stack (Some parent) prev b of
        (i, stack', b') \<Rightarrow> add_children cs stack' parent (Some i) b')"

declare add_node.simps [simp del]

fun add_roots :: "oir list \<Rightarrow> scope list \<Rightarrow> nat option \<Rightarrow> plan_builder \<Rightarrow> nat list \<times> plan_builder" where
  "add_roots [] stack prev b = ([], b)"
| "add_roots (n # ns) stack prev b =
     (case add_node n stack None prev b of
        (i, stack', b') \<Rightarrow> (case add_roots ns stack' (Some i) b' of (is, b'') \<Rightarrow> (i # is, b'')))"

definition plan :: "oir_program \<Rightarrow> execution_plan" where
  "plan p =
     (case add_roots (prog_nodes p) [[]] None new_builder of
        (rs, b) \<Rightarrow> \<lparr>roots = rs, nodes = b_nodes b, edges = b_edges b\<rparr>)"

end
