(* ===== verification/Topo.thy ===== *)
theory Topo
  imports Plan
begin

text \<open>
  Scheduling and validation of execution plans (\<open>ir.rs\<close>, \<open>ExecutionPlan\<close>): Kahn's algorithm
  with a smallest-identifier ready set, the root and child schedules read off its result, and
  the structural validator that runs before any instruction is evaluated.

  The algorithm is a direct transcription over vectors: indexing outside a vector and an
  underflowing decrement are the panic \<open>IndexPanic\<close>. \<open>topo_scheduler\<close> states what clients rely
  on; the plan scheduler interprets it.
\<close>

section \<open>The algorithm\<close>

datatype plan_error =
    RootCountMismatch nat nat
  | NodeIdentityMismatch nat nat
  | RootOutOfBounds nat
  | RootDuplicated nat
  | EdgeOutOfBounds nat nat
  | CyclicPlan
  | RootsNotScheduled
  | ParentOutOfBounds nat
  | IndexPanic

fun build_adjacency ::
  "(nat \<times> nat) list \<Rightarrow> nat list \<Rightarrow> nat list list \<Rightarrow> plan_error + nat list \<times> nat list list" where
  "build_adjacency [] indegree successors = Inr (indegree, successors)"
| "build_adjacency ((f, t) # es) indegree successors =
     (if t < length indegree \<and> f < length successors
      then build_adjacency es (indegree[t := indegree ! t + 1])
             (successors[f := successors ! f @ [t]])
      else Inl IndexPanic)"

fun kahn_relax :: "nat list \<Rightarrow> nat list \<Rightarrow> nat list \<Rightarrow> plan_error + nat list \<times> nat list" where
  "kahn_relax [] indegree ready = Inr (indegree, ready)"
| "kahn_relax (s # ss) indegree ready =
     (if s < length indegree \<and> 0 < indegree ! s
      then (let d = indegree ! s - 1
            in kahn_relax ss (indegree[s := d]) (if d = 0 then bt_insert s ready else ready))
      else Inl IndexPanic)"

lemma sum_list_decrement:
  assumes "s < length ds" and "0 < ds ! s"
  shows "Suc (sum_list (ds[s := ds ! s - 1 :: nat])) = sum_list ds"
proof -
  have "ds ! s \<le> sum_list ds" using assms(1) by (simp add: elem_le_sum_list)
  then show ?thesis using assms by (simp add: sum_list_update)
qed

lemma kahn_relax_measure:
  "kahn_relax ss indegree ready = Inr (indegree', ready')
    \<Longrightarrow> sum_list indegree' + length ready' \<le> sum_list indegree + length ready"
proof (induction ss arbitrary: indegree ready)
  case Nil
  then show ?case by simp
next
  case (Cons s ss)
  then have s: "s < length indegree" "0 < indegree ! s" by (auto split: if_splits)
  let ?ind = "indegree[s := indegree ! s - 1]"
  let ?ready = "if indegree ! s - 1 = 0 then bt_insert s ready else ready"
  have "kahn_relax ss ?ind ?ready = Inr (indegree', ready')"
    using Cons.prems s by (simp add: Let_def)
  then have "sum_list indegree' + length ready' \<le> sum_list ?ind + length ?ready"
    by (rule Cons.IH)
  moreover have "length ?ready \<le> Suc (length ready)"
    using length_bt_insert [of s ready] by simp
  moreover have "Suc (sum_list ?ind) = sum_list indegree"
    using s by (rule sum_list_decrement)
  ultimately show ?case by linarith
qed

function kahn_loop ::
  "nat list list \<Rightarrow> nat list \<Rightarrow> nat list \<Rightarrow> nat list \<Rightarrow> plan_error + nat list" where
  "kahn_loop successors indegree [] order = Inr order"
| "kahn_loop successors indegree (i # ready) order =
     (if i < length successors
      then (case kahn_relax (successors ! i) indegree ready of
              Inl e \<Rightarrow> Inl e
            | Inr (indegree', ready') \<Rightarrow> kahn_loop successors indegree' ready' (order @ [i]))
      else Inl IndexPanic)"
  by pat_completeness auto
termination
proof (relation "measure (\<lambda>(successors, indegree, ready, order). sum_list indegree + length ready)")
  fix successors indegree i ready order x y indegree' ready'
  assume "kahn_relax (successors ! i) indegree ready = Inr x" and "(indegree', ready') = x"
  then have "sum_list indegree' + length ready' \<le> sum_list indegree + length ready"
    by (intro kahn_relax_measure) simp
  then show "((successors, indegree', ready', order @ [i]), successors, indegree, i # ready, order)
      \<in> measure (\<lambda>(successors, indegree, ready, order). sum_list indegree + length ready)"
    by simp
qed simp

definition edge_pairs :: "execution_plan \<Rightarrow> (nat \<times> nat) list" where
  "edge_pairs p = map (\<lambda>e. (edge_from e, edge_to e)) (edges p)"

definition topological_order :: "execution_plan \<Rightarrow> plan_error + nat list" where
  "topological_order p =
     (let n = length (nodes p) in
      and_then (build_adjacency (edge_pairs p) (replicate n 0) (replicate n []))
        (\<lambda>(indegree, successors).
           and_then (kahn_loop successors indegree (filter (\<lambda>i. indegree ! i = 0) [0..<n]) [])
             (\<lambda>order. if length order \<noteq> n then Inl CyclicPlan else Inr order)))"

text \<open>Positions of the roots; a later duplicate wins, as in a map collected from an iterator.\<close>

definition root_positions :: "execution_plan \<Rightarrow> nat \<Rightarrow> nat option" where
  "root_positions p = map_of (rev (zip (roots p) [0..<length (roots p)]))"

definition root_schedule :: "execution_plan \<Rightarrow> plan_error + nat list" where
  "root_schedule p =
     and_then (topological_order p)
       (\<lambda>order. let schedule = List.map_filter (root_positions p) order
                in if length schedule \<noteq> length (roots p) then Inl RootsNotScheduled
                   else Inr schedule)"

definition structural_children :: "execution_plan \<Rightarrow> nat \<Rightarrow> nat list" where
  "structural_children p parent =
     bt_from (map edge_from (filter (\<lambda>e. edge_kind e = Structural \<and> edge_to e = parent) (edges p)))"

definition child_schedule :: "execution_plan \<Rightarrow> nat \<Rightarrow> plan_error + nat list" where
  "child_schedule p parent =
     (if length (nodes p) \<le> parent then Inl (ParentOutOfBounds parent)
      else and_then (topological_order p)
             (\<lambda>order. Inr (filter (\<lambda>i. i \<in> set (structural_children p parent)) order)))"

fun check_roots :: "nat \<Rightarrow> nat list \<Rightarrow> nat list \<Rightarrow> plan_error + unit" where
  "check_roots n seen [] = Inr ()"
| "check_roots n seen (r # rs) =
     (if n \<le> r then Inl (RootOutOfBounds r)
      else if r \<in> set seen then Inl (RootDuplicated r)
      else check_roots n (r # seen) rs)"

definition validate :: "execution_plan \<Rightarrow> nat \<Rightarrow> plan_error + unit" where
  "validate p root_count =
     and_then (ensure (length (roots p) = root_count)
                 (RootCountMismatch (length (roots p)) root_count)) (\<lambda>_.
     and_then (for_each (\<lambda>(index, node). ensure (node_id node = index)
                           (NodeIdentityMismatch index (node_id node)))
                 (enumerate 0 (nodes p))) (\<lambda>_.
     and_then (check_roots (length (nodes p)) [] (roots p)) (\<lambda>_.
     and_then (for_each (\<lambda>e. ensure (edge_from e < length (nodes p) \<and> edge_to e < length (nodes p))
                               (EdgeOutOfBounds (edge_from e) (edge_to e)))
                 (edges p)) (\<lambda>_.
     and_then (topological_order p) (\<lambda>_.
     and_then (root_schedule p) (\<lambda>_. Inr ()))))))"

section \<open>The counting invariant\<close>

text \<open>
  \<open>pending E D v\<close> counts the edges into \<open>v\<close> whose source is not in \<open>D\<close>: the value the
  in-degree vector must hold once the nodes of \<open>D\<close> have been emitted. \<open>available\<close> is the ready
  set.
\<close>

definition pending :: "(nat \<times> nat) list \<Rightarrow> nat set \<Rightarrow> nat \<Rightarrow> nat" where
  "pending E D v = length (filter (\<lambda>(f, t). t = v \<and> f \<notin> D) E)"

definition succs_of :: "(nat \<times> nat) list \<Rightarrow> nat \<Rightarrow> nat list" where
  "succs_of E u = map snd (filter (\<lambda>(f, t). f = u) E)"

definition available :: "nat \<Rightarrow> (nat \<times> nat) list \<Rightarrow> nat set \<Rightarrow> nat set" where
  "available n E D = {v. v < n \<and> v \<notin> D \<and> (\<forall>u. (u, v) \<in> set E \<longrightarrow> u \<in> D)}"

lemma pending_eq_0_iff: "pending E D v = 0 \<longleftrightarrow> (\<forall>u. (u, v) \<in> set E \<longrightarrow> u \<in> D)"
  by (auto simp: pending_def filter_empty_conv)

lemma available_pending: "available n E D = {v. v < n \<and> v \<notin> D \<and> pending E D v = 0}"
  by (simp add: available_def pending_eq_0_iff)

lemma set_succs_of: "v \<in> set (succs_of E u) \<longleftrightarrow> (u, v) \<in> set E"
  by (force simp: succs_of_def)

lemma pending_insert:
  "u \<notin> D \<Longrightarrow> pending E D v = pending E (insert u D) v + count_list (succs_of E u) v"
  by (induction E) (auto simp: pending_def succs_of_def)

lemma build_adjacency_ok:
  assumes "\<forall>(f, t) \<in> set E. f < n \<and> t < n" and "length indegree = n" and "length successors = n"
  shows "build_adjacency E indegree successors =
    Inr (map (\<lambda>v. indegree ! v + pending E {} v) [0..<n],
         map (\<lambda>u. successors ! u @ succs_of E u) [0..<n])"
  using assms
proof (induction E arbitrary: indegree successors)
  case Nil
  then show ?case
    by (auto simp: pending_def succs_of_def intro: nth_equalityI)
next
  case (Cons e E)
  obtain f t where e: "e = (f, t)" by (cases e)
  show ?case
    using Cons.prems
    by (auto simp: e Cons.IH pending_def succs_of_def nth_list_update intro!: nth_equalityI)
qed

lemma build_adjacency_Inr_bounded:
  "build_adjacency E indegree successors = Inr r
    \<Longrightarrow> \<forall>(f, t) \<in> set E. f < length successors \<and> t < length indegree"
  by (induction E indegree successors rule: build_adjacency.induct)
    (auto split: if_splits)

lemma kahn_relax_ok:
  assumes "\<forall>s \<in> set ss. s < length indegree"
    and "\<forall>v < length indegree. count_list ss v \<le> indegree ! v" and "ascending ready"
  shows "\<exists>ready'. kahn_relax ss indegree ready =
      Inr (map (\<lambda>v. indegree ! v - count_list ss v) [0..<length indegree], ready')
    \<and> ascending ready'
    \<and> set ready' = set ready \<union> {v \<in> set ss. indegree ! v = count_list ss v}"
  using assms
proof (induction ss arbitrary: indegree ready)
  case Nil
  then show ?case by (auto intro: nth_equalityI)
next
  case (Cons s ss)
  define ind where "ind = indegree[s := indegree ! s - 1]"
  define rd where "rd = (if indegree ! s - 1 = 0 then bt_insert s ready else ready)"
  have s: "s < length indegree" "0 < indegree ! s"
    using Cons.prems(1,2) by (auto dest!: spec [of _ s])
  have c: "Suc (count_list ss s) \<le> indegree ! s"
    using Cons.prems(2) s(1) by (auto dest!: spec [of _ s])
  have nth: "ind ! v = (if v = s then indegree ! s - 1 else indegree ! v)" for v
    using s by (auto simp: ind_def nth_list_update)
  have len: "length ind = length indegree" by (simp add: ind_def)
  have "\<exists>ready'. kahn_relax ss ind rd =
      Inr (map (\<lambda>v. ind ! v - count_list ss v) [0..<length ind], ready')
    \<and> ascending ready' \<and> set ready' = set rd \<union> {v \<in> set ss. ind ! v = count_list ss v}"
  proof (rule Cons.IH)
    show "\<forall>v < length ind. count_list ss v \<le> ind ! v"
      using Cons.prems(2) by (auto simp: nth len split: if_splits)
  qed (use Cons.prems in \<open>auto simp: len rd_def\<close>)
  then obtain ready' where r: "kahn_relax ss ind rd =
      Inr (map (\<lambda>v. ind ! v - count_list ss v) [0..<length ind], ready')" "ascending ready'"
    "set ready' = set rd \<union> {v \<in> set ss. ind ! v = count_list ss v}"
    by blast
  have "kahn_relax (s # ss) indegree ready = kahn_relax ss ind rd"
    using s by (simp add: ind_def rd_def Let_def)
  moreover have "map (\<lambda>v. ind ! v - count_list ss v) [0..<length ind]
      = map (\<lambda>v. indegree ! v - count_list (s # ss) v) [0..<length indegree]"
    by (auto simp: nth len)
  moreover have "set ready' = set ready \<union> {v \<in> set (s # ss). indegree ! v = count_list (s # ss) v}"
    using s c by (auto simp: r(3) rd_def nth count_list_0_iff split: if_splits dest: count_notin)

  ultimately show ?case using r(1,2) by auto
qed

section \<open>The loop\<close>

text \<open>
  An order is a greedy prefix when every element is the least node that was available at its
  turn. \<open>keeps_order\<close> says that an order places the source of every dependency before its target.
\<close>

definition greedy_prefix :: "nat \<Rightarrow> (nat \<times> nat) list \<Rightarrow> nat list \<Rightarrow> bool" where
  "greedy_prefix n E order \<longleftrightarrow>
     (\<forall>i < length order.
        order ! i \<in> available n E (set (take i order)) \<and>
        (\<forall>v \<in> available n E (set (take i order)). order ! i \<le> v))"

definition keeps_order :: "(nat \<times> nat) set \<Rightarrow> nat list \<Rightarrow> bool" where
  "keeps_order R xs \<longleftrightarrow>
     (\<forall>i < length xs. \<forall>j < length xs. (xs ! i, xs ! j) \<in> R \<longrightarrow> i < j)"

lemma greedy_prefix_Nil [simp]: "greedy_prefix n E []"
  by (simp add: greedy_prefix_def)

lemma greedy_prefix_snoc:
  "greedy_prefix n E (order @ [i]) \<longleftrightarrow>
     greedy_prefix n E order \<and> i \<in> available n E (set order) \<and>
     (\<forall>v \<in> available n E (set order). i \<le> v)"
  unfolding greedy_prefix_def by (auto simp: nth_append less_Suc_eq)

lemma greedy_prefix_facts:
  assumes "greedy_prefix n E order"
  shows "distinct order" "set order \<subseteq> {..<n}"
    "\<And>u v. (u, v) \<in> set E \<Longrightarrow> v \<in> set order \<Longrightarrow> u \<in> set order"
proof -
  from assms have "distinct order \<and> set order \<subseteq> {..<n} \<and>
    (\<forall>u v. (u, v) \<in> set E \<longrightarrow> v \<in> set order \<longrightarrow> u \<in> set order)"
  proof (induction order rule: rev_induct)
    case (snoc i order)
    then show ?case by (auto simp: greedy_prefix_snoc available_def)
  qed simp
  then show "distinct order" "set order \<subseteq> {..<n}"
    "\<And>u v. (u, v) \<in> set E \<Longrightarrow> v \<in> set order \<Longrightarrow> u \<in> set order"
    by blast+
qed

lemma greedy_prefix_keeps:
  assumes "greedy_prefix n E order"
  shows "keeps_order (set E) order"
  unfolding keeps_order_def
proof (intro allI impI)
  fix i j
  assume ij: "i < length order" "j < length order" "(order ! i, order ! j) \<in> set E"
  then have "order ! i \<in> set (take j order)"
    using assms by (auto simp: greedy_prefix_def available_def)
  then obtain k where "k < j" "k < length order" "order ! k = order ! i"
    by (auto simp: in_set_conv_nth)
  then show "i < j"
    using greedy_prefix_facts(1) [OF assms] ij(1) nth_eq_iff_index_eq by metis
qed

lemma available_step:
  assumes closed: "\<And>u v. (u, v) \<in> set E \<Longrightarrow> v \<in> D \<Longrightarrow> u \<in> D"
    and bounded: "\<forall>(f, t) \<in> set E. f < n \<and> t < n" and i: "i \<in> available n E D"
  shows "available n E (insert i D) =
    (available n E D - {i}) \<union>
    {v \<in> set (succs_of E i). pending E D v = count_list (succs_of E i) v}"
proof -
  have i': "i \<notin> D" "\<And>u. (u, i) \<in> set E \<Longrightarrow> u \<in> D"
    using i by (auto simp: available_def)
  have count: "pending E D v = count_list (succs_of E i) v \<longleftrightarrow> pending E (insert i D) v = 0" for v
    using pending_insert [OF i'(1), of E v] by simp
  show ?thesis
  proof (intro equalityI subsetI)
    fix v assume "v \<in> available n E (insert i D)"
    then show "v \<in> (available n E D - {i}) \<union>
        {v \<in> set (succs_of E i). pending E D v = count_list (succs_of E i) v}"
      by (auto simp: available_def count set_succs_of pending_eq_0_iff)
  next
    fix v assume v: "v \<in> (available n E D - {i}) \<union>
        {v \<in> set (succs_of E i). pending E D v = count_list (succs_of E i) v}"
    have "v \<notin> insert i D" if "(i, v) \<in> set E"
      using that closed [of i v] i' by auto
    then show "v \<in> available n E (insert i D)"
      using v bounded by (auto simp: available_def count set_succs_of pending_eq_0_iff)
  qed
qed

definition kahn_inv :: "nat \<Rightarrow> (nat \<times> nat) list \<Rightarrow> nat list \<Rightarrow> nat list \<Rightarrow> nat list \<Rightarrow> bool" where
  "kahn_inv n E indegree ready order \<longleftrightarrow>
     indegree = map (pending E (set order)) [0..<n] \<and> ascending ready \<and>
     set ready = available n E (set order) \<and> greedy_prefix n E order"

lemma kahn_inv_step:
  assumes inv: "kahn_inv n E indegree (i # ready) order"
    and bounded: "\<forall>(f, t) \<in> set E. f < n \<and> t < n"
  obtains indegree' ready' where
    "kahn_relax (succs_of E i) indegree ready = Inr (indegree', ready')"
    "kahn_inv n E indegree' ready' (order @ [i])"
proof -
  let ?D = "set order"
  have ind: "indegree = map (pending E ?D) [0..<n]" and asc: "ascending (i # ready)"
    and av: "insert i (set ready) = available n E ?D" and greedy: "greedy_prefix n E order"
    using inv by (auto simp: kahn_inv_def)
  have i: "i \<in> available n E ?D" "i \<notin> ?D" using av by (auto simp: available_def)
  have split: "pending E ?D v = pending E (insert i ?D) v + count_list (succs_of E i) v" for v
    using i(2) by (rule pending_insert)
  have "\<exists>ready'. kahn_relax (succs_of E i) indegree ready =
      Inr (map (\<lambda>v. indegree ! v - count_list (succs_of E i) v) [0..<length indegree], ready')
    \<and> ascending ready'
    \<and> set ready' = set ready \<union> {v \<in> set (succs_of E i). indegree ! v = count_list (succs_of E i) v}"
  proof (rule kahn_relax_ok)
    show "\<forall>s \<in> set (succs_of E i). s < length indegree"
      using bounded by (auto simp: ind set_succs_of)
    show "\<forall>v < length indegree. count_list (succs_of E i) v \<le> indegree ! v"
      by (simp add: ind split)
    show "ascending ready" using asc by simp
  qed
  then obtain ready' where r: "kahn_relax (succs_of E i) indegree ready =
      Inr (map (\<lambda>v. indegree ! v - count_list (succs_of E i) v) [0..<length indegree], ready')"
    "ascending ready'"
    "set ready' = set ready \<union> {v \<in> set (succs_of E i). indegree ! v = count_list (succs_of E i) v}"
    by blast
  have "set ready = available n E ?D - {i}" using av asc by auto
  moreover have "indegree ! v = pending E ?D v" if "v \<in> set (succs_of E i)" for v
    using that bounded by (auto simp: ind set_succs_of)
  ultimately have "set ready' = available n E (insert i ?D)"
    using r(3) available_step [OF greedy_prefix_facts(3) [OF greedy] bounded i(1)] by auto
  moreover have "greedy_prefix n E (order @ [i])"
    unfolding greedy_prefix_snoc av [symmetric] using greedy asc by auto
  moreover have "map (\<lambda>v. indegree ! v - count_list (succs_of E i) v) [0..<length indegree]
      = map (pending E (insert i ?D)) [0..<n]"
    by (auto simp: ind split)
  ultimately show thesis using r(1,2) by (intro that) (auto simp: kahn_inv_def)
qed

lemma kahn_loop_ok:
  assumes "kahn_inv n E indegree ready order" and "\<forall>(f, t) \<in> set E. f < n \<and> t < n"
  shows "\<exists>order'. kahn_loop (map (succs_of E) [0..<n]) indegree ready order = Inr order' \<and>
    greedy_prefix n E order' \<and> available n E (set order') = {}"
  using assms(1)
proof (induction "map (succs_of E) [0..<n]" indegree ready order rule: kahn_loop.induct)
  case (1 indegree order)
  then show ?case by (simp add: kahn_inv_def)
next
  case (2 indegree i ready order)
  have i: "i < n" using 2(2) by (auto simp: kahn_inv_def available_def)
  obtain indegree' ready' where step:
    "kahn_relax (succs_of E i) indegree ready = Inr (indegree', ready')"
    "kahn_inv n E indegree' ready' (order @ [i])"
    by (rule kahn_inv_step [OF 2(2) assms(2)])
  show ?case
    using 2(1) [OF _ _ refl step(2)] step(1) i by simp
qed

section \<open>What a topological order is\<close>

definition edges_bounded :: "execution_plan \<Rightarrow> bool" where
  "edges_bounded p \<longleftrightarrow>
     (\<forall>e \<in> set (edges p). edge_from e < length (nodes p) \<and> edge_to e < length (nodes p))"

definition dependencies :: "execution_plan \<Rightarrow> (nat \<times> nat) set" where
  "dependencies p = set (edge_pairs p)"

definition linear_extension :: "nat \<Rightarrow> (nat \<times> nat) set \<Rightarrow> nat list \<Rightarrow> bool" where
  "linear_extension n R xs \<longleftrightarrow> distinct xs \<and> set xs = {..<n} \<and> keeps_order R xs"

lemma edges_bounded_pairs:
  "edges_bounded p \<longleftrightarrow> (\<forall>(f, t) \<in> set (edge_pairs p). f < length (nodes p) \<and> t < length (nodes p))"
  by (auto simp: edges_bounded_def edge_pairs_def)

lemma finite_dependencies [simp]: "finite (dependencies p)"
  by (simp add: dependencies_def)

text \<open>Positions in a linear extension: a rank that grows along every dependency.\<close>

lemma linear_extension_index:
  assumes "linear_extension n R xs"
  obtains index where "\<And>i. i < length xs \<Longrightarrow> index (xs ! i) = i" "inj_on index {..<n}"
    "\<And>u v. (u, v) \<in> R \<Longrightarrow> u < n \<Longrightarrow> v < n \<Longrightarrow> index u < index v"
proof -
  define index where "index = the_inv_into {..<length xs} (nth xs)"
  have xs: "distinct xs" "set xs = {..<n}" and keeps: "keeps_order R xs"
    using assms by (auto simp: linear_extension_def)
  have inj: "inj_on (nth xs) {..<length xs}"
    using xs(1) by (intro inj_on_nth) auto
  then have index: "index (xs ! i) = i" if "i < length xs" for i
    using that by (simp add: index_def the_inv_into_f_f)
  have pos: "\<exists>i < length xs. v = xs ! i" if "v < n" for v
    using that xs(2) by (metis in_set_conv_nth lessThan_iff)
  have "inj_on index {..<n}"
    by (rule inj_onI) (metis index lessThan_iff pos)
  moreover have "index u < index v" if "(u, v) \<in> R" "u < n" "v < n" for u v
    using that keeps index pos [of u] pos [of v] by (auto simp: keeps_order_def)
  ultimately show thesis using index that by blast
qed

lemma linear_extension_acyclic:
  assumes "linear_extension n R xs" and "R \<subseteq> {..<n} \<times> {..<n}"
  shows "acyclic R"
proof -
  obtain index where "\<And>u v. (u, v) \<in> R \<Longrightarrow> u < n \<Longrightarrow> v < n \<Longrightarrow> index u < (index v :: nat)"
    using linear_extension_index [OF assms(1)] by metis
  then have "R \<subseteq> measure index" using assms(2) by auto
  then show ?thesis using acyclic_subset [OF wf_acyclic [OF wf_measure]] by blast
qed

lemma greedy_complete:
  assumes "greedy_prefix n E order" and "available n E (set order) = {}"
    and "acyclic (set E)" and bounded: "\<forall>(f, t) \<in> set E. f < n \<and> t < n"
  shows "set order = {..<n}"
proof (rule ccontr)
  assume "set order \<noteq> {..<n}"
  then have "{..<n} - set order \<noteq> {}" using greedy_prefix_facts(2) [OF assms(1)] by auto
  moreover have "wf (set E)" using assms(3) by (simp add: finite_acyclic_wf)
  ultimately obtain v where v: "v \<in> {..<n} - set order"
    and least: "\<And>u. (u, v) \<in> set E \<Longrightarrow> u \<notin> {..<n} - set order"
    by (metis ex_in_conv wfE_min)
  then have "v \<in> available n E (set order)" using bounded by (auto simp: available_def)
  then show False using assms(2) by simp
qed

text \<open>The result in every case: an out-of-range edge, a cycle, or the greedy linear extension.\<close>

lemma topological_order_cases:
  "(\<not> edges_bounded p \<longrightarrow> topological_order p = Inl IndexPanic) \<and>
   (edges_bounded p \<and> \<not> acyclic (dependencies p) \<longrightarrow> topological_order p = Inl CyclicPlan) \<and>
   (edges_bounded p \<and> acyclic (dependencies p) \<longrightarrow>
     (\<exists>order. topological_order p = Inr order \<and>
        greedy_prefix (length (nodes p)) (edge_pairs p) order \<and>
        set order = {..<length (nodes p)}))"
proof (cases "edges_bounded p")
  case False
  let ?n = "length (nodes p)"
  obtain e where e: "build_adjacency (edge_pairs p) (replicate ?n 0) (replicate ?n []) = Inl e"
    using False build_adjacency_Inr_bounded [of "edge_pairs p" "replicate ?n 0" "replicate ?n []"]
    by (cases "build_adjacency (edge_pairs p) (replicate ?n 0) (replicate ?n [])")
      (auto simp: edges_bounded_pairs)
  have "e = IndexPanic" if "build_adjacency E a b = Inl e" for E a b
    using that by (induction E a b rule: build_adjacency.induct) (auto split: if_splits)
  then show ?thesis using False e by (auto simp: topological_order_def Let_def)
next
  case True
  let ?n = "length (nodes p)" and ?E = "edge_pairs p"
  let ?ind = "map (pending ?E {}) [0..<?n]"
  have bounded: "\<forall>(f, t) \<in> set ?E. f < ?n \<and> t < ?n"
    using True by (simp add: edges_bounded_pairs)
  have build: "build_adjacency ?E (replicate ?n 0) (replicate ?n []) =
      Inr (?ind, map (succs_of ?E) [0..<?n])"
    using build_adjacency_ok [OF bounded, of "replicate ?n 0" "replicate ?n []"]
    by (simp cong: map_cong)
  have "kahn_inv ?n ?E ?ind (filter (\<lambda>i. ?ind ! i = 0) [0..<?n]) []"
    by (auto simp: kahn_inv_def available_pending intro: ascending_filter)
  from kahn_loop_ok [OF this bounded] obtain order where
    order: "kahn_loop (map (succs_of ?E) [0..<?n]) ?ind (filter (\<lambda>i. ?ind ! i = 0) [0..<?n]) []
      = Inr order" "greedy_prefix ?n ?E order" "available ?n ?E (set order) = {}"
    by blast
  have result: "topological_order p = (if length order \<noteq> ?n then Inl CyclicPlan else Inr order)"
    using build order(1) by (simp add: topological_order_def Let_def)
  have len: "length order = card (set order)"
    using greedy_prefix_facts(1) [OF order(2)] by (simp add: distinct_card)
  have all: "length order = ?n \<longleftrightarrow> set order = {..<?n}"
    unfolding len using greedy_prefix_facts(2) [OF order(2)]
    by (metis card_lessThan card_subset_eq finite_lessThan)
  have "acyclic (set ?E)" if "set order = {..<?n}"
    by (rule linear_extension_acyclic [of ?n _ order])
      (use that bounded greedy_prefix_facts(1) [OF order(2)] greedy_prefix_keeps [OF order(2)]
        in \<open>auto simp: linear_extension_def\<close>)
  then show ?thesis
    using True result all order(2) greedy_complete [OF order(2,3) _ bounded]
    by (auto simp: dependencies_def)
qed

lemma topological_order_InrD:
  assumes "topological_order p = Inr order"
  shows "edges_bounded p" "acyclic (dependencies p)"
    "greedy_prefix (length (nodes p)) (edge_pairs p) order"
    "linear_extension (length (nodes p)) (dependencies p) order"
proof -
  show 1: "edges_bounded p" and 2: "acyclic (dependencies p)"
    using assms topological_order_cases [of p] by auto
  then have 3: "greedy_prefix (length (nodes p)) (edge_pairs p) order \<and>
      set order = {..<length (nodes p)}"
    using assms topological_order_cases [of p] by auto
  then show "greedy_prefix (length (nodes p)) (edge_pairs p) order" ..
  with 3 show "linear_extension (length (nodes p)) (dependencies p) order"
    by (simp add: linear_extension_def dependencies_def greedy_prefix_facts(1)
        greedy_prefix_keeps)
qed

lemma topological_order_ok_iff:
  "(\<exists>order. topological_order p = Inr order) \<longleftrightarrow> edges_bounded p \<and> acyclic (dependencies p)"
  using topological_order_cases [of p] topological_order_InrD(1,2) by blast

section \<open>The scheduler interface\<close>

text \<open>
  What the clients of a topological order use: a total order of the nodes that keeps every
  dependency, and its existence on acyclic graphs. Clients read their own schedules off it by
  filtering.
\<close>

locale topo_scheduler =
  fixes size_of :: "'g \<Rightarrow> nat"
    and deps :: "'g \<Rightarrow> (nat \<times> nat) set"
    and order_of :: "'g \<Rightarrow> nat list option"
  assumes order_sound: "order_of g = Some xs \<Longrightarrow> linear_extension (size_of g) (deps g) xs"
    and order_bounded: "order_of g = Some xs \<Longrightarrow> deps g \<subseteq> {..<size_of g} \<times> {..<size_of g}"
    and order_complete:
      "deps g \<subseteq> {..<size_of g} \<times> {..<size_of g} \<Longrightarrow> acyclic (deps g) \<Longrightarrow> \<exists>xs. order_of g = Some xs"
begin

lemma order_iff:
  "(\<exists>xs. order_of g = Some xs) \<longleftrightarrow>
     deps g \<subseteq> {..<size_of g} \<times> {..<size_of g} \<and> acyclic (deps g)"
  using order_sound order_bounded order_complete linear_extension_acyclic by metis

lemma ranked_order:
  assumes "deps g \<subseteq> {..<size_of g} \<times> {..<size_of g}" and "deps g \<subseteq> r" and "wf r"
  obtains xs where "order_of g = Some xs"
  using order_complete [OF assms(1)] acyclic_subset [OF wf_acyclic [OF assms(3)] assms(2)] by auto

text \<open>A chain of dependencies is scheduled in chain order.\<close>

lemma chain_scheduled:
  assumes "order_of g = Some xs" and "set c \<subseteq> {..<size_of g}"
    and chain: "\<And>i. Suc i < length c \<Longrightarrow> (c ! i, c ! Suc i) \<in> deps g"
  shows "filter (\<lambda>v. v \<in> set c) xs = c"
proof -
  have lin: "linear_extension (size_of g) (deps g) xs" by (rule order_sound [OF assms(1)])
  then have xs: "set xs = {..<size_of g}" by (simp add: linear_extension_def)
  obtain index where index: "\<And>i. i < length xs \<Longrightarrow> index (xs ! i) = i"
    and inj: "inj_on index {..<size_of g}"
    and mono: "\<And>u v. (u, v) \<in> deps g \<Longrightarrow> u < size_of g \<Longrightarrow> v < size_of g \<Longrightarrow> index u < index v"
    using linear_extension_index [OF lin] by metis
  have "ascending (map index c)"
    using chain mono assms(2)
    by (auto simp: sorted_wrt_iff_nth_Suc_transp nth_mem subset_iff)
  moreover have "ascending (map index (filter (\<lambda>v. v \<in> set c) xs))"
    unfolding sorted_wrt_map
    by (rule sorted_wrt_filter) (simp add: sorted_wrt_iff_nth_less index)
  moreover have same: "set (filter (\<lambda>v. v \<in> set c) xs) = set c" using xs assms(2) by auto
  ultimately have "map index (filter (\<lambda>v. v \<in> set c) xs) = map index c"
    by (intro ascending_unique) auto
  then show ?thesis
    by (rule map_inj_on) (use inj same assms(2) in \<open>auto intro: inj_on_subset\<close>)
qed

end

definition result_ok :: "'e + 'a \<Rightarrow> 'a option" where
  "result_ok r = (case r of Inl _ \<Rightarrow> None | Inr x \<Rightarrow> Some x)"

lemma result_ok_Some [simp]: "result_ok r = Some x \<longleftrightarrow> r = Inr x"
  by (simp add: result_ok_def split: sum.splits)

lemma dependencies_bounded:
  "edges_bounded p \<longleftrightarrow> dependencies p \<subseteq> {..<length (nodes p)} \<times> {..<length (nodes p)}"
  by (auto simp: edges_bounded_pairs dependencies_def)

interpretation plan_order: topo_scheduler "\<lambda>p. length (nodes p)" dependencies
    "\<lambda>p. result_ok (topological_order p)"
proof unfold_locales
  fix p xs
  assume "result_ok (topological_order p) = Some xs"
  then have "topological_order p = Inr xs" by simp
  then show "linear_extension (length (nodes p)) (dependencies p) xs"
    and "dependencies p \<subseteq> {..<length (nodes p)} \<times> {..<length (nodes p)}"
    using topological_order_InrD(1,4) dependencies_bounded by blast+
next
  fix p
  assume "dependencies p \<subseteq> {..<length (nodes p)} \<times> {..<length (nodes p)}"
    and "acyclic (dependencies p)"
  then show "\<exists>xs. result_ok (topological_order p) = Some xs"
    using topological_order_ok_iff [of p] by (simp add: dependencies_bounded)
qed

text \<open>Ties go to the smaller identifier, so the result is the least linear extension.\<close>

lemma keeps_order_available:
  assumes "linear_extension n (set E) ys" and "i < length ys"
    and "\<forall>(f, t) \<in> set E. f < n \<and> t < n"
  shows "ys ! i \<in> available n E (set (take i ys))"
proof -
  have ys: "distinct ys" "set ys = {..<n}" "keeps_order (set E) ys"
    using assms(1) by (auto simp: linear_extension_def)
  have "u \<in> set (take i ys)" if "(u, ys ! i) \<in> set E" for u
  proof -
    from that assms(3) ys(2) obtain k where "k < length ys" "u = ys ! k"
      by (metis (no_types, lifting) case_prodD in_set_conv_nth lessThan_iff)
    moreover from this have "k < i"
      using that ys(3) assms(2) by (auto simp: keeps_order_def)
    ultimately show ?thesis by (auto simp: set_conv_nth intro!: exI [of _ k])
  qed
  moreover have "ys ! i \<notin> set (take i ys)"
    using ys(1) assms(2) by (metis distinct_take id_take_nth_drop not_distinct_conv_prefix)
  ultimately show ?thesis
    using ys(2) assms(2) by (auto simp: available_def simp flip: lessThan_iff)
qed

lemma greedy_least:
  assumes "greedy_prefix n E xs" and "linear_extension n (set E) ys" and "length xs = length ys"
    and "\<forall>(f, t) \<in> set E. f < n \<and> t < n"
  shows "xs = ys \<or> (xs, ys) \<in> lexord {(a, b). a < b}"
proof (rule disjCI)
  assume "(xs, ys) \<notin> lexord {(a, b). a < b}"
  have "take i xs = take i ys" if "i \<le> length xs" for i
    using that
  proof (induction i)
    case (Suc i)
    then have i: "i < length xs" "i < length ys" and eq: "take i xs = take i ys"
      using assms(3) by auto
    have "ys ! i \<in> available n E (set (take i xs))"
      unfolding eq using assms(2) i(2) assms(4) by (rule keeps_order_available)
    then have "xs ! i \<le> ys ! i" using assms(1) i(1) by (auto simp: greedy_prefix_def)
    moreover have "\<not> xs ! i < ys ! i"
    proof
      assume "xs ! i < ys ! i"
      then have "(xs, ys) \<in> lexord {(a, b). a < b}"
        using i eq by (auto simp: lexord_take_index_conv)
      then show False using \<open>(xs, ys) \<notin> lexord {(a, b). a < b}\<close> by simp
    qed
    ultimately show ?case using i eq by (simp add: take_Suc_conv_app_nth)
  qed simp
  from this [of "length xs"] show "xs = ys" using assms(3) by simp
qed

section \<open>Root positions and validation\<close>

lemma check_roots_ok:
  "check_roots n seen rs = Inr () \<longleftrightarrow> distinct rs \<and> set rs \<subseteq> {..<n} \<and> set rs \<inter> set seen = {}"
  by (induction rs arbitrary: seen) auto

lemma root_positions_nth:
  assumes "distinct (roots p)"
  shows "root_positions p r = Some k \<longleftrightarrow> k < length (roots p) \<and> roots p ! k = r"
proof -
  have "distinct (map fst (rev (zip (roots p) [0..<length (roots p)])))"
    using assms by (simp add: rev_map [symmetric])
  then show ?thesis
    by (auto simp: root_positions_def map_of_eq_Some_iff in_set_zip)
qed

lemma set_map_filter_iff: "set (List.map_filter f xs) = {y. \<exists>x \<in> set xs. f x = Some y}"
  by (induction xs) (auto simp: List.map_filter_def split: option.splits)

text \<open>The root schedule is the topological order restricted to the roots, as positions.\<close>

lemma map_filter_roots:
  assumes "distinct (roots p)"
  shows "map (nth (roots p)) (List.map_filter (root_positions p) order) =
      filter (\<lambda>v. v \<in> set (roots p)) order"
    "set (List.map_filter (root_positions p) order) = {k. k < length (roots p) \<and> roots p ! k \<in> set order}"
proof -
  note nth = root_positions_nth [OF assms]
  show "map (nth (roots p)) (List.map_filter (root_positions p) order) =
      filter (\<lambda>v. v \<in> set (roots p)) order"
  proof (induction order)
    case (Cons v order)
    show ?case
    proof (cases "root_positions p v")
      case None
      then have "v \<notin> set (roots p)" using nth [of v] by (auto simp: in_set_conv_nth)
      with None Cons show ?thesis by (simp add: List.map_filter_def)
    next
      case (Some k)
      then have "k < length (roots p)" "roots p ! k = v" using nth by simp_all
      with Some Cons show ?thesis by (auto simp: List.map_filter_def)
    qed
  qed (simp add: List.map_filter_def)
  show "set (List.map_filter (root_positions p) order) =
      {k. k < length (roots p) \<and> roots p ! k \<in> set order}"
    unfolding set_map_filter_iff nth by auto
qed

definition root_dependencies :: "execution_plan \<Rightarrow> (nat \<times> nat) set" where
  "root_dependencies p =
     {(i, j). i < length (roots p) \<and> j < length (roots p) \<and>
        (roots p ! i, roots p ! j) \<in> (dependencies p)\<^sup>+}"

lemma keeps_order_roots:
  assumes lin: "linear_extension n (dependencies p) order"
    and bounded: "dependencies p \<subseteq> {..<n} \<times> {..<n}"
    and distinct: "distinct (roots p)" and "set (roots p) \<subseteq> {..<n}"
  shows "keeps_order (root_dependencies p) (List.map_filter (root_positions p) order)"
proof -
  let ?s = "List.map_filter (root_positions p) order"
  obtain index where index: "\<And>i. i < length order \<Longrightarrow> index (order ! i) = i"
    and step: "\<And>u v. (u, v) \<in> dependencies p \<Longrightarrow> u < n \<Longrightarrow> v < n \<Longrightarrow> index u < (index v :: nat)"
    using linear_extension_index [OF lin] by metis
  have "dependencies p \<subseteq> measure index" using step bounded by auto
  then have rank: "index u < index v" if "(u, v) \<in> dependencies p" for u v
    using that by auto
  have path: "index u < index v" if "(u, v) \<in> (dependencies p)\<^sup>+" for u v
    using that by (induction rule: trancl_induct) (auto dest: rank intro: less_trans)
  have "sorted_wrt (\<lambda>u v. index u < index v) order"
    by (simp add: sorted_wrt_iff_nth_less index)
  then have "sorted_wrt (\<lambda>u v. index u < index v) (map (nth (roots p)) ?s)"
    unfolding map_filter_roots(1) [OF distinct] by (rule sorted_wrt_filter)
  then have mono: "index (roots p ! (?s ! a)) < index (roots p ! (?s ! b))"
    if "a < b" "b < length ?s" for a b
    using that by (simp add: sorted_wrt_iff_nth_less)
  show ?thesis unfolding keeps_order_def
  proof (intro allI impI)
    fix a b assume ab: "a < length ?s" "b < length ?s" "(?s ! a, ?s ! b) \<in> root_dependencies p"
    then have "index (roots p ! (?s ! a)) < index (roots p ! (?s ! b))"
      by (intro path) (simp add: root_dependencies_def)
    with mono [of b a] ab show "a < b" by (cases a b rule: linorder_cases) auto
  qed
qed

lemma distinct_map_filter_roots:
  assumes "distinct (roots p)" "distinct order"
  shows "distinct (List.map_filter (root_positions p) order)"
  using map_filter_roots(1) [OF assms(1), of order] assms(2)
  by (metis distinct_filter distinct_map)

lemma set_enumerate_0: "set (enumerate 0 xs) = (\<lambda>i. (i, xs ! i)) ` {..<length xs}"
  by (auto simp: in_set_enumerate_eq image_iff)

lemma validate_ok_iff:
  "validate p k = Inr () \<longleftrightarrow>
     length (roots p) = k \<and> (\<forall>i < length (nodes p). node_id (nodes p ! i) = i) \<and>
     distinct (roots p) \<and> set (roots p) \<subseteq> {..<length (nodes p)} \<and> edges_bounded p \<and>
     acyclic (dependencies p)"
proof -
  have ids: "for_each (\<lambda>(index, node). ensure (node_id node = index)
      (NodeIdentityMismatch index (node_id node))) (enumerate 0 (nodes p)) = Inr () \<longleftrightarrow>
      (\<forall>i < length (nodes p). node_id (nodes p ! i) = i)"
    by (auto simp: result_simps set_enumerate_0)
  have bounds: "for_each (\<lambda>e. ensure (edge_from e < length (nodes p) \<and> edge_to e < length (nodes p))
      (EdgeOutOfBounds (edge_from e) (edge_to e))) (edges p) = Inr () \<longleftrightarrow> edges_bounded p"
    by (auto simp: result_simps edges_bounded_def)
  have "\<exists>s. root_schedule p = Inr s"
    if "distinct (roots p)" "set (roots p) \<subseteq> {..<length (nodes p)}" "topological_order p = Inr order"
    for order
  proof -
    have order: "set order = {..<length (nodes p)}" "distinct order"
      using topological_order_InrD(4) [OF that(3)] by (auto simp: linear_extension_def)
    let ?s = "List.map_filter (root_positions p) order"
    have "set ?s = {..<length (roots p)}"
      using map_filter_roots(2) [OF that(1), of order] order that(2) nth_mem by fastforce
    then have "length ?s = length (roots p)"
      using distinct_map_filter_roots [OF that(1) order(2)] by (metis card_lessThan distinct_card)
    then show ?thesis by (simp add: root_schedule_def that(3))
  qed
  then show ?thesis
    using topological_order_ok_iff [of p]
    by (auto simp: validate_def and_then_eq_Inr ensure_eq_Inr ids bounds check_roots_ok)
qed

section \<open>Properties\<close>

text \<open>
  C17. The topological order of a plan is a list exactly when every edge is in range and the
  dependency relation is acyclic; a cycle is reported as such, and only an edge outside the node
  vector reaches the indexing panic. The loop always ends.
\<close>

theorem topological_order_outcome:
  "((\<exists>order. topological_order p = Inr order) \<longleftrightarrow> edges_bounded p \<and> acyclic (dependencies p)) \<and>
   (topological_order p = Inl CyclicPlan \<longleftrightarrow> edges_bounded p \<and> \<not> acyclic (dependencies p)) \<and>
   (topological_order p = Inl IndexPanic \<longleftrightarrow> \<not> edges_bounded p)"
proof -
  have "topological_order p = Inl IndexPanic" if "\<not> edges_bounded p"
    using that topological_order_cases [of p] by blast
  moreover have "topological_order p = Inl CyclicPlan"
    if "edges_bounded p" "\<not> acyclic (dependencies p)"
    using that topological_order_cases [of p] by blast
  moreover have "\<exists>order. topological_order p = Inr order"
    if "edges_bounded p" "acyclic (dependencies p)"
    using that topological_order_cases [of p] by blast
  ultimately show ?thesis by (metis Inl_Inr_False plan_error.distinct sum.inject(1))
qed

text \<open>
  C16. A topological order contains every node once, keeps every dependency, and is the
  lexicographically least order that does: ties go to the lower identifier, so the schedule is
  determined by the graph.
\<close>

theorem topological_order_least:
  assumes "topological_order p = Inr order"
  shows "linear_extension (length (nodes p)) (dependencies p) order \<and>
    (\<forall>ys. linear_extension (length (nodes p)) (dependencies p) ys \<longrightarrow>
       order = ys \<or> (order, ys) \<in> lexord {(a, b). a < b})"
proof (intro conjI allI impI)
  show lin: "linear_extension (length (nodes p)) (dependencies p) order"
    by (rule topological_order_InrD(4) [OF assms])
  fix ys assume ys: "linear_extension (length (nodes p)) (dependencies p) ys"
  then have "length order = length ys"
    using lin by (metis distinct_card linear_extension_def)
  then show "order = ys \<or> (order, ys) \<in> lexord {(a, b). a < b}"
    using greedy_least [OF topological_order_InrD(3) [OF assms]] ys topological_order_InrD(1) [OF assms]
    by (auto simp: dependencies_def edges_bounded_pairs)
qed

definition sample_plan :: execution_plan where
  "sample_plan =
     \<lparr>roots = [0, 2],
      nodes = [\<lparr>node_id = 0, node_kind = TextK\<rparr>, \<lparr>node_id = 1, node_kind = TextK\<rparr>,
               \<lparr>node_id = 2, node_kind = TextK\<rparr>],
      edges = [\<lparr>edge_from = 2, edge_to = 0, edge_kind = Data\<rparr>]\<rparr>"

lemma sample_plan_order: "topological_order sample_plan = Inr [1, 2, 0]"
  by code_simp

theorem topological_order_least_witness:
  "topological_order sample_plan = Inr [1, 2, 0] \<and>
   linear_extension (length (nodes sample_plan)) (dependencies sample_plan) [1, 2, 0]"
  using topological_order_least [OF sample_plan_order] sample_plan_order by blast

text \<open>
  C19. The validator accepts a plan exactly when it has the expected number of roots, its node
  identities are positions, its roots are distinct and in range, its edges are in range and its
  dependencies are acyclic.
\<close>

theorem validate_exact:
  "validate p k = Inr () \<longleftrightarrow>
     length (roots p) = k \<and> map node_id (nodes p) = [0..<length (nodes p)] \<and>
     distinct (roots p) \<and> set (roots p) \<subseteq> {..<length (nodes p)} \<and> edges_bounded p \<and>
     acyclic (dependencies p)"
proof -
  have "map node_id (nodes p) = [0..<length (nodes p)] \<longleftrightarrow>
      (\<forall>i < length (nodes p). node_id (nodes p ! i) = i)"
    unfolding list_eq_iff_nth_eq [of "map node_id (nodes p)"] by simp
  then show ?thesis unfolding validate_ok_iff by blast
qed

text \<open>
  C18. A validated plan can be executed: its root schedule exists, runs every root once, and runs a
  root after all the roots it depends on, directly or through nested instructions.
\<close>

theorem validated_root_schedule:
  assumes "validate p k = Inr ()"
  shows "\<exists>s. root_schedule p = Inr s \<and> linear_extension k (root_dependencies p) s"
proof -
  have ok: "length (roots p) = k" "distinct (roots p)" "set (roots p) \<subseteq> {..<length (nodes p)}"
    "edges_bounded p" "acyclic (dependencies p)"
    using assms by (simp_all add: validate_ok_iff)
  then obtain order where order: "topological_order p = Inr order"
    using topological_order_ok_iff by blast
  note lin = topological_order_InrD(4) [OF order]
  then have set: "set order = {..<length (nodes p)}" "distinct order"
    by (auto simp: linear_extension_def)
  let ?s = "List.map_filter (root_positions p) order"
  have s: "set ?s = {..<k}" "distinct ?s"
    using map_filter_roots(2) [OF ok(2), of order] set ok(1,3) nth_mem
      distinct_map_filter_roots [OF ok(2) set(2)] by fastforce+
  then have "length ?s = k" by (metis card_lessThan distinct_card)
  moreover have "keeps_order (root_dependencies p) ?s"
    using lin ok(2-4) by (intro keeps_order_roots) (auto simp: dependencies_bounded)
  ultimately show ?thesis
    using s ok(1) by (simp add: root_schedule_def order linear_extension_def)
qed

lemma sample_plan_valid: "validate sample_plan 2 = Inr ()"
  by code_simp

theorem validated_root_schedule_witness:
  "\<exists>s. root_schedule sample_plan = Inr s \<and> linear_extension 2 (root_dependencies sample_plan) s"
  by (rule validated_root_schedule [OF sample_plan_valid])

end
