(* ===== verification/Plan_Order.thy ===== *)
theory Plan_Order
  imports Topo
begin

text \<open>
  Correctness of the plan builder: the plan of every program passes \<open>validate\<close>, its nodes are
  the executable instructions in preorder, and the root and child schedules are source order.

  The argument is a rank. The subtree of the node at preorder position \<open>i\<close> occupies the
  positions from \<open>i\<close> to \<open>subtree_end i\<close>; a structural edge stays inside the subtree of its
  target, and every other edge leaves a subtree that has ended before its target. Hence
  every edge goes up in post-order.
\<close>

section \<open>Preorder layout\<close>

fun plan_children :: "oir \<Rightarrow> oir list" where
  "plan_children (Text _) = []"
| "plan_children (Load _) = []"
| "plan_children (Store _ e) = [e]"
| "plan_children (Invoke _ _ args) = args"
| "plan_children (Exec l e a b body) = (if is_quote_exec (Exec l e a b body) then [] else body)"

abbreviation plan_size :: "oir \<Rightarrow> nat" where
  "plan_size x \<equiv> length (flatten_node_for_plan x)"

fun positions :: "nat \<Rightarrow> oir list \<Rightarrow> nat list" where
  "positions n [] = []"
| "positions n (c # cs) = n # positions (n + plan_size c) cs"

definition child_positions :: "oir list \<Rightarrow> nat \<Rightarrow> nat list" where
  "child_positions flat i = positions (Suc i) (plan_children (flat ! i))"

definition subtree_end :: "oir list \<Rightarrow> nat \<Rightarrow> nat" where
  "subtree_end flat i = i + plan_size (flat ! i)"

definition placed :: "oir list \<Rightarrow> nat \<Rightarrow> oir list \<Rightarrow> bool" where
  "placed flat n xs \<longleftrightarrow> (\<exists>pre post. flat = pre @ xs @ post \<and> length pre = n)"

lemma oir_plan_induct:
  assumes "\<And>x. (\<And>c. c \<in> set (plan_children x) \<Longrightarrow> P c) \<Longrightarrow> P x"
  shows "P x"
  by (induction x) (rule assms; auto split: if_splits)+

lemma flatten_node_children:
  "flatten_node_for_plan x = x # flatten_nodes_for_plan (plan_children x)"
  by (cases x) (auto simp: flatten_nodes_for_plan_def)

lemma placed_append:
  "placed flat n (xs @ ys) \<longleftrightarrow> placed flat n xs \<and> placed flat (n + length xs) ys"
  unfolding placed_def
proof safe
  fix pre post pre' post'
  assume eq: "pre @ xs @ post = pre' @ ys @ post'" and len: "length pre' = length pre + length xs"
  then have "pre' = pre @ xs" "post = ys @ post'"
    using append_eq_append_conv [of "pre @ xs" pre' post "ys @ post'"] by simp_all
  then show "\<exists>prea posta. pre @ xs @ post = prea @ (xs @ ys) @ posta \<and> length prea = length pre"
    by (intro exI [of _ pre] exI [of _ post']) simp
qed (metis append.assoc length_append)+

lemma placed_node:
  "placed flat n (flatten_node_for_plan x) \<Longrightarrow>
     n < length flat \<and> flat ! n = x \<and> n + plan_size x \<le> length flat \<and>
     subtree_end flat n = n + plan_size x"
  by (auto simp: placed_def flatten_node_children subtree_end_def nth_append)

lemma placed_children:
  "placed flat n (flatten_node_for_plan x) \<Longrightarrow>
     placed flat (Suc n) (flatten_nodes_for_plan (plan_children x))"
  using placed_append [of flat n "[x]" "flatten_nodes_for_plan (plan_children x)"]
  by (simp add: flatten_node_children)

definition layout_ok :: "oir list \<Rightarrow> nat \<Rightarrow> bool" where
  "layout_ok flat j \<longleftrightarrow> placed flat j (flatten_node_for_plan (flat ! j))"

lemma layout_forest:
  assumes "\<And>c n j. c \<in> set cs \<Longrightarrow> placed flat n (flatten_node_for_plan c) \<Longrightarrow> n \<le> j \<Longrightarrow>
      j < n + plan_size c \<Longrightarrow> layout_ok flat j"
    and "placed flat n (flatten_nodes_for_plan cs)" and "n \<le> j"
    and "j < n + length (flatten_nodes_for_plan cs)"
  shows "layout_ok flat j"
  using assms
proof (induction cs arbitrary: n)
  case (Cons c cs)
  show ?case
  proof (cases "j < n + plan_size c")
    case True
    then show ?thesis using Cons.prems by (auto simp: placed_append)
  next
    case False
    show ?thesis
      by (rule Cons.IH [of "n + plan_size c"]) (use Cons.prems False in \<open>auto simp: placed_append\<close>)
  qed
qed simp

lemma layout_node:
  "placed flat n (flatten_node_for_plan x) \<Longrightarrow> n \<le> j \<Longrightarrow> j < n + plan_size x \<Longrightarrow> layout_ok flat j"
proof (induction x arbitrary: n j rule: oir_plan_induct)
  case (1 x)
  show ?case
  proof (cases "j = n")
    case True
    then show ?thesis using placed_node [OF 1(2)] 1(2) by (simp add: layout_ok_def)
  next
    case False
    show ?thesis
    proof (rule layout_forest [OF _ placed_children [OF 1(2)]])
      show "layout_ok flat k" if "c \<in> set (plan_children x)"
        "placed flat m (flatten_node_for_plan c)" "m \<le> k" "k < m + plan_size c" for c m k
        using that by (rule 1(1))
    qed (use False 1(3,4) in \<open>simp_all add: flatten_node_children\<close>)
  qed
qed

lemma layout_flatten:
  "j < length (flatten_for_plan p) \<Longrightarrow> layout_ok (flatten_for_plan p) j"
proof (rule layout_forest)
  show "placed (flatten_for_plan p) 0 (flatten_nodes_for_plan (prog_nodes p))"
    by (simp add: flatten_for_plan_def placed_def)
qed (auto simp: flatten_for_plan_def intro: layout_node)

lemma positions_placed:
  assumes "placed flat n (flatten_nodes_for_plan cs)" and "i \<in> set (positions n cs)"
  shows "n \<le> i \<and> i < length flat \<and> subtree_end flat i \<le> n + length (flatten_nodes_for_plan cs)"
  using assms
proof (induction cs arbitrary: n)
  case (Cons c cs)
  then have c: "placed flat n (flatten_node_for_plan c)"
    and cs: "placed flat (n + plan_size c) (flatten_nodes_for_plan cs)"
    by (simp_all add: placed_append)
  show ?case using Cons.IH [OF cs] placed_node [OF c] Cons.prems(2) by auto
qed simp

lemma child_positions_inside:
  assumes "layout_ok flat i" and "c \<in> set (child_positions flat i)"
  shows "i < c \<and> c < length flat \<and> subtree_end flat c \<le> subtree_end flat i"
  using positions_placed [OF placed_children [OF assms(1) [unfolded layout_ok_def]], of c] assms(2)
  by (simp add: child_positions_def subtree_end_def flatten_node_children)

section \<open>The builder invariant\<close>

fun edge_ok :: "oir list \<Rightarrow> plan_edge_kind \<Rightarrow> nat \<Rightarrow> nat \<Rightarrow> bool" where
  "edge_ok flat Structural f t \<longleftrightarrow> f \<in> set (child_positions flat t)"
| "edge_ok flat Sequence f t \<longleftrightarrow> subtree_end flat f \<le> t"
| "edge_ok flat Data f t \<longleftrightarrow> subtree_end flat f \<le> t"

definition edges_ok :: "oir list \<Rightarrow> plan_edge list \<Rightarrow> bool" where
  "edges_ok flat es \<longleftrightarrow>
     (\<forall>e \<in> set es. edge_from e < length flat \<and> edge_to e < length flat \<and>
        edge_ok flat (edge_kind e) (edge_from e) (edge_to e))"

definition builder_ok :: "oir list \<Rightarrow> plan_builder \<Rightarrow> bool" where
  "builder_ok flat b \<longleftrightarrow>
     map node_id (b_nodes b) = [0..<length (b_nodes b)] \<and>
     length (b_nodes b) \<le> length flat \<and>
     map node_kind (b_nodes b) = map plan_kind (take (length (b_nodes b)) flat) \<and>
     edges_ok flat (b_edges b)"

definition scopes_ok :: "oir list \<Rightarrow> nat \<Rightarrow> scope list \<Rightarrow> bool" where
  "scopes_ok flat n stack \<longleftrightarrow>
     (\<forall>s \<in> set stack. \<forall>i \<in> snd ` set s. i < length flat \<and> subtree_end flat i \<le> n)"

definition has_edge :: "plan_builder \<Rightarrow> nat \<Rightarrow> nat \<Rightarrow> plan_edge_kind \<Rightarrow> bool" where
  "has_edge b f t k \<longleftrightarrow> \<lparr>edge_from = f, edge_to = t, edge_kind = k\<rparr> \<in> set (b_edges b)"

definition chained :: "plan_builder \<Rightarrow> nat option \<Rightarrow> nat list \<Rightarrow> bool" where
  "chained b prev is \<longleftrightarrow>
     (\<forall>k. Suc k < length is \<longrightarrow> has_edge b (is ! k) (is ! Suc k) Sequence) \<and>
     (\<forall>q. prev = Some q \<longrightarrow> is \<noteq> [] \<longrightarrow> has_edge b q (hd is) Sequence)"

definition linked :: "oir list \<Rightarrow> plan_builder \<Rightarrow> nat \<Rightarrow> bool" where
  "linked flat b j \<longleftrightarrow>
     (\<forall>c \<in> set (child_positions flat j). has_edge b c j Structural) \<and>
     chained b None (child_positions flat j)"

text \<open>What every step of the builder keeps: nodes are only appended, edges only added.\<close>

definition extends :: "plan_builder \<Rightarrow> plan_builder \<Rightarrow> bool" where
  "extends b b' \<longleftrightarrow> set (b_edges b) \<subseteq> set (b_edges b')"

lemma extends_refl [simp]: "extends b b"
  by (simp add: extends_def)

lemma extends_trans [trans]: "extends a b \<Longrightarrow> extends b c \<Longrightarrow> extends a c"
  by (auto simp: extends_def)

lemma extends_has_edge: "extends b b' \<Longrightarrow> has_edge b f t k \<Longrightarrow> has_edge b' f t k"
  by (auto simp: extends_def has_edge_def)

lemma extends_linked: "extends b b' \<Longrightarrow> linked flat b j \<Longrightarrow> linked flat b' j"
  by (auto simp: linked_def chained_def intro: extends_has_edge)

lemma add_edge_nodes [simp]: "b_nodes (add_edge f t k b) = b_nodes b"
  by (simp add: add_edge_def Let_def)

lemma add_edge_has [simp]: "has_edge (add_edge f t k b) f t k"
  by (simp add: add_edge_def has_edge_def Let_def)

lemma add_edge_extends [simp]: "extends b (add_edge f t k b)"
  by (auto simp: add_edge_def extends_def Let_def)

lemma add_edge_keeps [simp]:
  "has_edge b f t k \<Longrightarrow> has_edge (add_edge f' t' k' b) f t k"
  "extends b0 b \<Longrightarrow> extends b0 (add_edge f' t' k' b)"
  by (auto intro: extends_has_edge [OF add_edge_extends] extends_trans)

lemma add_edge_ok:
  "builder_ok flat b \<Longrightarrow> f < length flat \<Longrightarrow> t < length flat \<Longrightarrow> edge_ok flat k f t \<Longrightarrow>
     builder_ok flat (add_edge f t k b)"
  by (auto simp: builder_ok_def edges_ok_def add_edge_def Let_def)

definition quiet :: "oir list \<Rightarrow> plan_builder \<Rightarrow> plan_builder \<Rightarrow> bool" where
  "quiet flat b b' \<longleftrightarrow> builder_ok flat b' \<and> b_nodes b' = b_nodes b \<and> extends b b'"

lemma quiet_data:
  assumes "builder_ok flat b" and "i < length flat"
    and "\<And>s. s \<in> set sources \<Longrightarrow> s < length flat \<and> subtree_end flat s \<le> i"
  shows "quiet flat b (add_data_edges sources i b)"
  using assms unfolding add_data_edges_def
proof (induction sources arbitrary: b)
  case Nil
  then show ?case by (simp add: quiet_def)
next
  case (Cons s sources)
  have "quiet flat (add_edge s i Data b) (fold (\<lambda>s. add_edge s i Data) sources (add_edge s i Data b))"
    by (rule Cons.IH) (use Cons.prems in \<open>auto intro: add_edge_ok\<close>)
  then show ?case by (auto simp: quiet_def intro: extends_trans [OF add_edge_extends])
qed

lemma scope_lookup_ok:
  "scopes_ok flat n stack \<Longrightarrow> scope_lookup stack name = Some s \<Longrightarrow>
     s < length flat \<and> subtree_end flat s \<le> n"
proof (induction stack)
  case (Cons s stack)
  then show ?case
    by (auto simp: scopes_ok_def split: option.splits dest!: map_of_SomeD)
qed simp

lemma collect_visible_subset:
  "i \<in> set (collect_visible seen stack) \<Longrightarrow> \<exists>s \<in> set stack. i \<in> snd ` set s"
  by (induction stack arbitrary: seen) fastforce+

lemma visible_ok:
  "scopes_ok flat n stack \<Longrightarrow> s \<in> set (visible_scope_sources stack) \<Longrightarrow>
     s < length flat \<and> subtree_end flat s \<le> n"
  by (auto simp: visible_scope_sources_def scopes_ok_def dest!: collect_visible_subset)

lemma quiet_lookup:
  "builder_ok flat b \<Longrightarrow> i < length flat \<Longrightarrow> scopes_ok flat i stack \<Longrightarrow>
     quiet flat b (data_edge_from_scope stack name i b)"
  by (auto simp: data_edge_from_scope_def quiet_def split: option.splits
      intro!: add_edge_ok dest: scope_lookup_ok)

lemma quiet_visible:
  "builder_ok flat b \<Longrightarrow> i < length flat \<Longrightarrow> scopes_ok flat i stack \<Longrightarrow>
     quiet flat b (add_data_edges (visible_scope_sources stack) i b)"
  by (rule quiet_data) (auto dest: visible_ok)

lemma quiet_trans: "quiet flat a b \<Longrightarrow> quiet flat b c \<Longrightarrow> quiet flat a c"
  by (auto simp: quiet_def intro: extends_trans)

lemma quiet_read_edges:
  assumes "builder_ok flat b" "i < length flat" "scopes_ok flat i stack"
  shows "quiet flat b (read_edges node stack i b)"
proof (cases node)
  case (Exec lang env attr backend body)
  define b1 where "b1 = (if execution backend = Shim
    then add_data_edges (visible_scope_sources stack) i b else b)"
  have 1: "quiet flat b b1" using assms by (simp add: b1_def quiet_visible) (simp add: quiet_def)
  then have "quiet flat b1 (data_edge_from_scope stack name i b1)" for name
    using assms by (intro quiet_lookup) (auto simp: quiet_def)
  with 1 show ?thesis
    by (auto simp: Exec Let_def b1_def [symmetric] split: option.splits intro: quiet_trans)
qed (use assms in \<open>auto simp: quiet_lookup quiet_visible, auto simp: quiet_def\<close>)

section \<open>The builder keeps its invariant\<close>

definition node_ctx :: "oir list \<Rightarrow> nat \<Rightarrow> nat option \<Rightarrow> nat option \<Rightarrow> bool" where
  "node_ctx flat n parent prev \<longleftrightarrow>
     (\<forall>p. parent = Some p \<longrightarrow> p < length flat \<and> n \<in> set (child_positions flat p)) \<and>
     (\<forall>q. prev = Some q \<longrightarrow> q < length flat \<and> subtree_end flat q \<le> n)"

definition adds :: "oir list \<Rightarrow> nat \<Rightarrow> scope list \<Rightarrow> plan_builder \<Rightarrow> scope list \<Rightarrow> plan_builder \<Rightarrow> bool" where
  "adds flat m stack b stack' b' \<longleftrightarrow>
     builder_ok flat b' \<and> length (b_nodes b') = length (b_nodes b) + m \<and>
     length stack' = length stack \<and> scopes_ok flat (length (b_nodes b')) stack' \<and> extends b b' \<and>
     (\<forall>j. length (b_nodes b) \<le> j \<and> j < length (b_nodes b') \<longrightarrow> linked flat b' j)"

lemma adds_refl: "builder_ok flat b \<Longrightarrow> scopes_ok flat (length (b_nodes b)) stack \<Longrightarrow> adds flat 0 stack b stack b"
  by (auto simp: adds_def)

lemma adds_trans:
  assumes "adds flat m stack b stack' b'" and "adds flat m' stack' b' stack'' b''"
  shows "adds flat (m + m') stack b stack'' b''"
proof -
  have "extends b' b''" using assms(2) by (simp add: adds_def)
  then have "linked flat b'' j" if "length (b_nodes b) \<le> j" "j < length (b_nodes b'')" for j
    using that assms by (cases "j < length (b_nodes b')") (auto simp: adds_def intro: extends_linked)
  then show ?thesis using assms by (auto simp: adds_def intro: extends_trans)
qed

lemma chained_Cons:
  "chained b prev (i # is) \<longleftrightarrow>
     (\<forall>q. prev = Some q \<longrightarrow> has_edge b q i Sequence) \<and> chained b (Some i) is"
  by (cases "is") (auto simp: chained_def nth_Cons split: nat.splits)

lemma scopes_ok_mono: "scopes_ok flat n stack \<Longrightarrow> n \<le> m \<Longrightarrow> scopes_ok flat m stack"
  by (fastforce simp: scopes_ok_def)

lemma scopes_ok_push [simp]: "scopes_ok flat n ([] # stack) \<longleftrightarrow> scopes_ok flat n stack"
  by (simp add: scopes_ok_def)

lemma scopes_ok_pop: "scopes_ok flat n stack \<Longrightarrow> scopes_ok flat n (tl stack)"
  by (cases stack) (simp_all add: scopes_ok_def)

lemma snd_set_update: "p \<in> set (AList.update k v s) \<Longrightarrow> snd p = v \<or> p \<in> set s"
  by (induction s) (auto split: if_splits)

lemma scopes_ok_bind:
  "scopes_ok flat n stack \<Longrightarrow> i < length flat \<Longrightarrow> subtree_end flat i \<le> n \<Longrightarrow>
     scopes_ok flat n (scope_bind name i stack)"
  by (cases stack) (auto simp: scopes_ok_def dest!: snd_set_update)

lemma length_scope_bind [simp]: "length (scope_bind name i stack) = length stack"
  by (cases stack) simp_all

fun bind_result :: "oir \<Rightarrow> nat \<Rightarrow> scope list \<Rightarrow> scope list" where
  "bind_result (Store name _) i stack = scope_bind name i stack"
| "bind_result _ i stack = stack"

definition open_node :: "oir \<Rightarrow> scope list \<Rightarrow> nat option \<Rightarrow> nat option \<Rightarrow> plan_builder \<Rightarrow> plan_builder" where
  "open_node x stack parent prev b =
     read_edges x stack (length (b_nodes b))
       (link_node parent prev (length (b_nodes b)) (push_node (plan_kind x) b))"

text \<open>Every instruction is visited the same way: open it, visit its children, bind its name.\<close>

lemma add_node_children:
  "add_node x stack parent prev b =
     (let i = length (b_nodes b);
          (stack', b') = add_children (plan_children x) ([] # stack) i None
                           (open_node x stack parent prev b)
      in (i, bind_result x i (tl stack'), b'))"
  unfolding add_node.simps [of x] Let_def open_node_def [symmetric]
  by (cases x) (auto split: prod.splits)

lemma open_node_ok:
  assumes ok: "builder_ok flat b" and sc: "scopes_ok flat (length (b_nodes b)) stack"
    and ctx: "node_ctx flat (length (b_nodes b)) parent prev"
    and pl: "placed flat (length (b_nodes b)) (flatten_node_for_plan x)"
  shows "builder_ok flat (open_node x stack parent prev b)"
    "length (b_nodes (open_node x stack parent prev b)) = Suc (length (b_nodes b))"
    "extends b (open_node x stack parent prev b)"
    "\<And>p. parent = Some p \<Longrightarrow> has_edge (open_node x stack parent prev b) (length (b_nodes b)) p Structural"
    "\<And>q. prev = Some q \<Longrightarrow> has_edge (open_node x stack parent prev b) q (length (b_nodes b)) Sequence"
proof -
  let ?n = "length (b_nodes b)"
  define b1 where "b1 = link_node parent prev ?n (push_node (plan_kind x) b)"
  have n: "?n < length flat" "flat ! ?n = x" using placed_node [OF pl] by simp_all
  have push: "builder_ok flat (push_node (plan_kind x) b)"
    using ok n by (auto simp: builder_ok_def push_node_def take_Suc_conv_app_nth)
  have ext: "extends b (push_node (plan_kind x) b)"
    "length (b_nodes (push_node (plan_kind x) b)) = Suc ?n"
    by (simp_all add: push_node_def extends_def)
  have b1: "builder_ok flat b1" "extends b b1" "length (b_nodes b1) = Suc ?n"
    "\<And>p. parent = Some p \<Longrightarrow> has_edge b1 ?n p Structural"
    "\<And>q. prev = Some q \<Longrightarrow> has_edge b1 q ?n Sequence"
    using push ext n ctx
    by (auto simp: b1_def link_node_def node_ctx_def Let_def split: option.splits intro!: add_edge_ok)
  have "quiet flat b1 (open_node x stack parent prev b)"
    unfolding open_node_def b1_def [symmetric] using b1(1) n(1) sc by (rule quiet_read_edges)
  then show "builder_ok flat (open_node x stack parent prev b)"
    "length (b_nodes (open_node x stack parent prev b)) = Suc ?n"
    "extends b (open_node x stack parent prev b)"
    "\<And>p. parent = Some p \<Longrightarrow> has_edge (open_node x stack parent prev b) ?n p Structural"
    "\<And>q. prev = Some q \<Longrightarrow> has_edge (open_node x stack parent prev b) q ?n Sequence"
    using b1 by (auto simp: quiet_def intro: extends_trans extends_has_edge)
qed

definition node_spec :: "oir list \<Rightarrow> oir \<Rightarrow> bool" where
  "node_spec flat x \<longleftrightarrow>
     (\<forall>stack parent prev b i stack' b'.
        builder_ok flat b \<longrightarrow> scopes_ok flat (length (b_nodes b)) stack \<longrightarrow>
        node_ctx flat (length (b_nodes b)) parent prev \<longrightarrow>
        placed flat (length (b_nodes b)) (flatten_node_for_plan x) \<longrightarrow>
        add_node x stack parent prev b = (i, stack', b') \<longrightarrow>
        i = length (b_nodes b) \<and> adds flat (plan_size x) stack b stack' b' \<and>
        (\<forall>p. parent = Some p \<longrightarrow> has_edge b' i p Structural) \<and>
        (\<forall>q. prev = Some q \<longrightarrow> has_edge b' q i Sequence))"

lemma node_specD:
  assumes "node_spec flat x" "builder_ok flat b" "scopes_ok flat (length (b_nodes b)) stack"
    "node_ctx flat (length (b_nodes b)) parent prev"
    "placed flat (length (b_nodes b)) (flatten_node_for_plan x)"
    "add_node x stack parent prev b = (i, stack', b')"
  shows "i = length (b_nodes b)" "adds flat (plan_size x) stack b stack' b'"
    "\<And>p. parent = Some p \<Longrightarrow> has_edge b' i p Structural"
    "\<And>q. prev = Some q \<Longrightarrow> has_edge b' q i Sequence"
  using assms unfolding node_spec_def by blast+

lemma add_children_ok:
  assumes spec: "\<And>c. c \<in> set cs \<Longrightarrow> node_spec flat c"
    and "builder_ok flat b" "scopes_ok flat (length (b_nodes b)) stack"
    and "placed flat (length (b_nodes b)) (flatten_nodes_for_plan cs)"
    and "p < length flat" "set (positions (length (b_nodes b)) cs) \<subseteq> set (child_positions flat p)"
    and "\<And>q. prev = Some q \<Longrightarrow> q < length flat \<and> subtree_end flat q \<le> length (b_nodes b)"
    and "add_children cs stack p prev b = (stack', b')"
  shows "adds flat (length (flatten_nodes_for_plan cs)) stack b stack' b' \<and>
    (\<forall>c \<in> set (positions (length (b_nodes b)) cs). has_edge b' c p Structural) \<and>
    chained b' prev (positions (length (b_nodes b)) cs)"
  using assms
proof (induction cs arbitrary: stack prev b)
  case Nil
  then show ?case by (simp add: adds_refl chained_def)
next
  case (Cons c cs)
  let ?n = "length (b_nodes b)"
  obtain i s1 b1 where step: "add_node c stack (Some p) prev b = (i, s1, b1)"
    by (cases "add_node c stack (Some p) prev b") auto
  have pl: "placed flat ?n (flatten_node_for_plan c)"
    "placed flat (?n + plan_size c) (flatten_nodes_for_plan cs)"
    using Cons.prems(4) by (simp_all add: placed_append)
  have "node_ctx flat ?n (Some p) prev" using Cons.prems(5-7) by (auto simp: node_ctx_def)
  note c = node_specD [OF Cons.prems(1) Cons.prems(2,3) this pl(1) step, simplified]
  have n1: "length (b_nodes b1) = ?n + plan_size c" using c(2) by (simp add: adds_def)
  have rest: "adds flat (length (flatten_nodes_for_plan cs)) s1 b1 stack' b' \<and>
    (\<forall>c \<in> set (positions (length (b_nodes b1)) cs). has_edge b' c p Structural) \<and>
    chained b' (Some i) (positions (length (b_nodes b1)) cs)"
  proof (rule Cons.IH)
    show "builder_ok flat b1" "scopes_ok flat (length (b_nodes b1)) s1"
      using c(2) unfolding adds_def by blast+
    show "add_children cs s1 p (Some i) b1 = (stack', b')"
      using Cons.prems(8) step by simp
    show "q < length flat \<and> subtree_end flat q \<le> length (b_nodes b1)" if "Some i = Some q" for q
      using that c(1) n1 placed_node [OF pl(1)] by simp
  qed (use Cons.prems pl(2) n1 in auto)
  then have ext: "extends b1 b'" by (simp add: adds_def)
  show ?case
    using adds_trans [OF c(2)] rest c(1,3,4) extends_has_edge [OF ext] n1
    by (auto simp: chained_Cons)
qed

lemma node_spec_all: "node_spec flat x"
proof (induction x rule: oir_plan_induct)
  case (1 x)
  show ?case unfolding node_spec_def
  proof (intro allI impI)
    fix stack parent prev i stack' and b b' :: plan_builder
    let ?n = "length (b_nodes b)"
    assume ok: "builder_ok flat b" and sc: "scopes_ok flat ?n stack"
      and ctx: "node_ctx flat ?n parent prev" and pl: "placed flat ?n (flatten_node_for_plan x)"
      and run: "add_node x stack parent prev b = (i, stack', b')"
    define b1 where "b1 = open_node x stack parent prev b"
    note open_ok = open_node_ok [OF ok sc ctx pl, folded b1_def]
    note at = placed_node [OF pl]
    obtain s2 where body: "add_children (plan_children x) ([] # stack) ?n None b1 = (s2, b')"
      and res: "i = ?n" "stack' = bind_result x ?n (tl s2)"
      using run unfolding add_node_children Let_def b1_def by (auto split: prod.splits)
    have kids: "child_positions flat ?n = positions (Suc ?n) (plan_children x)"
      using at by (simp add: child_positions_def)
    have "adds flat (length (flatten_nodes_for_plan (plan_children x))) ([] # stack) b1 s2 b' \<and>
      (\<forall>c \<in> set (positions (length (b_nodes b1)) (plan_children x)). has_edge b' c ?n Structural) \<and>
      chained b' None (positions (length (b_nodes b1)) (plan_children x))"
      by (rule add_children_ok [OF 1])
        (use open_ok(1,2) sc placed_children [OF pl] at body kids in
          \<open>auto intro: scopes_ok_mono\<close>)
    then have kids_ok: "adds flat (length (flatten_nodes_for_plan (plan_children x))) ([] # stack) b1 s2 b'"
      and link: "linked flat b' ?n"
      by (auto simp: linked_def kids open_ok(2))
    then have ext: "extends b1 b'" and len: "length (b_nodes b') = ?n + plan_size x"
      by (auto simp: adds_def open_ok(2) flatten_node_children)
    have "scopes_ok flat (length (b_nodes b')) (tl s2)"
      using kids_ok by (auto simp: adds_def intro: scopes_ok_pop)
    then have "scopes_ok flat (length (b_nodes b')) stack'"
      using at len by (cases x) (auto simp: res intro: scopes_ok_bind)
    moreover have "length stack' = length stack"
      using kids_ok by (cases x) (auto simp: res adds_def)
    moreover have "linked flat b' j" if "?n \<le> j" "j < length (b_nodes b')" for j
      using that link kids_ok by (cases "j = ?n") (auto simp: adds_def open_ok(2))
    ultimately have "adds flat (plan_size x) stack b stack' b'"
      using kids_ok len extends_trans [OF open_ok(3) ext] by (auto simp: adds_def)
    then show "i = ?n \<and> adds flat (plan_size x) stack b stack' b' \<and>
        (\<forall>p. parent = Some p \<longrightarrow> has_edge b' i p Structural) \<and>
        (\<forall>q. prev = Some q \<longrightarrow> has_edge b' q i Sequence)"
      using open_ok(4,5) extends_has_edge [OF ext] res(1) by auto
  qed
qed

lemma add_roots_ok:
  assumes "builder_ok flat b" "scopes_ok flat (length (b_nodes b)) stack"
    and "placed flat (length (b_nodes b)) (flatten_nodes_for_plan ns)"
    and "\<And>q. prev = Some q \<Longrightarrow> q < length flat \<and> subtree_end flat q \<le> length (b_nodes b)"
    and "add_roots ns stack prev b = (rs, b')"
  shows "rs = positions (length (b_nodes b)) ns \<and> chained b' prev rs \<and>
    (\<exists>stack'. adds flat (length (flatten_nodes_for_plan ns)) stack b stack' b')"
  using assms
proof (induction ns arbitrary: stack prev b rs)
  case Nil
  then show ?case by (auto simp: chained_def intro: adds_refl)
next
  case (Cons x ns)
  let ?n = "length (b_nodes b)"
  obtain i s1 b1 where step: "add_node x stack None prev b = (i, s1, b1)"
    by (cases "add_node x stack None prev b") auto
  obtain rs1 where rest: "add_roots ns s1 (Some i) b1 = (rs1, b')" and rs: "rs = i # rs1"
    using Cons.prems(5) step by (auto split: prod.splits)
  have pl: "placed flat ?n (flatten_node_for_plan x)"
    "placed flat (?n + plan_size x) (flatten_nodes_for_plan ns)"
    using Cons.prems(3) by (simp_all add: placed_append)
  have "node_ctx flat ?n None prev" using Cons.prems(4) by (auto simp: node_ctx_def)
  note x = node_specD [OF node_spec_all Cons.prems(1,2) this pl(1) step]
  have n1: "length (b_nodes b1) = ?n + plan_size x" using x(2) by (simp add: adds_def)
  have "rs1 = positions (length (b_nodes b1)) ns \<and> chained b' (Some i) rs1 \<and>
    (\<exists>stack'. adds flat (length (flatten_nodes_for_plan ns)) s1 b1 stack' b')"
  proof (rule Cons.IH)
    show "builder_ok flat b1" "scopes_ok flat (length (b_nodes b1)) s1"
      using x(2) unfolding adds_def by blast+
    show "q < length flat \<and> subtree_end flat q \<le> length (b_nodes b1)" if "Some i = Some q" for q
      using that x(1) n1 placed_node [OF pl(1)] by simp
  qed (use pl(2) n1 rest in auto)
  then obtain s2 where tail: "rs1 = positions (?n + plan_size x) ns" "chained b' (Some i) rs1"
    "adds flat (length (flatten_nodes_for_plan ns)) s1 b1 s2 b'"
    using n1 by auto
  then have "extends b1 b'" by (simp add: adds_def)
  then show ?case
    using adds_trans [OF x(2) tail(3)] tail(1,2) x(1,4) rs
    by (auto simp: chained_Cons intro: extends_has_edge)
qed

section \<open>The plan of a program\<close>

lemma plan_facts:
  shows "map node_id (nodes (plan p)) = [0..<length (nodes (plan p))]"
    "map node_kind (nodes (plan p)) = map plan_kind (flatten_for_plan p)"
    "edges_ok (flatten_for_plan p) (edges (plan p))"
    "roots (plan p) = positions 0 (prog_nodes p)"
    "chained \<lparr>b_nodes = nodes (plan p), b_edges = edges (plan p)\<rparr> None (roots (plan p))"
    "\<And>j. j < length (flatten_for_plan p) \<Longrightarrow>
       linked (flatten_for_plan p) \<lparr>b_nodes = nodes (plan p), b_edges = edges (plan p)\<rparr> j"
proof -
  let ?flat = "flatten_for_plan p"
  obtain rs b where run: "add_roots (prog_nodes p) [[]] None new_builder = (rs, b)"
    by (cases "add_roots (prog_nodes p) [[]] None new_builder")
  have start: "builder_ok ?flat new_builder" "scopes_ok ?flat 0 [[]]" "length (b_nodes new_builder) = 0"
    by (simp_all add: builder_ok_def new_builder_def edges_ok_def scopes_ok_def)
  have "rs = positions 0 (prog_nodes p) \<and> chained b None rs \<and>
      (\<exists>stack'. adds ?flat (length (flatten_nodes_for_plan (prog_nodes p))) [[]] new_builder stack' b)"
    using add_roots_ok [OF start(1), of "[[]]" "prog_nodes p" None rs b] run start(2,3)
    by (auto simp: flatten_for_plan_def placed_def)
  then have ok: "rs = positions 0 (prog_nodes p)" "chained b None rs" "builder_ok ?flat b"
    "length (b_nodes b) = length ?flat" "\<And>j. j < length ?flat \<Longrightarrow> linked ?flat b j"
    by (auto simp: adds_def start flatten_for_plan_def)
  have eqs: "roots (plan p) = rs" "nodes (plan p) = b_nodes b" "edges (plan p) = b_edges b"
    "\<lparr>b_nodes = nodes (plan p), b_edges = edges (plan p)\<rparr> = b"
    using run by (simp_all add: plan_def)
  show "map node_id (nodes (plan p)) = [0..<length (nodes (plan p))]"
    "map node_kind (nodes (plan p)) = map plan_kind ?flat"
    "edges_ok ?flat (edges (plan p))"
    "roots (plan p) = positions 0 (prog_nodes p)"
    "chained \<lparr>b_nodes = nodes (plan p), b_edges = edges (plan p)\<rparr> None (roots (plan p))"
    "\<And>j. j < length ?flat \<Longrightarrow>
       linked ?flat \<lparr>b_nodes = nodes (plan p), b_edges = edges (plan p)\<rparr> j"
    unfolding eqs(4) unfolding eqs(1-3) using ok by (simp_all add: builder_ok_def)
qed

lemma length_plan_nodes [simp]: "length (nodes (plan p)) = length (flatten_for_plan p)"
  using arg_cong [OF plan_facts(2) [of p], of length] by simp

lemma edge_ok_ranked:
  assumes "layout_ok flat t" "f < length flat" "t < length flat" "edge_ok flat k f t"
  shows "subtree_end flat f < subtree_end flat t \<or> subtree_end flat f = subtree_end flat t \<and> t < f"
proof -
  have "t < subtree_end flat t" by (simp add: subtree_end_def)
  then show ?thesis
    using assms child_positions_inside [OF assms(1), of f] by (cases k) auto
qed

lemma plan_edges_bounded: "edges_bounded (plan p)"
  using plan_facts(3) [of p] by (simp add: edges_bounded_def edges_ok_def)

lemma plan_order_exists:
  obtains order where "topological_order (plan p) = Inr order"
proof -
  let ?flat = "flatten_for_plan p"
  let ?rank = "\<lambda>v. (subtree_end ?flat v, length ?flat - v)"
  have "dependencies (plan p) \<subseteq> inv_image (less_than <*lex*> less_than) ?rank"
  proof (rule subrelI)
    fix u v assume "(u, v) \<in> dependencies (plan p)"
    then obtain k where "u < length ?flat" "v < length ?flat" "edge_ok ?flat k u v"
      using plan_facts(3) [of p] by (auto simp: dependencies_def edge_pairs_def edges_ok_def)
    then show "(u, v) \<in> inv_image (less_than <*lex*> less_than) ?rank"
      using edge_ok_ranked [OF layout_flatten, of v p u k] by auto
  qed
  moreover have "wf (inv_image (less_than <*lex*> less_than) ?rank)"
    by (intro wf_inv_image wf_lex_prod wf_less_than)
  ultimately obtain order where "result_ok (topological_order (plan p)) = Some order"
    using plan_edges_bounded [of p] plan_order.ranked_order unfolding dependencies_bounded by blast
  then show thesis using that by simp
qed

lemma positions_ge: "i \<in> set (positions n cs) \<Longrightarrow> n \<le> i"
  by (induction cs arbitrary: n) (auto dest: add_leD1)

lemma ascending_positions: "ascending (positions n cs)"
proof (induction cs arbitrary: n)
  case (Cons c cs)
  have "n < i" if "i \<in> set (positions (n + plan_size c) cs)" for i
    using positions_ge [OF that] flatten_node_length_pos [of c] by linarith
  with Cons show ?case by simp
qed simp

lemma length_positions [simp]: "length (positions n cs) = length cs"
  by (induction cs arbitrary: n) simp_all

lemma has_edge_dependency:
  "has_edge \<lparr>b_nodes = ns, b_edges = edges p\<rparr> f t k \<Longrightarrow> (f, t) \<in> dependencies p"
  by (force simp: has_edge_def dependencies_def edge_pairs_def)

lemma plan_roots_bounded: "set (roots (plan p)) \<subseteq> {..<length (nodes (plan p))}"
  using positions_placed [of "flatten_for_plan p" 0 "prog_nodes p"]
  by (auto simp: plan_facts(4) placed_def flatten_for_plan_def)

lemma distinct_roots: "distinct (roots (plan p))"
  by (simp add: plan_facts(4) ascending_distinct ascending_positions)

lemma root_schedule_chain:
  assumes "distinct (roots p)" "topological_order p = Inr order"
    and "filter (\<lambda>v. v \<in> set (roots p)) order = roots p"
  shows "root_schedule p = Inr [0..<length (roots p)]"
proof -
  have some: "root_positions p v \<noteq> None \<longleftrightarrow> v \<in> set (roots p)" for v
    using root_positions_nth [OF assms(1), of v] by (auto simp: in_set_conv_nth)
  have "List.map_filter (root_positions p) order =
      map (the \<circ> root_positions p) (filter (\<lambda>v. v \<in> set (roots p)) order)"
    by (simp add: List.map_filter_def some [symmetric])
  also have "\<dots> = [0..<length (roots p)]"
    unfolding assms(3)
  proof (rule nth_equalityI)
    fix k assume "k < length (map (the \<circ> root_positions p) (roots p))"
    moreover from this have "root_positions p (roots p ! k) = Some k"
      using root_positions_nth [OF assms(1)] by simp
    ultimately show "map (the \<circ> root_positions p) (roots p) ! k = [0..<length (roots p)] ! k"
      by simp
  qed simp
  finally show ?thesis by (simp add: root_schedule_def assms(2))
qed

lemma plan_root_schedule: "root_schedule (plan p) = Inr [0..<length (prog_nodes p)]"
proof -
  obtain order where order: "topological_order (plan p) = Inr order" by (rule plan_order_exists)
  have "filter (\<lambda>v. v \<in> set (roots (plan p))) order = roots (plan p)"
    by (rule plan_order.chain_scheduled [of "plan p"])
      (use order plan_roots_bounded plan_facts(5) [of p] in
        \<open>auto simp: chained_def intro: has_edge_dependency\<close>)
  from root_schedule_chain [OF distinct_roots order this] show ?thesis
    by (simp add: plan_facts(4))
qed

lemma plan_validates: "validate (plan p) (length (prog_nodes p)) = Inr ()"
proof -
  have "node_id (nodes (plan p) ! i) = i" if "i < length (nodes (plan p))" for i
    using arg_cong [OF plan_facts(1) [of p], of "\<lambda>xs. xs ! i"] that by simp
  moreover have "acyclic (dependencies (plan p))"
    using plan_order_exists topological_order_InrD(2) by metis
  ultimately show ?thesis
    using plan_edges_bounded [of p] distinct_roots [of p] plan_roots_bounded [of p]
    by (simp add: validate_ok_iff plan_facts(4))
qed

lemma plan_structural_children:
  assumes "i < length (nodes (plan p))"
  shows "set (structural_children (plan p) i) = set (child_positions (flatten_for_plan p) i)"
    (is "?S = ?C")
proof
  show "?S \<subseteq> ?C"
    using plan_facts(3) [of p] by (auto simp: structural_children_def edges_ok_def)
  show "?C \<subseteq> ?S"
    using plan_facts(6) [of i p] assms
    by (force simp: structural_children_def linked_def has_edge_def)
qed

lemma plan_child_schedule:
  assumes "i < length (nodes (plan p))"
  shows "child_schedule (plan p) i = Inr (child_positions (flatten_for_plan p) i)"
proof -
  let ?c = "child_positions (flatten_for_plan p) i"
  obtain order where order: "topological_order (plan p) = Inr order" by (rule plan_order_exists)
  have "filter (\<lambda>v. v \<in> set ?c) order = ?c"
  proof (rule plan_order.chain_scheduled [of "plan p"])
    have "layout_ok (flatten_for_plan p) i" using assms by (simp add: layout_flatten)
    then show "set ?c \<subseteq> {..<length (nodes (plan p))}"
      by (auto dest: child_positions_inside)
    show "(?c ! k, ?c ! Suc k) \<in> dependencies (plan p)" if "Suc k < length ?c" for k
      using plan_facts(6) [of i p] assms that unfolding linked_def chained_def
      by (intro has_edge_dependency [where k = Sequence]) auto
  qed (simp add: order)
  then show ?thesis
    unfolding child_schedule_def plan_structural_children [OF assms] using assms order by simp
qed

section \<open>Properties\<close>

text \<open>
  C6. Planning never fails: the plan of any program passes the validator for that program, and its
  root schedule is source order.
\<close>

theorem plan_executable:
  "validate (plan p) (length (prog_nodes p)) = Inr () \<and>
   root_schedule (plan p) = Inr [0..<length (prog_nodes p)]"
  using plan_validates plan_root_schedule by blast

text \<open>
  C20. Plan nodes are the executable instructions of the program in the preorder of
  \<open>flatten_for_plan\<close>: same length, same kinds, identities equal to positions. Quoted bodies have
  no nodes.
\<close>

theorem plan_preorder:
  "map node_kind (nodes (plan p)) = map plan_kind (flatten_for_plan p) \<and>
   map node_id (nodes (plan p)) = [0..<length (flatten_for_plan p)] \<and>
   roots (plan p) = positions 0 (prog_nodes p)"
  using plan_facts(1,2,4) [of p] by simp

text \<open>
  C15. Inside every instruction, the child schedule is exactly the children of that instruction, in
  source order: the evaluator may follow the dependency graph and still evaluate left to right.
\<close>

theorem child_schedule_source_order:
  assumes "i < length (flatten_for_plan p)"
  shows "child_schedule (plan p) i =
    Inr (positions (Suc i) (plan_children (flatten_for_plan p ! i)))"
  using plan_child_schedule [of i p] assms by (simp add: child_positions_def)

definition sample_program :: oir_program where
  "sample_program = \<lparr>prog_nodes = [Store ''x'' (Text ''1''), Invoke ''f'' EagerI [Load ''x'', Text ''y'']]\<rparr>"

theorem child_schedule_source_order_witness:
  "2 < length (flatten_for_plan sample_program) \<and> child_schedule (plan sample_program) 2 = Inr [3, 4]"
proof
  show len: "2 < length (flatten_for_plan sample_program)" by code_simp
  have "positions (Suc 2) (plan_children (flatten_for_plan sample_program ! 2)) = [3, 4]"
    by code_simp
  then show "child_schedule (plan sample_program) 2 = Inr [3, 4]"
    using child_schedule_source_order [OF len] by simp
qed

end
