(* ===== verification/World_Identity.thy ===== *)
theory World_Identity
  imports O_Prelude
begin

text \<open>
  Generation-bound identities of a governed World (\<open>world/identity.rs\<close>): validated names,
  nonzero generation counters that never wrap, the compound identities built from them, and the
  fences that compare a reference with the current state.

  The newtypes generated by \<open>string_identity!\<close> and \<open>generation_identity!\<close> differ only in the
  kind they put into errors, so they are one constructor each, with the kind as an argument.
\<close>

section \<open>Names\<close>

datatype world_identity_error =
    EmptyIdentifier string
  | IdentifierTooLong string nat
  | InvalidIdentifier string string
  | ZeroGeneration string
  | GenerationExhausted string
  | IdentityMismatch string string string
  | StaleGeneration string u64 u64
  | InvalidArtifactDigest

definition MAX_SIMPLE_ID_BYTES :: nat where "MAX_SIMPLE_ID_BYTES = 128"
definition MAX_RESOURCE_ID_BYTES :: nat where "MAX_RESOURCE_ID_BYTES = 256"
definition SHA256_HEX_BYTES :: nat where "SHA256_HEX_BYTES = 64"

definition component_char :: "char \<Rightarrow> bool" where
  "component_char c \<longleftrightarrow>
     is_ascii_alphanumeric c \<or> c = CHR ''.'' \<or> c = CHR ''_'' \<or> c = CHR ''-'' \<or> c = CHR ''+''"

definition validate_component :: "string \<Rightarrow> string \<Rightarrow> world_identity_error + unit" where
  "validate_component kind v =
     (if v = [] then Inl (EmptyIdentifier kind)
      else if length v > MAX_SIMPLE_ID_BYTES then Inl (IdentifierTooLong kind MAX_SIMPLE_ID_BYTES)
      else if v = ''.'' \<or> v = ''..'' \<or> \<not> list_all component_char v
           then Inl (InvalidIdentifier kind v)
      else Inr ())"

definition validate_resource_path :: "string \<Rightarrow> world_identity_error + unit" where
  "validate_resource_path v =
     (let kind = ''resource identity'' in
      if v = [] then Inl (EmptyIdentifier kind)
      else if length v > MAX_RESOURCE_ID_BYTES then Inl (IdentifierTooLong kind MAX_RESOURCE_ID_BYTES)
      else if hd v = CHR ''/'' \<or> last v = CHR ''/'' \<or>
              list_ex (\<lambda>c. c = [] \<or> c = ''.'' \<or> c = ''..'' \<or> \<not> is_ok (validate_component kind c))
                (split_char CHR ''/'' v)
           then Inl (InvalidIdentifier kind v)
      else Inr ())"

definition string_identity_new :: "string \<Rightarrow> string \<Rightarrow> world_identity_error + string" where
  "string_identity_new kind v = and_then (validate_component kind v) (\<lambda>_. Inr v)"

definition resource_id_new :: "string \<Rightarrow> world_identity_error + string" where
  "resource_id_new v = and_then (validate_resource_path v) (\<lambda>_. Inr v)"

definition generation_new :: "string \<Rightarrow> u64 \<Rightarrow> world_identity_error + u64" where
  "generation_new kind v = (if v = 0 then Inl (ZeroGeneration kind) else Inr v)"

definition generation_next :: "string \<Rightarrow> u64 \<Rightarrow> world_identity_error + u64" where
  "generation_next kind g =
     (if g = 18446744073709551615 then Inl (GenerationExhausted kind)
      else generation_new kind (g + 1))"

definition artifact_from_sha256 :: "string \<Rightarrow> world_identity_error + string" where
  "artifact_from_sha256 v =
     (if length v \<noteq> SHA256_HEX_BYTES \<or>
         \<not> list_all (\<lambda>c. is_ascii_digit c \<or> (97 :: nat) \<le> of_char c \<and> of_char c \<le> (102 :: nat)) v
      then Inl InvalidArtifactDigest else Inr v)"

definition artifact_from_str :: "string \<Rightarrow> world_identity_error + string" where
  "artifact_from_str v =
     artifact_from_sha256 (case strip_prefix ''sha256:'' v of None \<Rightarrow> v | Some r \<Rightarrow> r)"

definition artifact_display :: "string \<Rightarrow> string" where
  "artifact_display v = ''sha256:'' @ v"

section \<open>Compound identities\<close>

record world_identity =
  wi_world :: string
  wi_epoch :: u64

record governor_identity =
  gi_world :: world_identity
  gi_term :: u64
  gi_log_index :: u64

record node_identity =
  ni_world :: string
  ni_node :: string
  ni_generation :: u64

record domain_identity =
  di_node :: node_identity
  di_domain :: string
  di_generation :: u64

record process_identity =
  pi_domain :: domain_identity
  pi_process :: string
  pi_generation :: u64

datatype resource_owner =
    WorldOwner world_identity
  | NodeOwner node_identity
  | DomainOwner domain_identity
  | ProcessOwner process_identity

record resource_identity =
  ri_owner :: resource_owner
  ri_resource :: string
  ri_generation :: u64

record object_identity =
  oi_world :: string
  oi_object :: string
  oi_version :: u64

record capability_identity =
  ci_world :: string
  ci_capability :: string

record lease_identity =
  li_world :: string
  li_lease :: string

record task_identity =
  ti_world :: string
  ti_task :: string

record attempt_identity =
  ai_world :: string
  ai_task :: string
  ai_attempt :: u64

record checkpoint_identity =
  ki_attempt :: attempt_identity
  ki_checkpoint :: string

record receipt_identity =
  ci_receipt_world :: string
  ci_receipt :: string

record artifact_publication =
  ap_world :: world_identity
  ap_artifact :: string

record kernel_world_binding =
  kb_domain :: domain_identity
  kb_name :: string
  kb_package :: string
  kb_provider_generation :: u64

definition from_descriptive_parts ::
  "domain_identity \<Rightarrow> string \<Rightarrow> string \<Rightarrow> u64 \<Rightarrow> world_identity_error + kernel_world_binding" where
  "from_descriptive_parts d name sha g =
     and_then (resource_id_new name) (\<lambda>n.
     and_then (if g = 0 then Inl (ZeroGeneration ''kernel world generation'') else Inr g) (\<lambda>g'.
     and_then (artifact_from_sha256 sha) (\<lambda>a.
     Inr \<lparr>kb_domain = d, kb_name = n, kb_package = a, kb_provider_generation = g'\<rparr>)))"

fun owner_world :: "resource_owner \<Rightarrow> string" where
  "owner_world (WorldOwner w) = wi_world w"
| "owner_world (NodeOwner n) = ni_world n"
| "owner_world (DomainOwner d) = ni_world (di_node d)"
| "owner_world (ProcessOwner p) = ni_world (di_node (pi_domain p))"

section \<open>Rendering\<close>

abbreviation show_u64 :: "u64 \<Rightarrow> string" where
  "show_u64 w \<equiv> dec_digits (unat w)"

definition display_world :: "world_identity \<Rightarrow> string" where
  "display_world w = wi_world w @ ''@'' @ show_u64 (wi_epoch w)"

definition display_governor :: "governor_identity \<Rightarrow> string" where
  "display_governor g =
     display_world (gi_world g) @ ''/governor:term-'' @ show_u64 (gi_term g) @ ''@'' @
     show_u64 (gi_log_index g)"

definition display_node :: "node_identity \<Rightarrow> string" where
  "display_node n = ni_world n @ ''/node:'' @ ni_node n @ ''@'' @ show_u64 (ni_generation n)"

definition display_domain :: "domain_identity \<Rightarrow> string" where
  "display_domain d =
     display_node (di_node d) @ ''/domain:'' @ di_domain d @ ''@'' @ show_u64 (di_generation d)"

definition display_process :: "process_identity \<Rightarrow> string" where
  "display_process p =
     display_domain (pi_domain p) @ ''/process:'' @ pi_process p @ ''@'' @
     show_u64 (pi_generation p)"

fun display_owner :: "resource_owner \<Rightarrow> string" where
  "display_owner (WorldOwner w) = display_world w"
| "display_owner (NodeOwner n) = display_node n"
| "display_owner (DomainOwner d) = display_domain d"
| "display_owner (ProcessOwner p) = display_process p"

definition display_resource :: "resource_identity \<Rightarrow> string" where
  "display_resource r =
     display_owner (ri_owner r) @ ''/resource:'' @ ri_resource r @ ''@'' @
     show_u64 (ri_generation r)"

definition display_object :: "object_identity \<Rightarrow> string" where
  "display_object x = oi_world x @ ''/object:'' @ oi_object x @ ''@'' @ show_u64 (oi_version x)"

definition display_capability :: "capability_identity \<Rightarrow> string" where
  "display_capability x = ci_world x @ ''/capability:'' @ ci_capability x"

definition display_lease :: "lease_identity \<Rightarrow> string" where
  "display_lease x = li_world x @ ''/lease:'' @ li_lease x"

definition display_task :: "task_identity \<Rightarrow> string" where
  "display_task x = ti_world x @ ''/task:'' @ ti_task x"

definition display_attempt :: "attempt_identity \<Rightarrow> string" where
  "display_attempt x = ai_world x @ ''/task:'' @ ai_task x @ ''@'' @ show_u64 (ai_attempt x)"

definition display_checkpoint :: "checkpoint_identity \<Rightarrow> string" where
  "display_checkpoint x = display_attempt (ki_attempt x) @ ''/checkpoint:'' @ ki_checkpoint x"

definition display_receipt :: "receipt_identity \<Rightarrow> string" where
  "display_receipt x = ci_receipt_world x @ ''/receipt:'' @ ci_receipt x"

definition display_publication :: "artifact_publication \<Rightarrow> string" where
  "display_publication x = display_world (ap_world x) @ ''/artifact:'' @ artifact_display (ap_artifact x)"

section \<open>Fences\<close>

definition require_same_logical :: "string \<Rightarrow> string \<Rightarrow> string \<Rightarrow> world_identity_error + unit" where
  "require_same_logical kind expected got =
     (if expected = got then Inr () else Inl (IdentityMismatch kind expected got))"

definition require_generation :: "string \<Rightarrow> u64 \<Rightarrow> u64 \<Rightarrow> world_identity_error + unit" where
  "require_generation kind expected got =
     (if expected = got then Inr () else Inl (StaleGeneration kind expected got))"

definition require_current_world :: "world_identity \<Rightarrow> world_identity \<Rightarrow> world_identity_error + unit" where
  "require_current_world cur r =
     and_then (require_same_logical ''world'' (wi_world cur) (wi_world r)) (\<lambda>_.
     require_generation ''world epoch'' (wi_epoch cur) (wi_epoch r))"

definition require_current_governor ::
  "governor_identity \<Rightarrow> governor_identity \<Rightarrow> world_identity_error + unit" where
  "require_current_governor cur r =
     and_then (require_current_world (gi_world cur) (gi_world r)) (\<lambda>_.
     and_then (require_generation ''governor term'' (gi_term cur) (gi_term r)) (\<lambda>_.
     require_generation ''governor log index'' (gi_log_index cur) (gi_log_index r)))"

definition require_current_node :: "node_identity \<Rightarrow> node_identity \<Rightarrow> world_identity_error + unit" where
  "require_current_node cur r =
     and_then (require_same_logical ''world'' (ni_world cur) (ni_world r)) (\<lambda>_.
     and_then (require_same_logical ''node'' (ni_node cur) (ni_node r)) (\<lambda>_.
     require_generation ''node generation'' (ni_generation cur) (ni_generation r)))"

definition require_current_domain ::
  "domain_identity \<Rightarrow> domain_identity \<Rightarrow> world_identity_error + unit" where
  "require_current_domain cur r =
     and_then (require_current_node (di_node cur) (di_node r)) (\<lambda>_.
     and_then (require_same_logical ''domain'' (di_domain cur) (di_domain r)) (\<lambda>_.
     require_generation ''domain generation'' (di_generation cur) (di_generation r)))"

definition require_current_process ::
  "process_identity \<Rightarrow> process_identity \<Rightarrow> world_identity_error + unit" where
  "require_current_process cur r =
     and_then (require_current_domain (pi_domain cur) (pi_domain r)) (\<lambda>_.
     and_then (require_same_logical ''process'' (pi_process cur) (pi_process r)) (\<lambda>_.
     require_generation ''process generation'' (pi_generation cur) (pi_generation r)))"

fun require_current_owner :: "resource_owner \<Rightarrow> resource_owner \<Rightarrow> world_identity_error + unit" where
  "require_current_owner (WorldOwner w) (WorldOwner r) = require_current_world w r"
| "require_current_owner (NodeOwner n) (NodeOwner r) = require_current_node n r"
| "require_current_owner (DomainOwner d) (DomainOwner r) = require_current_domain d r"
| "require_current_owner (ProcessOwner p) (ProcessOwner r) = require_current_process p r"
| "require_current_owner cur r =
     Inl (IdentityMismatch ''resource owner'' (display_owner cur) (display_owner r))"

definition require_current_resource ::
  "resource_identity \<Rightarrow> resource_identity \<Rightarrow> world_identity_error + unit" where
  "require_current_resource cur r =
     and_then (require_current_owner (ri_owner cur) (ri_owner r)) (\<lambda>_.
     and_then (require_same_logical ''resource'' (ri_resource cur) (ri_resource r)) (\<lambda>_.
     require_generation ''resource generation'' (ri_generation cur) (ri_generation r)))"

definition require_current_object ::
  "object_identity \<Rightarrow> object_identity \<Rightarrow> world_identity_error + unit" where
  "require_current_object cur r =
     and_then (require_same_logical ''world'' (oi_world cur) (oi_world r)) (\<lambda>_.
     and_then (require_same_logical ''object'' (oi_object cur) (oi_object r)) (\<lambda>_.
     require_generation ''object version'' (oi_version cur) (oi_version r)))"

definition require_current_attempt ::
  "attempt_identity \<Rightarrow> attempt_identity \<Rightarrow> world_identity_error + unit" where
  "require_current_attempt cur r =
     and_then (require_same_logical ''world'' (ai_world cur) (ai_world r)) (\<lambda>_.
     and_then (require_same_logical ''task'' (ai_task cur) (ai_task r)) (\<lambda>_.
     require_generation ''task attempt'' (ai_attempt cur) (ai_attempt r)))"

definition require_current_checkpoint ::
  "checkpoint_identity \<Rightarrow> checkpoint_identity \<Rightarrow> world_identity_error + unit" where
  "require_current_checkpoint cur r =
     and_then (require_current_attempt (ki_attempt cur) (ki_attempt r)) (\<lambda>_.
     require_same_logical ''checkpoint'' (ki_checkpoint cur) (ki_checkpoint r))"

definition require_current_publication ::
  "artifact_publication \<Rightarrow> artifact_publication \<Rightarrow> world_identity_error + unit" where
  "require_current_publication cur r =
     and_then (require_current_world (ap_world cur) (ap_world r)) (\<lambda>_.
     if ap_artifact cur = ap_artifact r then Inr ()
     else Inl (IdentityMismatch ''artifact'' (artifact_display (ap_artifact cur))
                 (artifact_display (ap_artifact r))))"

section \<open>Valid identities\<close>

definition component_ok :: "string \<Rightarrow> bool" where
  "component_ok v \<longleftrightarrow>
     v \<noteq> [] \<and> length v \<le> MAX_SIMPLE_ID_BYTES \<and> v \<noteq> ''.'' \<and> v \<noteq> ''..'' \<and> list_all component_char v"

definition resource_ok :: "string \<Rightarrow> bool" where
  "resource_ok v \<longleftrightarrow>
     v \<noteq> [] \<and> length v \<le> MAX_RESOURCE_ID_BYTES \<and> hd v \<noteq> CHR ''/'' \<and> last v \<noteq> CHR ''/'' \<and>
     list_all component_ok (split_char CHR ''/'' v)"

definition valid_world :: "world_identity \<Rightarrow> bool" where
  "valid_world w \<longleftrightarrow> component_ok (wi_world w) \<and> wi_epoch w \<noteq> 0"

definition valid_governor :: "governor_identity \<Rightarrow> bool" where
  "valid_governor g \<longleftrightarrow> valid_world (gi_world g) \<and> gi_term g \<noteq> 0 \<and> gi_log_index g \<noteq> 0"

definition valid_node :: "node_identity \<Rightarrow> bool" where
  "valid_node n \<longleftrightarrow> component_ok (ni_world n) \<and> component_ok (ni_node n) \<and> ni_generation n \<noteq> 0"

definition valid_domain :: "domain_identity \<Rightarrow> bool" where
  "valid_domain d \<longleftrightarrow> valid_node (di_node d) \<and> component_ok (di_domain d) \<and> di_generation d \<noteq> 0"

definition valid_process :: "process_identity \<Rightarrow> bool" where
  "valid_process p \<longleftrightarrow>
     valid_domain (pi_domain p) \<and> component_ok (pi_process p) \<and> pi_generation p \<noteq> 0"

fun valid_owner :: "resource_owner \<Rightarrow> bool" where
  "valid_owner (WorldOwner w) \<longleftrightarrow> valid_world w"
| "valid_owner (NodeOwner n) \<longleftrightarrow> valid_node n"
| "valid_owner (DomainOwner d) \<longleftrightarrow> valid_domain d"
| "valid_owner (ProcessOwner p) \<longleftrightarrow> valid_process p"

definition valid_resource :: "resource_identity \<Rightarrow> bool" where
  "valid_resource r \<longleftrightarrow>
     valid_owner (ri_owner r) \<and> resource_ok (ri_resource r) \<and> ri_generation r \<noteq> 0"

definition valid_attempt :: "attempt_identity \<Rightarrow> bool" where
  "valid_attempt a \<longleftrightarrow> component_ok (ai_world a) \<and> component_ok (ai_task a) \<and> ai_attempt a \<noteq> 0"

lemmas valid_identity_defs = valid_world_def valid_governor_def valid_node_def valid_domain_def
  valid_process_def valid_resource_def valid_attempt_def

lemma validate_component_iff: "validate_component kind v = Inr () \<longleftrightarrow> component_ok v"
  by (auto simp: validate_component_def component_ok_def)

lemma string_identity_new_iff [result_simps]:
  "string_identity_new kind v = Inr x \<longleftrightarrow> component_ok v \<and> x = v"
  by (auto simp: string_identity_new_def and_then_eq_Inr validate_component_iff)

lemma component_ok_ne: "component_ok v \<Longrightarrow> v \<noteq> [] \<and> v \<noteq> ''.'' \<and> v \<noteq> ''..''"
  by (simp add: component_ok_def)

lemma validate_resource_path_iff: "validate_resource_path v = Inr () \<longleftrightarrow> resource_ok v"
proof -
  have "list_ex (\<lambda>c. c = [] \<or> c = ''.'' \<or> c = ''..'' \<or> \<not> is_ok (validate_component k c)) cs \<longleftrightarrow>
      \<not> list_all component_ok cs" for k cs
    by (auto simp: list_ex_iff list_all_iff validate_component_iff dest: component_ok_ne)
  then show ?thesis
    unfolding validate_resource_path_def resource_ok_def Let_def by auto
qed

lemma resource_id_new_iff [result_simps]: "resource_id_new v = Inr x \<longleftrightarrow> resource_ok v \<and> x = v"
  by (auto simp: resource_id_new_def and_then_eq_Inr validate_resource_path_iff)

lemma generation_new_iff [result_simps]: "generation_new kind v = Inr x \<longleftrightarrow> v \<noteq> 0 \<and> x = v"
  by (auto simp: generation_new_def)

lemma component_ok_char: "component_ok v \<Longrightarrow> c \<in> set v \<Longrightarrow> component_char c"
  by (simp add: component_ok_def list_all_iff)

lemma resource_ok_char:
  assumes "resource_ok v" and "c \<in> set v"
  shows "component_char c \<or> c = CHR ''/''"
proof -
  have "c \<in> set (join_with [CHR ''/''] (split_char CHR ''/'' v))"
    using assms(2) by (simp add: join_split_char)
  moreover have "set (join_with [x] ws) \<subseteq> insert x (\<Union> (set ` set ws))" for x and ws :: "string list"
    by (induction "[x]" ws rule: join_with.induct) auto
  ultimately have "c = CHR ''/'' \<or> (\<exists>w \<in> set (split_char CHR ''/'' v). c \<in> set w)" by blast
  then show ?thesis using assms(1) by (auto simp: resource_ok_def list_all_iff dest: component_ok_char)
qed

lemma component_char_ascii: "component_char c \<Longrightarrow> (of_char c :: nat) < 128"
  by (auto simp: component_char_def is_ascii_alphanumeric_def is_ascii_alphabetic_def
      is_ascii_digit_def)

section \<open>The fence interface\<close>

text \<open>
  What every caller of a fence relies on: it accepts a reference exactly when the reference is the
  current identity, names and generations included.
\<close>

locale generation_fence =
  fixes require_current :: "'a \<Rightarrow> 'a \<Rightarrow> world_identity_error + unit"
  assumes fence_exact: "require_current cur r = Inr () \<longleftrightarrow> r = cur"
begin

lemma fence_current: "require_current cur cur = Inr ()"
  by (simp add: fence_exact)

lemma fence_stale: "r \<noteq> cur \<Longrightarrow> \<exists>e. require_current cur r = Inl e"
  by (metis fence_exact obj_sumE old.unit.exhaust)

lemma fence_unique: "require_current a r = Inr () \<Longrightarrow> require_current b r = Inr () \<Longrightarrow> a = b"
  by (simp add: fence_exact)

end

lemma require_same_logical_iff [result_simps]:
  "require_same_logical k a b = Inr u \<longleftrightarrow> a = b"
  by (simp add: require_same_logical_def)

lemma require_generation_iff [result_simps]: "require_generation k a b = Inr u \<longleftrightarrow> a = b"
  by (simp add: require_generation_def)

interpretation world_fence: generation_fence require_current_world
  by unfold_locales (auto simp: require_current_world_def result_simps)

interpretation governor_fence: generation_fence require_current_governor
  by unfold_locales
    (auto simp: require_current_governor_def result_simps world_fence.fence_exact)

interpretation node_fence: generation_fence require_current_node
  by unfold_locales (auto simp: require_current_node_def result_simps)

interpretation domain_fence: generation_fence require_current_domain
  by unfold_locales
    (auto simp: require_current_domain_def result_simps node_fence.fence_exact)

interpretation process_fence: generation_fence require_current_process
  by unfold_locales
    (auto simp: require_current_process_def result_simps domain_fence.fence_exact)

interpretation owner_fence: generation_fence require_current_owner
proof unfold_locales
  fix cur r
  show "require_current_owner cur r = Inr () \<longleftrightarrow> r = cur"
    by (cases cur; cases r)
      (simp_all add: world_fence.fence_exact node_fence.fence_exact domain_fence.fence_exact
        process_fence.fence_exact)
qed

interpretation resource_fence: generation_fence require_current_resource
  by unfold_locales
    (auto simp: require_current_resource_def result_simps owner_fence.fence_exact)

interpretation object_fence: generation_fence require_current_object
  by unfold_locales (auto simp: require_current_object_def result_simps)

interpretation attempt_fence: generation_fence require_current_attempt
  by unfold_locales (auto simp: require_current_attempt_def result_simps)

interpretation checkpoint_fence: generation_fence require_current_checkpoint
  by unfold_locales
    (auto simp: require_current_checkpoint_def result_simps attempt_fence.fence_exact)

interpretation publication_fence: generation_fence require_current_publication
  by unfold_locales
    (auto simp: require_current_publication_def result_simps world_fence.fence_exact)

section \<open>Generations never come back\<close>

primrec bump :: "string \<Rightarrow> nat \<Rightarrow> u64 \<Rightarrow> world_identity_error + u64" where
  "bump kind 0 g = Inr g"
| "bump kind (Suc n) g = and_then (generation_next kind g) (bump kind n)"

lemma u64_succ: "(g :: u64) \<noteq> 18446744073709551615 \<Longrightarrow> unat (g + 1) = Suc (unat g)"
  by (unat_arith, simp)

lemma generation_next_iff [result_simps]:
  "generation_next kind g = Inr g' \<longleftrightarrow> g \<noteq> 18446744073709551615 \<and> g' = g + 1"
proof -
  have "g + 1 \<noteq> 0" if "g \<noteq> 18446744073709551615"
    using u64_succ [OF that] by auto
  then show ?thesis by (auto simp: generation_next_def result_simps)
qed

lemma bump_unat: "bump kind n g = Inr g' \<Longrightarrow> unat g' = unat g + n"
  by (induction n arbitrary: g) (auto simp: result_simps u64_succ)

section \<open>Properties\<close>

text \<open>
  C28. The fences are exact. A resource, governor, checkpoint, object or publication reference is
  accepted only when every name and every generation on its path equals the current one; there is
  no partial match.
\<close>

theorem fences_exact:
  "(require_current_resource rc rr = Inr () \<longleftrightarrow> rr = rc) \<and>
   (require_current_governor gc gr = Inr () \<longleftrightarrow> gr = gc) \<and>
   (require_current_checkpoint kc kr = Inr () \<longleftrightarrow> kr = kc) \<and>
   (require_current_object oc ob = Inr () \<longleftrightarrow> ob = oc) \<and>
   (require_current_publication pc pr = Inr () \<longleftrightarrow> pr = pc)"
  by (intro conjI resource_fence.fence_exact governor_fence.fence_exact
      checkpoint_fence.fence_exact object_fence.fence_exact publication_fence.fence_exact)

text \<open>
  A generation is never reused. However often a counter advances, it has not wrapped, so a
  process reference taken before at least one restart is refused, with both generations in the
  error; at the last value the counter reports exhaustion instead.
\<close>

theorem stale_process_refused:
  assumes "bump ''process generation'' n (pi_generation p) = Inr g" and "0 < n"
  shows "require_current_process (p\<lparr>pi_generation := g\<rparr>) p =
    Inl (StaleGeneration ''process generation'' g (pi_generation p)) \<and>
    pi_generation p < g \<and>
    generation_next ''process generation'' 18446744073709551615 =
      Inl (GenerationExhausted ''process generation'')"
proof -
  have "unat (pi_generation p) < unat g" using bump_unat [OF assms(1)] assms(2) by simp
  then have less: "pi_generation p < g" by (simp add: word_less_nat_alt)
  then have "g \<noteq> pi_generation p" by auto
  with less show ?thesis
    by (simp add: require_current_process_def domain_fence.fence_current require_same_logical_def
        require_generation_def generation_next_def)
qed

definition sample_process :: process_identity where
  "sample_process =
     \<lparr>pi_domain = \<lparr>di_node = \<lparr>ni_world = ''world-a'', ni_node = ''node-a'', ni_generation = 1\<rparr>,
        di_domain = ''domain-a'', di_generation = 2\<rparr>,
      pi_process = ''process-a'', pi_generation = 3\<rparr>"

theorem stale_process_refused_witness:
  "require_current_process (sample_process\<lparr>pi_generation := 5\<rparr>) sample_process =
     Inl (StaleGeneration ''process generation'' 5 3)"
proof -
  have "bump ''process generation'' 2 (pi_generation sample_process) = Inr 5" by code_simp
  moreover have "pi_generation sample_process = 3" by code_simp
  ultimately show ?thesis using stale_process_refused [of 2 sample_process 5] by simp
qed

end
