(* ===== verification/Codec.thy ===== *)
theory Codec
  imports O_Prelude
begin

text \<open>
  Byte-level vocabulary of the wire formats: big-endian integers (\<open>to_be_bytes\<close>,
  \<open>from_be_bytes\<close>), the UTF-8 check of \<open>std::str::from_utf8\<close>, strings as bytes, and the two
  contracts a strict codec promises. \<open>field_codec\<close> is a field that is read from a cursor;
  \<open>record_codec\<close> is a complete record that must use all of its input. In both, decoding accepts
  exactly the encodings of valid values.
\<close>

section \<open>Big-endian integers\<close>

primrec be_bytes :: "nat \<Rightarrow> nat \<Rightarrow> bytes" where
  "be_bytes 0 n = []"
| "be_bytes (Suc k) n = be_bytes k (n div 256) @ [of_nat n]"

definition be_nat :: "bytes \<Rightarrow> nat" where
  "be_nat bs = foldl (\<lambda>acc b. acc * 256 + unat b) 0 bs"

lemma be_nat_Nil [simp]: "be_nat [] = 0"
  by (simp add: be_nat_def)

lemma be_nat_snoc: "be_nat (bs @ [b]) = be_nat bs * 256 + unat b"
  by (simp add: be_nat_def)

lemma length_be_bytes [simp]: "length (be_bytes k n) = k"
  by (induction k arbitrary: n) simp_all

lemma unat_u8_less: "unat (b :: u8) < 256"
proof -
  have "unat b < 2 ^ LENGTH(8)" by (rule unsigned_less)
  then show ?thesis by simp
qed

lemma unat_u8_of_nat: "unat (of_nat n :: u8) = n mod 256"
  by (simp add: unat_of_nat)

lemma be_nat_be_bytes: "be_nat (be_bytes k n) = n mod 256 ^ k"
proof (induction k arbitrary: n)
  case (Suc k)
  then show ?case
    by (simp add: be_nat_snoc unat_u8_of_nat mod_mult2_eq [of n 256 "256 ^ k"] mult.commute)
qed simp

lemma be_nat_less: "be_nat bs < 256 ^ length bs"
proof (induction bs rule: rev_induct)
  case (snoc b bs)
  have "unat b < 256" by (rule unat_u8_less)
  with snoc show ?case by (simp add: be_nat_snoc)
qed simp

lemma u8_of_nat_carry: "(of_nat (a * 256 + unat b) :: u8) = b"
proof -
  have "unat b < 256" by (rule unat_u8_less)
  then have "unat (of_nat (a * 256 + unat b) :: u8) = unat b" by (simp only: unat_u8_of_nat) simp
  then show ?thesis by (simp only: word_unat_eq_iff)
qed

lemma be_bytes_be_nat: "be_bytes (length bs) (be_nat bs) = bs"
proof (induction bs rule: rev_induct)
  case (snoc b bs)
  have "unat b < 256" by (rule unat_u8_less)
  then show ?case using snoc by (simp add: be_nat_snoc u8_of_nat_carry del: of_nat_add of_nat_mult)
qed simp

definition put_u16 :: "u16 \<Rightarrow> bytes" where "put_u16 v = be_bytes 2 (unat v)"
definition put_u32 :: "u32 \<Rightarrow> bytes" where "put_u32 v = be_bytes 4 (unat v)"
definition put_u64 :: "u64 \<Rightarrow> bytes" where "put_u64 v = be_bytes 8 (unat v)"

definition read_u16_at :: "nat \<Rightarrow> bytes \<Rightarrow> u16" where
  "read_u16_at i bs = of_nat (be_nat (take 2 (drop i bs)))"

definition read_u32_at :: "nat \<Rightarrow> bytes \<Rightarrow> u32" where
  "read_u32_at i bs = of_nat (be_nat (take 4 (drop i bs)))"

lemma be_word:
  assumes "LENGTH('a::len) = 8 * k"
  shows "(of_nat (be_nat (be_bytes k (unat w))) :: 'a word) = w"
    and "length v = k \<Longrightarrow> be_bytes k (unat (of_nat (be_nat v) :: 'a word)) = v"
proof -
  have pow: "(2 :: nat) ^ LENGTH('a) = 256 ^ k" by (simp add: assms power_mult)
  have "unat w < 256 ^ k" using unsigned_less [of w, where ?'a = nat] by (simp add: pow)
  then show "(of_nat (be_nat (be_bytes k (unat w))) :: 'a word) = w"
    by (simp add: be_nat_be_bytes)
  assume "length v = k"
  then show "be_bytes k (unat (of_nat (be_nat v) :: 'a word)) = v"
    using be_nat_less [of v] be_bytes_be_nat [of v] by (simp add: unat_of_nat pow)
qed

lemmas be_word_sizes =
  be_word [where ?'a = 16 and k = 2, simplified] be_word [where ?'a = 32 and k = 4, simplified]
  be_word [where ?'a = 64 and k = 8, simplified]

lemma length_put [simp]:
  "length (put_u16 a) = 2" "length (put_u32 b) = 4" "length (put_u64 c) = 8"
  by (simp_all add: put_u16_def put_u32_def put_u64_def)

lemma read_at_iff:
  "i + 2 \<le> length bs \<Longrightarrow> read_u16_at i bs = v \<longleftrightarrow> take 2 (drop i bs) = put_u16 v"
  "i + 4 \<le> length bs \<Longrightarrow> read_u32_at i bs = w \<longleftrightarrow> take 4 (drop i bs) = put_u32 w"
  by (auto simp: read_u16_at_def read_u32_at_def put_u16_def put_u32_def be_word_sizes)

lemma put_read:
  "i + 2 \<le> length bs \<Longrightarrow> put_u16 (read_u16_at i bs) = take 2 (drop i bs)"
  "i + 4 \<le> length bs \<Longrightarrow> put_u32 (read_u32_at i bs) = take 4 (drop i bs)"
  using read_at_iff [of i bs] by metis+

text \<open>The common header: magic, version, kind and total length, then the payload.\<close>

definition frame :: "bytes \<Rightarrow> u16 \<Rightarrow> u16 \<Rightarrow> u32 \<Rightarrow> bytes \<Rightarrow> bytes" where
  "frame magic version kind len payload =
     magic @ put_u16 version @ put_u16 kind @ put_u32 len @ payload"

lemma frame_parts:
  assumes "length magic = 8"
  shows "take 8 (frame magic version kind len payload) = magic"
    "take 2 (drop 8 (frame magic version kind len payload)) = put_u16 version"
    "take 2 (drop 10 (frame magic version kind len payload)) = put_u16 kind"
    "take 4 (drop 12 (frame magic version kind len payload)) = put_u32 len"
    "drop 16 (frame magic version kind len payload) = payload"
    "length (frame magic version kind len payload) = 16 + length payload"
  using assms by (simp_all add: frame_def)

lemma frame_iff:
  assumes "length magic = 8" and "16 \<le> length bs"
  shows "take 8 bs = magic \<and> read_u16_at 8 bs = version \<and> read_u16_at 10 bs = kind \<and>
    read_u32_at 12 bs = len \<longleftrightarrow> bs = frame magic version kind len (drop 16 bs)"
proof -
  have "bs = take 8 bs @ take 2 (drop 8 bs) @ take 2 (drop 10 bs) @ take 4 (drop 12 bs) @ drop 16 bs"
    using append_take_drop_id [of 8 bs] append_take_drop_id [of 2 "drop 8 bs"]
      append_take_drop_id [of 2 "drop 10 bs"] append_take_drop_id [of 4 "drop 12 bs"]
    by (simp del: append_take_drop_id)
  then have "bs = frame magic version kind len (drop 16 bs)"
    if "take 8 bs = magic" "take 2 (drop 8 bs) = put_u16 version" "take 2 (drop 10 bs) = put_u16 kind"
      "take 4 (drop 12 bs) = put_u32 len"
    using that by (simp add: frame_def)
  moreover have "take 8 bs = magic \<and> take 2 (drop 8 bs) = put_u16 version \<and>
      take 2 (drop 10 bs) = put_u16 kind \<and> take 4 (drop 12 bs) = put_u32 len"
    if "bs = frame magic version kind len (drop 16 bs)"
    using that frame_parts(1-4) [OF assms(1)] by metis
  ultimately show ?thesis using assms(2) by (auto simp: read_at_iff)
qed

section \<open>Appending results\<close>

definition append_ok :: "'e + bytes \<Rightarrow> 'e + bytes \<Rightarrow> 'e + bytes" where
  "append_ok a b = and_then a (\<lambda>x. and_then b (\<lambda>y. Inr (x @ y)))"

lemma append_ok_iff [result_simps]:
  "append_ok a b = Inr c \<longleftrightarrow> (\<exists>x y. a = Inr x \<and> b = Inr y \<and> c = x @ y)"
  by (auto simp: append_ok_def and_then_eq_Inr)

lemma append_ok_total: "\<exists>x. a = Inr x \<Longrightarrow> \<exists>y. b = Inr y \<Longrightarrow> \<exists>c. append_ok a b = Inr c"
  by (auto simp: result_simps)

section \<open>Text\<close>

definition utf8_cont :: "u8 \<Rightarrow> bool" where
  "utf8_cont b \<longleftrightarrow> 128 \<le> b \<and> b \<le> 191"

text \<open>The well-formed sequences: no overlong forms, no surrogates, nothing above U+10FFFF.\<close>

fun utf8_ok :: "bytes \<Rightarrow> bool" where
  "utf8_ok [] \<longleftrightarrow> True"
| "utf8_ok (b # bs) \<longleftrightarrow>
     (if b < 128 then utf8_ok bs
      else case bs of [] \<Rightarrow> False | c # cs \<Rightarrow>
        if 194 \<le> b \<and> b \<le> 223 then utf8_cont c \<and> utf8_ok cs
        else case cs of [] \<Rightarrow> False | d # ds \<Rightarrow>
          if b = 224 then 160 \<le> c \<and> c \<le> 191 \<and> utf8_cont d \<and> utf8_ok ds
          else if 225 \<le> b \<and> b \<le> 236 \<or> b = 238 \<or> b = 239
            then utf8_cont c \<and> utf8_cont d \<and> utf8_ok ds
          else if b = 237 then 128 \<le> c \<and> c \<le> 159 \<and> utf8_cont d \<and> utf8_ok ds
          else case ds of [] \<Rightarrow> False | e # es \<Rightarrow>
            if b = 240 then 144 \<le> c \<and> c \<le> 191 \<and> utf8_cont d \<and> utf8_cont e \<and> utf8_ok es
            else if 241 \<le> b \<and> b \<le> 243
              then utf8_cont c \<and> utf8_cont d \<and> utf8_cont e \<and> utf8_ok es
            else if b = 244 then 128 \<le> c \<and> c \<le> 143 \<and> utf8_cont d \<and> utf8_cont e \<and> utf8_ok es
            else False)"

definition str_bytes :: "string \<Rightarrow> bytes" where
  "str_bytes s = map (\<lambda>c. of_nat (of_char c)) s"

definition bytes_str :: "bytes \<Rightarrow> string" where
  "bytes_str bs = map (\<lambda>b. char_of (unat b)) bs"

lemma length_str_bytes [simp]: "length (str_bytes s) = length s"
  by (simp add: str_bytes_def)

lemma length_bytes_str [simp]: "length (bytes_str bs) = length bs"
  by (simp add: bytes_str_def)

lemma of_char_less_256: "(of_char c :: nat) < 256"
  by (metis of_char_mod_256 mod_less_divisor zero_less_numeral)

lemma bytes_str_str_bytes [simp]: "bytes_str (str_bytes s) = s"
  by (simp add: bytes_str_def str_bytes_def comp_def unat_u8_of_nat of_char_less_256 map_idI)

lemma str_bytes_bytes_str [simp]: "str_bytes (bytes_str bs) = bs"
  by (simp add: bytes_str_def str_bytes_def comp_def unat_u8_less map_idI)

lemma str_bytes_inject [simp]: "str_bytes s = str_bytes t \<longleftrightarrow> s = t"
  by (metis bytes_str_str_bytes)

lemma utf8_ascii: "list_all (\<lambda>b. b < 128) bs \<Longrightarrow> utf8_ok bs"
  by (induction bs) simp_all

lemma utf8_ascii_string:
  "(\<And>c. c \<in> set s \<Longrightarrow> (of_char c :: nat) < 128) \<Longrightarrow> utf8_ok (str_bytes s)"
  by (rule utf8_ascii)
    (auto simp: str_bytes_def list_all_iff word_less_nat_alt unat_u8_of_nat intro: le_less_trans)

section \<open>Codec contracts\<close>

locale field_codec =
  fixes enc :: "'a \<Rightarrow> 'e + bytes"
    and dec :: "bytes \<Rightarrow> 'e + 'a \<times> bytes"
    and valid :: "'a \<Rightarrow> bool"
  assumes dec_iff: "dec bs = Inr (x, rest) \<longleftrightarrow> valid x \<and> (\<exists>b. enc x = Inr b \<and> bs = b @ rest)"
    and enc_total: "valid x \<Longrightarrow> \<exists>b. enc x = Inr b"
begin

lemma dec_enc: "valid x \<Longrightarrow> enc x = Inr b \<Longrightarrow> dec (b @ rest) = Inr (x, rest)"
  by (simp add: dec_iff)

lemma prefix_free:
  "valid x \<Longrightarrow> valid y \<Longrightarrow> enc x = Inr b \<Longrightarrow> enc y = Inr c \<Longrightarrow> b @ r = c @ s \<Longrightarrow> x = y \<and> r = s"
  using dec_enc [of x b r] dec_enc [of y c s] by simp

lemma enc_inject: "valid x \<Longrightarrow> valid y \<Longrightarrow> enc x = enc y \<Longrightarrow> x = y"
  using enc_total prefix_free by metis

end

locale record_codec =
  fixes enc :: "'a \<Rightarrow> 'e + bytes"
    and dec :: "bytes \<Rightarrow> 'e + 'a"
    and valid :: "'a \<Rightarrow> bool"
  assumes dec_iff: "dec bs = Inr x \<longleftrightarrow> valid x \<and> enc x = Inr bs"
begin

lemma dec_enc: "valid x \<Longrightarrow> enc x = Inr bs \<Longrightarrow> dec bs = Inr x"
  by (simp add: dec_iff)

lemma canonical: "dec bs = Inr x \<Longrightarrow> enc x = Inr bs"
  by (simp add: dec_iff)

lemma dec_inject: "dec bs = Inr x \<Longrightarrow> dec cs = Inr x \<Longrightarrow> bs = cs"
  by (simp add: dec_iff)

lemma enc_inject: "valid x \<Longrightarrow> valid y \<Longrightarrow> enc x = Inr bs \<Longrightarrow> enc y = Inr bs \<Longrightarrow> x = y"
  using dec_enc by (metis sum.inject(2))

end

end
