(* ===== verification/Identity_Wire.thy ===== *)
theory Identity_Wire
  imports World_Identity Codec
begin

text \<open>
  Identity records (\<open>world/identity_wire.rs\<close>): a fixed header, a kind, and a payload of
  length-prefixed names and big-endian counters, at most 1024 bytes. A cursor is the list of the
  bytes that remain. Encoders return the bytes they append; an error anywhere aborts the record.
\<close>

section \<open>Vocabulary\<close>

datatype identity_wire_error =
    IdRecordTooLarge nat nat
  | IdTruncated nat nat
  | IdBadMagic
  | IdUnsupportedVersion u16
  | IdUnknownKind u16
  | IdLengthMismatch nat nat
  | InvalidUtf8
  | TextTooLong
  | UnknownResourceOwner u16
  | TrailingBytes nat
  | InvalidIdentity world_identity_error

definition IDENTITY_WIRE_MAGIC :: bytes where
  "IDENTITY_WIRE_MAGIC = [79, 87, 73, 68, 69, 78, 84, 0]"

definition IDENTITY_WIRE_VERSION :: u16 where "IDENTITY_WIRE_VERSION = 1"
definition IDENTITY_WIRE_HEADER_BYTES :: nat where "IDENTITY_WIRE_HEADER_BYTES = 16"
definition MAX_IDENTITY_WIRE_RECORD_BYTES :: nat where "MAX_IDENTITY_WIRE_RECORD_BYTES = 1024"

datatype identity_wire_kind =
    WorldK | GovernorK | NodeK | DomainK | ProcessK | ResourceK | ObjectK | CapabilityK | LeaseK
  | TaskK | AttemptK | CheckpointK | ReceiptK

fun identity_kind_code :: "identity_wire_kind \<Rightarrow> u16" where
  "identity_kind_code WorldK = 1"
| "identity_kind_code GovernorK = 2"
| "identity_kind_code NodeK = 3"
| "identity_kind_code DomainK = 4"
| "identity_kind_code ProcessK = 5"
| "identity_kind_code ResourceK = 6"
| "identity_kind_code ObjectK = 7"
| "identity_kind_code CapabilityK = 8"
| "identity_kind_code LeaseK = 9"
| "identity_kind_code TaskK = 10"
| "identity_kind_code AttemptK = 11"
| "identity_kind_code CheckpointK = 12"
| "identity_kind_code ReceiptK = 13"

definition identity_kind_from_u16 :: "u16 \<Rightarrow> identity_wire_error + identity_wire_kind" where
  "identity_kind_from_u16 v =
     (if v = 1 then Inr WorldK else if v = 2 then Inr GovernorK else if v = 3 then Inr NodeK
      else if v = 4 then Inr DomainK else if v = 5 then Inr ProcessK
      else if v = 6 then Inr ResourceK else if v = 7 then Inr ObjectK
      else if v = 8 then Inr CapabilityK else if v = 9 then Inr LeaseK
      else if v = 10 then Inr TaskK else if v = 11 then Inr AttemptK
      else if v = 12 then Inr CheckpointK else if v = 13 then Inr ReceiptK
      else Inl (IdUnknownKind v))"

datatype identity_wire_record =
    WorldR world_identity
  | GovernorR governor_identity
  | NodeR node_identity
  | DomainR domain_identity
  | ProcessR process_identity
  | ResourceR resource_identity
  | ObjectR object_identity
  | CapabilityR capability_identity
  | LeaseR lease_identity
  | TaskR task_identity
  | AttemptR attempt_identity
  | CheckpointR checkpoint_identity
  | ReceiptR receipt_identity

fun identity_kind :: "identity_wire_record \<Rightarrow> identity_wire_kind" where
  "identity_kind (WorldR _) = WorldK"
| "identity_kind (GovernorR _) = GovernorK"
| "identity_kind (NodeR _) = NodeK"
| "identity_kind (DomainR _) = DomainK"
| "identity_kind (ProcessR _) = ProcessK"
| "identity_kind (ResourceR _) = ResourceK"
| "identity_kind (ObjectR _) = ObjectK"
| "identity_kind (CapabilityR _) = CapabilityK"
| "identity_kind (LeaseR _) = LeaseK"
| "identity_kind (TaskR _) = TaskK"
| "identity_kind (AttemptR _) = AttemptK"
| "identity_kind (CheckpointR _) = CheckpointK"
| "identity_kind (ReceiptR _) = ReceiptK"

section \<open>Encoding\<close>

definition put_text :: "string \<Rightarrow> identity_wire_error + bytes" where
  "put_text v =
     (if length v \<ge> 65536 then Inl TextTooLong
      else Inr (put_u16 (of_nat (length v)) @ str_bytes v))"

definition put_counter :: "u64 \<Rightarrow> identity_wire_error + bytes" where
  "put_counter v = Inr (put_u64 v)"

definition encode_world :: "world_identity \<Rightarrow> identity_wire_error + bytes" where
  "encode_world w = append_ok (put_text (wi_world w)) (put_counter (wi_epoch w))"

definition encode_node :: "node_identity \<Rightarrow> identity_wire_error + bytes" where
  "encode_node n =
     append_ok (put_text (ni_world n))
       (append_ok (put_text (ni_node n)) (put_counter (ni_generation n)))"

definition encode_domain :: "domain_identity \<Rightarrow> identity_wire_error + bytes" where
  "encode_domain d =
     append_ok (encode_node (di_node d))
       (append_ok (put_text (di_domain d)) (put_counter (di_generation d)))"

definition encode_process :: "process_identity \<Rightarrow> identity_wire_error + bytes" where
  "encode_process p =
     append_ok (encode_domain (pi_domain p))
       (append_ok (put_text (pi_process p)) (put_counter (pi_generation p)))"

definition encode_attempt :: "attempt_identity \<Rightarrow> identity_wire_error + bytes" where
  "encode_attempt a =
     append_ok (put_text (ai_world a))
       (append_ok (put_text (ai_task a)) (put_counter (ai_attempt a)))"

fun encode_owner :: "resource_owner \<Rightarrow> identity_wire_error + bytes" where
  "encode_owner (WorldOwner w) = append_ok (Inr (put_u16 1)) (encode_world w)"
| "encode_owner (NodeOwner n) = append_ok (Inr (put_u16 2)) (encode_node n)"
| "encode_owner (DomainOwner d) = append_ok (Inr (put_u16 3)) (encode_domain d)"
| "encode_owner (ProcessOwner p) = append_ok (Inr (put_u16 4)) (encode_process p)"

definition encode_resource :: "resource_identity \<Rightarrow> identity_wire_error + bytes" where
  "encode_resource r =
     append_ok (encode_owner (ri_owner r))
       (append_ok (put_text (ri_resource r)) (put_counter (ri_generation r)))"

fun identity_payload :: "identity_wire_record \<Rightarrow> identity_wire_error + bytes" where
  "identity_payload (WorldR w) = encode_world w"
| "identity_payload (GovernorR g) =
     append_ok (encode_world (gi_world g))
       (append_ok (put_counter (gi_term g)) (put_counter (gi_log_index g)))"
| "identity_payload (NodeR n) = encode_node n"
| "identity_payload (DomainR d) = encode_domain d"
| "identity_payload (ProcessR p) = encode_process p"
| "identity_payload (ResourceR r) = encode_resource r"
| "identity_payload (ObjectR x) =
     append_ok (put_text (oi_world x))
       (append_ok (put_text (oi_object x)) (put_counter (oi_version x)))"
| "identity_payload (CapabilityR c) = append_ok (put_text (ci_world c)) (put_text (ci_capability c))"
| "identity_payload (LeaseR l) = append_ok (put_text (li_world l)) (put_text (li_lease l))"
| "identity_payload (TaskR t) = append_ok (put_text (ti_world t)) (put_text (ti_task t))"
| "identity_payload (AttemptR a) = encode_attempt a"
| "identity_payload (CheckpointR k) =
     append_ok (encode_attempt (ki_attempt k)) (put_text (ki_checkpoint k))"
| "identity_payload (ReceiptR r) =
     append_ok (put_text (ci_receipt_world r)) (put_text (ci_receipt r))"

definition identity_encode :: "identity_wire_record \<Rightarrow> identity_wire_error + bytes" where
  "identity_encode r =
     and_then (identity_payload r) (\<lambda>payload.
       let total = IDENTITY_WIRE_HEADER_BYTES + length payload in
       if total > MAX_IDENTITY_WIRE_RECORD_BYTES
       then Inl (IdRecordTooLarge total MAX_IDENTITY_WIRE_RECORD_BYTES)
       else Inr (frame IDENTITY_WIRE_MAGIC IDENTITY_WIRE_VERSION
                   (identity_kind_code (identity_kind r)) (of_nat total) payload))"

section \<open>Decoding\<close>

definition cursor_take :: "nat \<Rightarrow> bytes \<Rightarrow> identity_wire_error + bytes \<times> bytes" where
  "cursor_take n bs =
     (if length bs < n then Inl (IdTruncated n (length bs)) else Inr (take n bs, drop n bs))"

definition take_u16 :: "bytes \<Rightarrow> identity_wire_error + u16 \<times> bytes" where
  "take_u16 bs = and_then (cursor_take 2 bs) (\<lambda>(v, r). Inr (of_nat (be_nat v), r))"

definition take_u64 :: "bytes \<Rightarrow> identity_wire_error + u64 \<times> bytes" where
  "take_u64 bs = and_then (cursor_take 8 bs) (\<lambda>(v, r). Inr (of_nat (be_nat v), r))"

definition take_text :: "bytes \<Rightarrow> identity_wire_error + string \<times> bytes" where
  "take_text bs =
     and_then (take_u16 bs) (\<lambda>(len, r).
     and_then (cursor_take (unat len) r) (\<lambda>(t, r').
     if utf8_ok t then Inr (bytes_str t, r') else Inl InvalidUtf8))"

definition lift_identity :: "world_identity_error + 'a \<Rightarrow> identity_wire_error + 'a" where
  "lift_identity r = (case r of Inl e \<Rightarrow> Inl (InvalidIdentity e) | Inr x \<Rightarrow> Inr x)"

definition read_simple :: "string \<Rightarrow> bytes \<Rightarrow> identity_wire_error + string \<times> bytes" where
  "read_simple kind bs =
     and_then (take_text bs) (\<lambda>(t, r).
     and_then (lift_identity (string_identity_new kind t)) (\<lambda>x. Inr (x, r)))"

definition read_resource :: "bytes \<Rightarrow> identity_wire_error + string \<times> bytes" where
  "read_resource bs =
     and_then (take_text bs) (\<lambda>(t, r).
     and_then (lift_identity (resource_id_new t)) (\<lambda>x. Inr (x, r)))"

definition read_counter :: "string \<Rightarrow> bytes \<Rightarrow> identity_wire_error + u64 \<times> bytes" where
  "read_counter kind bs =
     and_then (take_u64 bs) (\<lambda>(v, r).
     and_then (lift_identity (generation_new kind v)) (\<lambda>x. Inr (x, r)))"

definition decode_world :: "bytes \<Rightarrow> identity_wire_error + world_identity \<times> bytes" where
  "decode_world bs =
     and_then (read_simple ''world identity'' bs) (\<lambda>(w, r1).
     and_then (read_counter ''world epoch'' r1) (\<lambda>(e, r2).
     Inr (\<lparr>wi_world = w, wi_epoch = e\<rparr>, r2)))"

definition decode_node :: "bytes \<Rightarrow> identity_wire_error + node_identity \<times> bytes" where
  "decode_node bs =
     and_then (read_simple ''world identity'' bs) (\<lambda>(w, r1).
     and_then (read_simple ''node identity'' r1) (\<lambda>(n, r2).
     and_then (read_counter ''node generation'' r2) (\<lambda>(g, r3).
     Inr (\<lparr>ni_world = w, ni_node = n, ni_generation = g\<rparr>, r3))))"

definition decode_domain :: "bytes \<Rightarrow> identity_wire_error + domain_identity \<times> bytes" where
  "decode_domain bs =
     and_then (decode_node bs) (\<lambda>(n, r1).
     and_then (read_simple ''domain identity'' r1) (\<lambda>(d, r2).
     and_then (read_counter ''domain generation'' r2) (\<lambda>(g, r3).
     Inr (\<lparr>di_node = n, di_domain = d, di_generation = g\<rparr>, r3))))"

definition decode_process :: "bytes \<Rightarrow> identity_wire_error + process_identity \<times> bytes" where
  "decode_process bs =
     and_then (decode_domain bs) (\<lambda>(d, r1).
     and_then (read_simple ''process identity'' r1) (\<lambda>(p, r2).
     and_then (read_counter ''process generation'' r2) (\<lambda>(g, r3).
     Inr (\<lparr>pi_domain = d, pi_process = p, pi_generation = g\<rparr>, r3))))"

definition decode_attempt :: "bytes \<Rightarrow> identity_wire_error + attempt_identity \<times> bytes" where
  "decode_attempt bs =
     and_then (read_simple ''world identity'' bs) (\<lambda>(w, r1).
     and_then (read_simple ''task identity'' r1) (\<lambda>(t, r2).
     and_then (read_counter ''attempt generation'' r2) (\<lambda>(g, r3).
     Inr (\<lparr>ai_world = w, ai_task = t, ai_attempt = g\<rparr>, r3))))"

definition decode_owner :: "bytes \<Rightarrow> identity_wire_error + resource_owner \<times> bytes" where
  "decode_owner bs =
     and_then (take_u16 bs) (\<lambda>(tag, r).
     if tag = 1 then and_then (decode_world r) (\<lambda>(w, r'). Inr (WorldOwner w, r'))
     else if tag = 2 then and_then (decode_node r) (\<lambda>(n, r'). Inr (NodeOwner n, r'))
     else if tag = 3 then and_then (decode_domain r) (\<lambda>(d, r'). Inr (DomainOwner d, r'))
     else if tag = 4 then and_then (decode_process r) (\<lambda>(p, r'). Inr (ProcessOwner p, r'))
     else Inl (UnknownResourceOwner tag))"

definition decode_resource :: "bytes \<Rightarrow> identity_wire_error + resource_identity \<times> bytes" where
  "decode_resource bs =
     and_then (decode_owner bs) (\<lambda>(w, r1).
     and_then (read_resource r1) (\<lambda>(n, r2).
     and_then (read_counter ''resource generation'' r2) (\<lambda>(g, r3).
     Inr (\<lparr>ri_owner = w, ri_resource = n, ri_generation = g\<rparr>, r3))))"

definition decode_pair :: "string \<Rightarrow> bytes \<Rightarrow> identity_wire_error + (string \<times> string) \<times> bytes" where
  "decode_pair kind bs =
     and_then (read_simple ''world identity'' bs) (\<lambda>(w, r1).
     and_then (read_simple kind r1) (\<lambda>(x, r2). Inr ((w, x), r2)))"

fun decode_identity_payload ::
  "identity_wire_kind \<Rightarrow> bytes \<Rightarrow> identity_wire_error + identity_wire_record \<times> bytes" where
  "decode_identity_payload WorldK bs = and_then (decode_world bs) (\<lambda>(w, r). Inr (WorldR w, r))"
| "decode_identity_payload GovernorK bs =
     and_then (decode_world bs) (\<lambda>(w, r1).
     and_then (read_counter ''governor term'' r1) (\<lambda>(t, r2).
     and_then (read_counter ''governor log index'' r2) (\<lambda>(i, r3).
     Inr (GovernorR \<lparr>gi_world = w, gi_term = t, gi_log_index = i\<rparr>, r3))))"
| "decode_identity_payload NodeK bs = and_then (decode_node bs) (\<lambda>(n, r). Inr (NodeR n, r))"
| "decode_identity_payload DomainK bs = and_then (decode_domain bs) (\<lambda>(d, r). Inr (DomainR d, r))"
| "decode_identity_payload ProcessK bs =
     and_then (decode_process bs) (\<lambda>(p, r). Inr (ProcessR p, r))"
| "decode_identity_payload ResourceK bs =
     and_then (decode_resource bs) (\<lambda>(x, r). Inr (ResourceR x, r))"
| "decode_identity_payload ObjectK bs =
     and_then (decode_pair ''object identity'' bs) (\<lambda>((w, x), r1).
     and_then (read_counter ''object version'' r1) (\<lambda>(v, r2).
     Inr (ObjectR \<lparr>oi_world = w, oi_object = x, oi_version = v\<rparr>, r2)))"
| "decode_identity_payload CapabilityK bs =
     and_then (decode_pair ''capability identity'' bs) (\<lambda>((w, x), r).
     Inr (CapabilityR \<lparr>ci_world = w, ci_capability = x\<rparr>, r))"
| "decode_identity_payload LeaseK bs =
     and_then (decode_pair ''lease identity'' bs) (\<lambda>((w, x), r).
     Inr (LeaseR \<lparr>li_world = w, li_lease = x\<rparr>, r))"
| "decode_identity_payload TaskK bs =
     and_then (decode_pair ''task identity'' bs) (\<lambda>((w, x), r).
     Inr (TaskR \<lparr>ti_world = w, ti_task = x\<rparr>, r))"
| "decode_identity_payload AttemptK bs =
     and_then (decode_attempt bs) (\<lambda>(a, r). Inr (AttemptR a, r))"
| "decode_identity_payload CheckpointK bs =
     and_then (decode_attempt bs) (\<lambda>(a, r1).
     and_then (read_simple ''checkpoint identity'' r1) (\<lambda>(k, r2).
     Inr (CheckpointR \<lparr>ki_attempt = a, ki_checkpoint = k\<rparr>, r2)))"
| "decode_identity_payload ReceiptK bs =
     and_then (decode_pair ''receipt identity'' bs) (\<lambda>((w, x), r).
     Inr (ReceiptR \<lparr>ci_receipt_world = w, ci_receipt = x\<rparr>, r))"

definition identity_decode :: "bytes \<Rightarrow> identity_wire_error + identity_wire_record" where
  "identity_decode rec =
     and_then (ensure (length rec \<le> MAX_IDENTITY_WIRE_RECORD_BYTES)
                 (IdRecordTooLarge (length rec) MAX_IDENTITY_WIRE_RECORD_BYTES)) (\<lambda>_.
     and_then (ensure (IDENTITY_WIRE_HEADER_BYTES \<le> length rec)
                 (IdTruncated IDENTITY_WIRE_HEADER_BYTES (length rec))) (\<lambda>_.
     and_then (ensure (take 8 rec = IDENTITY_WIRE_MAGIC) IdBadMagic) (\<lambda>_.
     and_then (ensure (read_u16_at 8 rec = IDENTITY_WIRE_VERSION)
                 (IdUnsupportedVersion (read_u16_at 8 rec))) (\<lambda>_.
     and_then (identity_kind_from_u16 (read_u16_at 10 rec)) (\<lambda>kind.
     let declared = unat (read_u32_at 12 rec) in
     and_then (ensure (declared \<le> MAX_IDENTITY_WIRE_RECORD_BYTES)
                 (IdRecordTooLarge declared MAX_IDENTITY_WIRE_RECORD_BYTES)) (\<lambda>_.
     and_then (ensure (declared = length rec) (IdLengthMismatch declared (length rec))) (\<lambda>_.
     and_then (decode_identity_payload kind (drop IDENTITY_WIRE_HEADER_BYTES rec)) (\<lambda>(x, rest).
     and_then (ensure (rest = []) (TrailingBytes (length rest))) (\<lambda>_. Inr x)))))))))"

section \<open>Fields\<close>

lemma lift_identity_iff [result_simps]: "lift_identity r = Inr x \<longleftrightarrow> r = Inr x"
  by (simp add: lift_identity_def split: sum.splits)

lemma cursor_take_iff: "cursor_take n bs = Inr (v, r) \<longleftrightarrow> bs = v @ r \<and> length v = n"
  by (auto simp: cursor_take_def)

lemma take_u16_iff: "take_u16 bs = Inr (v, r) \<longleftrightarrow> bs = put_u16 v @ r"
  by (auto simp: take_u16_def put_u16_def and_then_eq_Inr cursor_take_iff be_word_sizes)

lemma take_u64_iff: "take_u64 bs = Inr (v, r) \<longleftrightarrow> bs = put_u64 v @ r"
  by (auto simp: take_u64_def put_u64_def and_then_eq_Inr cursor_take_iff be_word_sizes)

lemma take_text_iff:
  "take_text bs = Inr (t, r) \<longleftrightarrow> utf8_ok (str_bytes t) \<and> (\<exists>b. put_text t = Inr b \<and> bs = b @ r)"
proof
  assume "take_text bs = Inr (t, r)"
  then obtain len v r1 where bs: "bs = put_u16 len @ r1" "r1 = v @ r" "length v = unat len"
    "utf8_ok v" "t = bytes_str v"
    by (auto simp: take_text_def result_simps take_u16_iff cursor_take_iff split: if_splits)
  have "unat len < 65536" using unsigned_less [of len, where ?'a = nat] by simp
  moreover have "(of_nat (length v) :: u16) = len" using bs(3) by simp
  ultimately show "utf8_ok (str_bytes t) \<and> (\<exists>b. put_text t = Inr b \<and> bs = b @ r)"
    using bs by (simp add: put_text_def)
next
  assume "utf8_ok (str_bytes t) \<and> (\<exists>b. put_text t = Inr b \<and> bs = b @ r)"
  then have t: "utf8_ok (str_bytes t)" "length t < 65536"
    "bs = put_u16 (of_nat (length t)) @ str_bytes t @ r"
    by (auto simp: put_text_def split: if_splits)
  then have "take_u16 bs = Inr (of_nat (length t), str_bytes t @ r)"
    by (simp add: take_u16_iff)
  moreover have "cursor_take (length t) (str_bytes t @ r) = Inr (str_bytes t, r)"
    by (simp add: cursor_take_iff)
  moreover have "unat (of_nat (length t) :: u16) = length t" using t(2) by (simp add: unat_of_nat)
  ultimately show "take_text bs = Inr (t, r)" using t(1) by (simp add: take_text_def)
qed

lemma component_text:
  assumes "component_ok s"
  shows "utf8_ok (str_bytes s)" "\<exists>b. put_text s = Inr b"
proof -
  show "utf8_ok (str_bytes s)"
    using component_ok_char [OF assms] by (intro utf8_ascii_string) (auto intro: component_char_ascii)
  show "\<exists>b. put_text s = Inr b"
    using assms by (simp add: put_text_def component_ok_def MAX_SIMPLE_ID_BYTES_def)
qed

lemma resource_text:
  assumes "resource_ok s"
  shows "utf8_ok (str_bytes s)" "\<exists>b. put_text s = Inr b"
proof -
  show "utf8_ok (str_bytes s)"
    using resource_ok_char [OF assms]
    by (intro utf8_ascii_string) (fastforce dest: component_char_ascii)
  show "\<exists>b. put_text s = Inr b"
    using assms by (simp add: put_text_def resource_ok_def MAX_RESOURCE_ID_BYTES_def)
qed

interpretation simple_field: field_codec put_text "read_simple kind" component_ok for kind
  by unfold_locales
    (auto simp: read_simple_def result_simps take_text_iff component_text)

interpretation resource_field: field_codec put_text read_resource resource_ok
  by unfold_locales (auto simp: read_resource_def result_simps take_text_iff resource_text)

interpretation counter_field: field_codec put_counter "read_counter kind" "\<lambda>v. v \<noteq> 0" for kind
  by unfold_locales (auto simp: read_counter_def result_simps take_u64_iff put_counter_def)

lemmas field_iffs = simple_field.dec_iff resource_field.dec_iff counter_field.dec_iff

section \<open>Compound identities\<close>

lemma put_counter_total: "\<exists>b. put_counter v = Inr b"
  by (simp add: put_counter_def)

lemmas encode_totals = append_ok_total put_counter_total component_text(2)

text \<open>
  A compound field decodes exactly the concatenation of its parts: the contract of each part
  gives the contract of the whole.
\<close>

lemma decode_world_iff:
  "decode_world bs = Inr (x, r) \<longleftrightarrow>
     valid_world x \<and> (\<exists>b. encode_world x = Inr b \<and> bs = b @ r)"
  by (cases x) (auto simp: decode_world_def encode_world_def valid_world_def result_simps field_iffs)

interpretation world_field: field_codec encode_world decode_world valid_world
  by unfold_locales
    (rule decode_world_iff,
      auto simp: encode_world_def valid_world_def intro!: encode_totals)

lemma decode_node_iff:
  "decode_node bs = Inr (x, r) \<longleftrightarrow>
     valid_node x \<and> (\<exists>b. encode_node x = Inr b \<and> bs = b @ r)"
  by (cases x) (auto simp: decode_node_def encode_node_def valid_node_def result_simps field_iffs)

interpretation node_field: field_codec encode_node decode_node valid_node
  by unfold_locales
    (rule decode_node_iff,
      auto simp: encode_node_def valid_node_def intro!: encode_totals)

lemma decode_domain_iff:
  "decode_domain bs = Inr (x, r) \<longleftrightarrow>
     valid_domain x \<and> (\<exists>b. encode_domain x = Inr b \<and> bs = b @ r)"
  by (cases x) (auto simp: decode_domain_def encode_domain_def valid_domain_def result_simps
      field_iffs node_field.dec_iff)

interpretation domain_field: field_codec encode_domain decode_domain valid_domain
  by unfold_locales
    (rule decode_domain_iff,
      auto simp: encode_domain_def valid_domain_def intro!: encode_totals node_field.enc_total)

lemma decode_process_iff:
  "decode_process bs = Inr (x, r) \<longleftrightarrow>
     valid_process x \<and> (\<exists>b. encode_process x = Inr b \<and> bs = b @ r)"
  by (cases x) (auto simp: decode_process_def encode_process_def valid_process_def result_simps
      field_iffs domain_field.dec_iff)

interpretation process_field: field_codec encode_process decode_process valid_process
  by unfold_locales
    (rule decode_process_iff,
      auto simp: encode_process_def valid_process_def intro!: encode_totals domain_field.enc_total)

lemma decode_attempt_iff:
  "decode_attempt bs = Inr (x, r) \<longleftrightarrow>
     valid_attempt x \<and> (\<exists>b. encode_attempt x = Inr b \<and> bs = b @ r)"
  by (cases x) (auto simp: decode_attempt_def encode_attempt_def valid_attempt_def result_simps
      field_iffs)

interpretation attempt_field: field_codec encode_attempt decode_attempt valid_attempt
  by unfold_locales
    (rule decode_attempt_iff,
      auto simp: encode_attempt_def valid_attempt_def intro!: encode_totals)

lemmas part_iffs = field_iffs world_field.dec_iff node_field.dec_iff domain_field.dec_iff
  process_field.dec_iff attempt_field.dec_iff take_u16_iff

lemma put_u16_inject [simp]: "put_u16 a @ r = put_u16 b @ s \<longleftrightarrow> a = b \<and> r = s"
  by (metis Inr_inject Pair_inject take_u16_iff)

lemma encode_owner_tag:
  "encode_owner x = Inr b \<Longrightarrow> \<exists>tag s. b = put_u16 tag @ s"
  by (cases x) (auto simp: result_simps)

lemma decode_owner_iff:
  "decode_owner bs = Inr (x, r) \<longleftrightarrow>
     valid_owner x \<and> (\<exists>b. encode_owner x = Inr b \<and> bs = b @ r)"
proof (cases "\<exists>tag s. bs = put_u16 tag @ s")
  case False
  then have "\<nexists>v. take_u16 bs = Inr v" by (auto simp: take_u16_iff)
  moreover have "\<nexists>b. encode_owner x = Inr b \<and> bs = b @ r"
    using False encode_owner_tag [of x] by force
  ultimately show ?thesis by (auto simp: decode_owner_def result_simps)
next
  case True
  then obtain tag s where bs: "bs = put_u16 tag @ s" by blast
  then have "take_u16 bs = Inr (tag, s)" by (simp add: take_u16_iff)
  then show ?thesis
    unfolding decode_owner_def
    by (cases x) (auto simp: bs result_simps part_iffs split: if_splits)
qed

interpretation owner_field: field_codec encode_owner decode_owner valid_owner
proof unfold_locales
  fix x assume "valid_owner x"
  then show "\<exists>b. encode_owner x = Inr b"
    by (cases x) (auto intro!: append_ok_total world_field.enc_total node_field.enc_total
        domain_field.enc_total process_field.enc_total)
qed (rule decode_owner_iff)

lemma decode_resource_iff:
  "decode_resource bs = Inr (x, r) \<longleftrightarrow>
     valid_resource x \<and> (\<exists>b. encode_resource x = Inr b \<and> bs = b @ r)"
  by (cases x) (auto simp: decode_resource_def encode_resource_def valid_resource_def result_simps
      field_iffs owner_field.dec_iff)

interpretation resource_id_field: field_codec encode_resource decode_resource valid_resource
  by unfold_locales
    (rule decode_resource_iff,
      auto simp: encode_resource_def valid_resource_def intro!: encode_totals resource_text(2) owner_field.enc_total)

lemma decode_pair_iff:
  "decode_pair kind bs = Inr ((w, x), r) \<longleftrightarrow>
     component_ok w \<and> component_ok x \<and>
     (\<exists>b. append_ok (put_text w) (put_text x) = Inr b \<and> bs = b @ r)"
  by (auto simp: decode_pair_def result_simps field_iffs)

section \<open>Records\<close>

fun valid_identity_record :: "identity_wire_record \<Rightarrow> bool" where
  "valid_identity_record (WorldR w) \<longleftrightarrow> valid_world w"
| "valid_identity_record (GovernorR g) \<longleftrightarrow> valid_governor g"
| "valid_identity_record (NodeR n) \<longleftrightarrow> valid_node n"
| "valid_identity_record (DomainR d) \<longleftrightarrow> valid_domain d"
| "valid_identity_record (ProcessR p) \<longleftrightarrow> valid_process p"
| "valid_identity_record (ResourceR r) \<longleftrightarrow> valid_resource r"
| "valid_identity_record (ObjectR x) \<longleftrightarrow>
     component_ok (oi_world x) \<and> component_ok (oi_object x) \<and> oi_version x \<noteq> 0"
| "valid_identity_record (CapabilityR c) \<longleftrightarrow> component_ok (ci_world c) \<and> component_ok (ci_capability c)"
| "valid_identity_record (LeaseR l) \<longleftrightarrow> component_ok (li_world l) \<and> component_ok (li_lease l)"
| "valid_identity_record (TaskR t) \<longleftrightarrow> component_ok (ti_world t) \<and> component_ok (ti_task t)"
| "valid_identity_record (AttemptR a) \<longleftrightarrow> valid_attempt a"
| "valid_identity_record (CheckpointR k) \<longleftrightarrow>
     valid_attempt (ki_attempt k) \<and> component_ok (ki_checkpoint k)"
| "valid_identity_record (ReceiptR r) \<longleftrightarrow> component_ok (ci_receipt_world r) \<and> component_ok (ci_receipt r)"

lemma identity_kind_from_u16_iff [result_simps]:
  "identity_kind_from_u16 v = Inr k \<longleftrightarrow> v = identity_kind_code k"
  by (cases k) (auto simp: identity_kind_from_u16_def)

lemma decode_identity_payload_iff:
  "decode_identity_payload k bs = Inr (x, r) \<longleftrightarrow>
     k = identity_kind x \<and> valid_identity_record x \<and>
     (\<exists>b. identity_payload x = Inr b \<and> bs = b @ r)"
proof (cases x)
  case (GovernorR g)
  then show ?thesis
    by (cases g; cases k) (auto simp: result_simps part_iffs valid_governor_def decode_pair_iff)
next
  case (ObjectR y)
  then show ?thesis
    by (cases y; cases k) (auto simp: result_simps part_iffs decode_pair_iff)
next
  case (CapabilityR y)
  then show ?thesis
    by (cases y; cases k) (auto simp: result_simps part_iffs decode_pair_iff)
next
  case (LeaseR y)
  then show ?thesis
    by (cases y; cases k) (auto simp: result_simps part_iffs decode_pair_iff)
next
  case (TaskR y)
  then show ?thesis
    by (cases y; cases k) (auto simp: result_simps part_iffs decode_pair_iff)
next
  case (CheckpointR y)
  then show ?thesis
    by (cases y; cases k) (auto simp: result_simps part_iffs decode_pair_iff)
next
  case (ReceiptR y)
  then show ?thesis
    by (cases y; cases k) (auto simp: result_simps part_iffs decode_pair_iff)
qed (cases k; auto simp: result_simps part_iffs resource_id_field.dec_iff decode_pair_iff)+

subsection \<open>Sizes\<close>

lemma put_text_length: "put_text s = Inr b \<Longrightarrow> length b = 2 + length s"
  by (auto simp: put_text_def split: if_splits)

lemma put_counter_length: "put_counter v = Inr b \<Longrightarrow> length b = 8"
  by (auto simp: put_counter_def)

lemma component_length: "component_ok s \<Longrightarrow> length s \<le> 128"
  by (simp add: component_ok_def MAX_SIMPLE_ID_BYTES_def)

lemma resource_length: "resource_ok s \<Longrightarrow> length s \<le> 256"
  by (simp add: resource_ok_def MAX_RESOURCE_ID_BYTES_def)

lemmas field_lengths = put_text_length put_counter_length component_length resource_length

lemma part_lengths:
  "valid_world w \<Longrightarrow> encode_world w = Inr b \<Longrightarrow> length b \<le> 138"
  "valid_node n \<Longrightarrow> encode_node n = Inr b \<Longrightarrow> length b \<le> 268"
  "valid_attempt a \<Longrightarrow> encode_attempt a = Inr b \<Longrightarrow> length b \<le> 268"
  by (auto simp: encode_world_def encode_node_def encode_attempt_def valid_identity_defs
      result_simps dest!: field_lengths)

lemma domain_length: "valid_domain d \<Longrightarrow> encode_domain d = Inr b \<Longrightarrow> length b \<le> 406"
  using part_lengths(2)
  by (fastforce simp: encode_domain_def valid_domain_def result_simps dest!: field_lengths)

lemma process_length: "valid_process p \<Longrightarrow> encode_process p = Inr b \<Longrightarrow> length b \<le> 544"
  using domain_length
  by (fastforce simp: encode_process_def valid_process_def result_simps dest!: field_lengths)

lemma owner_length: "valid_owner x \<Longrightarrow> encode_owner x = Inr b \<Longrightarrow> length b \<le> 546"
  by (cases x) (auto simp: result_simps dest!: part_lengths domain_length process_length)

lemma payload_length:
  assumes "valid_identity_record x" and "identity_payload x = Inr b"
  shows "length b \<le> 812"
proof (cases x)
  case (ResourceR r)
  then show ?thesis
    using assms owner_length
    by (fastforce simp: encode_resource_def valid_resource_def result_simps dest!: field_lengths)
qed (use assms in \<open>auto simp: result_simps valid_governor_def
      dest!: part_lengths domain_length process_length field_lengths\<close>)

lemma identity_payload_total:
  assumes "valid_identity_record x"
  shows "\<exists>b. identity_payload x = Inr b"
  using assms by (cases x)
    (auto simp: valid_governor_def intro!: encode_totals world_field.enc_total node_field.enc_total
      domain_field.enc_total process_field.enc_total attempt_field.enc_total
      resource_id_field.enc_total)

subsection \<open>The record contract\<close>

lemmas identity_consts = IDENTITY_WIRE_HEADER_BYTES_def MAX_IDENTITY_WIRE_RECORD_BYTES_def

lemma length_identity_magic [simp]: "length IDENTITY_WIRE_MAGIC = 8"
  by (simp add: IDENTITY_WIRE_MAGIC_def)

lemma u32_of_nat_unat: "unat (w :: u32) = n \<Longrightarrow> of_nat n = w"
  by auto

lemma unat_u32_of_nat: "n \<le> 65536 \<Longrightarrow> unat (of_nat n :: u32) = n"
  by (simp add: unat_of_nat)

lemma identity_encode_iff:
  "identity_encode x = Inr bs \<longleftrightarrow>
     (\<exists>payload. identity_payload x = Inr payload \<and> 16 + length payload \<le> 1024 \<and>
        bs = frame IDENTITY_WIRE_MAGIC IDENTITY_WIRE_VERSION (identity_kind_code (identity_kind x))
               (of_nat (16 + length payload)) payload)"
  by (cases "identity_payload x") (auto simp: identity_encode_def identity_consts Let_def)

lemma identity_decode_iff:
  "identity_decode bs = Inr x \<longleftrightarrow> valid_identity_record x \<and> identity_encode x = Inr bs"
proof -
  let ?magic = IDENTITY_WIRE_MAGIC and ?v = IDENTITY_WIRE_VERSION
    and ?k = "identity_kind_code (identity_kind x)"
  have "identity_decode bs = Inr x \<longleftrightarrow>
      length bs \<le> 1024 \<and> 16 \<le> length bs \<and>
      (take 8 bs = ?magic \<and> read_u16_at 8 bs = ?v \<and> read_u16_at 10 bs = ?k \<and>
       read_u32_at 12 bs = of_nat (length bs)) \<and>
      valid_identity_record x \<and> identity_payload x = Inr (drop 16 bs)"
  proof -
    have "unat (read_u32_at 12 bs) = length bs \<longleftrightarrow> read_u32_at 12 bs = of_nat (length bs)"
      if "length bs \<le> 1024"
    proof -
      have "unat (of_nat (length bs) :: u32) = length bs" using that by (simp add: unat_u32_of_nat)
      then show ?thesis by (metis u32_of_nat_unat)
    qed
    then show ?thesis
      unfolding identity_decode_def Let_def
      by (auto simp: result_simps identity_consts decode_identity_payload_iff)
  qed
  also have "\<dots> \<longleftrightarrow> length bs \<le> 1024 \<and> 16 \<le> length bs \<and>
      bs = frame ?magic ?v ?k (of_nat (length bs)) (drop 16 bs) \<and>
      valid_identity_record x \<and> identity_payload x = Inr (drop 16 bs)"
    using frame_iff [of ?magic bs ?v ?k "of_nat (length bs)"] by auto
  also have "\<dots> \<longleftrightarrow> valid_identity_record x \<and> identity_encode x = Inr bs"
    unfolding identity_encode_iff
    using frame_parts(5,6) [of ?magic] by auto
  finally show ?thesis .
qed

interpretation identity_record: record_codec identity_encode identity_decode valid_identity_record
  by unfold_locales (rule identity_decode_iff)

lemma identity_encode_total:
  assumes "valid_identity_record x"
  obtains bs where "identity_encode x = Inr bs" "length bs \<le> 828"
proof -
  obtain payload where p: "identity_payload x = Inr payload"
    using identity_payload_total [OF assms] by blast
  then have "length payload \<le> 812" using payload_length assms by blast
  with p show thesis
    by (intro that) (auto simp: identity_encode_iff frame_parts)
qed

section \<open>Properties\<close>

text \<open>
  C23. The identity format is strict: a byte string decodes to a record exactly when the record is
  valid and the string is its encoding. Every accepted string is therefore the only spelling of
  its record, and any change to an accepted string names another record or is refused.
\<close>

theorem identity_records_canonical:
  "identity_decode bs = Inr x \<longleftrightarrow> valid_identity_record x \<and> identity_encode x = Inr bs"
  by (rule identity_record.dec_iff)

text \<open>
  C24. Every valid identity has an encoding, well inside the record limit, and decoding returns it:
  the size check of the encoder never fires for identities the constructors can build.
\<close>

theorem identity_round_trip:
  assumes "valid_identity_record x"
  shows "\<exists>bs. identity_encode x = Inr bs \<and> length bs \<le> 828 \<and> identity_decode bs = Inr x"
  using identity_encode_total [OF assms] identity_record.dec_enc [OF assms] by metis

theorem identity_round_trip_witness:
  "\<exists>bs. identity_encode (ProcessR sample_process) = Inr bs \<and> length bs \<le> 828 \<and>
     identity_decode bs = Inr (ProcessR sample_process)"
proof (rule identity_round_trip)
  show "valid_identity_record (ProcessR sample_process)" by code_simp
qed

end
