(* ===== verification/World_Protocol.thy ===== *)
theory World_Protocol
  imports Identity_Wire
begin

text \<open>
  Schema negotiation and the World record envelope (\<open>world/protocol.rs\<close>, \<open>world/codec.rs\<close>).
  Negotiation is a function of two offers; an \<open>OWPROTO\<close> record carries an offer, a selection, a
  rejection or a nested identity record.
\<close>

section \<open>Negotiation\<close>

datatype world_protocol_error =
    ZeroSchemaVersion
  | InvertedSchemaRange u16 u16
  | RecordLimitTooSmall u32 u32
  | RecordLimitTooLarge u32 u32
  | NonCanonicalRejection
  | NonCanonicalRejectionForOffers
  | RejectionWithOverlap
  | NonCanonicalSelection u16 u32 u16 u32
  | SelectionWithoutOverlap

definition WORLD_SCHEMA_V1 :: u16 where "WORLD_SCHEMA_V1 = 1"
definition WORLD_WIRE_MIN_RECORD_BYTES :: u32 where "WORLD_WIRE_MIN_RECORD_BYTES = 24"
definition MAX_WORLD_WIRE_RECORD_BYTES :: u32 where "MAX_WORLD_WIRE_RECORD_BYTES = 16384"

record schema_offer =
  min_version :: u16
  max_version :: u16
  offer_record_bytes :: u32

record schema_selection =
  sel_version :: u16
  sel_record_bytes :: u32

datatype schema_rejection_reason = NoCommonVersion

record schema_rejection =
  rej_reason :: schema_rejection_reason
  local_min :: u16
  local_max :: u16
  peer_min :: u16
  peer_max :: u16

text \<open>A negotiated schema wraps a selection that negotiation produced.\<close>

record negotiated_schema =
  neg_selection :: schema_selection

datatype schema_negotiation = Selected negotiated_schema | Rejected schema_rejection

definition validate_range :: "u16 \<Rightarrow> u16 \<Rightarrow> world_protocol_error + unit" where
  "validate_range lo hi =
     (if lo = 0 \<or> hi = 0 then Inl ZeroSchemaVersion
      else if lo > hi then Inl (InvertedSchemaRange lo hi)
      else Inr ())"

definition validate_record_limit :: "u32 \<Rightarrow> world_protocol_error + unit" where
  "validate_record_limit n =
     (if n < WORLD_WIRE_MIN_RECORD_BYTES then Inl (RecordLimitTooSmall n WORLD_WIRE_MIN_RECORD_BYTES)
      else if n > MAX_WORLD_WIRE_RECORD_BYTES
        then Inl (RecordLimitTooLarge n MAX_WORLD_WIRE_RECORD_BYTES)
      else Inr ())"

definition ranges_overlap :: "u16 \<Rightarrow> u16 \<Rightarrow> u16 \<Rightarrow> u16 \<Rightarrow> bool" where
  "ranges_overlap lmin lmax pmin pmax \<longleftrightarrow> max lmin pmin \<le> min lmax pmax"

definition schema_offer_new :: "u16 \<Rightarrow> u16 \<Rightarrow> u32 \<Rightarrow> world_protocol_error + schema_offer" where
  "schema_offer_new lo hi n =
     and_then (validate_range lo hi) (\<lambda>_.
     and_then (validate_record_limit n) (\<lambda>_.
     Inr \<lparr>min_version = lo, max_version = hi, offer_record_bytes = n\<rparr>))"

definition schema_offer_v1 :: "u32 \<Rightarrow> world_protocol_error + schema_offer" where
  "schema_offer_v1 n = schema_offer_new WORLD_SCHEMA_V1 WORLD_SCHEMA_V1 n"

definition schema_selection_new :: "u16 \<Rightarrow> u32 \<Rightarrow> world_protocol_error + schema_selection" where
  "schema_selection_new v n =
     (if v = 0 then Inl ZeroSchemaVersion
      else and_then (validate_record_limit n) (\<lambda>_. Inr \<lparr>sel_version = v, sel_record_bytes = n\<rparr>))"

definition no_common_version ::
  "u16 \<Rightarrow> u16 \<Rightarrow> u16 \<Rightarrow> u16 \<Rightarrow> world_protocol_error + schema_rejection" where
  "no_common_version lmin lmax pmin pmax =
     and_then (validate_range lmin lmax) (\<lambda>_.
     and_then (validate_range pmin pmax) (\<lambda>_.
     if ranges_overlap lmin lmax pmin pmax then Inl NonCanonicalRejection
     else Inr \<lparr>rej_reason = NoCommonVersion, local_min = lmin, local_max = lmax,
               peer_min = pmin, peer_max = pmax\<rparr>))"

definition negotiate_schema :: "schema_offer \<Rightarrow> schema_offer \<Rightarrow> schema_negotiation" where
  "negotiate_schema l p =
     (let lower = max (min_version l) (min_version p);
          upper = min (max_version l) (max_version p)
      in if lower \<le> upper
         then Selected \<lparr>neg_selection = \<lparr>sel_version = upper,
                sel_record_bytes = min (offer_record_bytes l) (offer_record_bytes p)\<rparr>\<rparr>
         else Rejected \<lparr>rej_reason = NoCommonVersion, local_min = min_version l,
                local_max = max_version l, peer_min = min_version p, peer_max = max_version p\<rparr>)"

definition validate_selection ::
  "schema_offer \<Rightarrow> schema_offer \<Rightarrow> schema_selection \<Rightarrow> world_protocol_error + negotiated_schema" where
  "validate_selection l p s =
     (case negotiate_schema l p of
        Selected e \<Rightarrow>
          if neg_selection e = s then Inr e
          else Inl (NonCanonicalSelection (sel_version (neg_selection e))
                      (sel_record_bytes (neg_selection e)) (sel_version s) (sel_record_bytes s))
      | Rejected _ \<Rightarrow> Inl SelectionWithoutOverlap)"

definition validate_rejection ::
  "schema_offer \<Rightarrow> schema_offer \<Rightarrow> schema_rejection \<Rightarrow> world_protocol_error + unit" where
  "validate_rejection l p r =
     (case negotiate_schema l p of
        Rejected e \<Rightarrow> if e = r then Inr () else Inl NonCanonicalRejectionForOffers
      | Selected _ \<Rightarrow> Inl RejectionWithOverlap)"

section \<open>Records\<close>

datatype world_wire_kind = SchemaOfferK | SchemaSelectionK | SchemaRejectionK | IdentityDescriptionK

fun world_kind_code :: "world_wire_kind \<Rightarrow> u16" where
  "world_kind_code SchemaOfferK = 1"
| "world_kind_code SchemaSelectionK = 2"
| "world_kind_code SchemaRejectionK = 3"
| "world_kind_code IdentityDescriptionK = 16"

datatype world_codec_error =
    WRecordTooLarge nat nat
  | WRecordExceedsLimit nat u32
  | WTruncated nat nat
  | WBadMagic
  | WUnsupportedCodecVersion u16
  | WUnknownKind u16
  | WLengthMismatch nat nat
  | WInvalidPayloadLength world_wire_kind nat nat
  | WNonzeroReserved world_wire_kind u16
  | WUnsupportedPayloadSchema world_wire_kind u16
  | WUnsupportedNegotiatedSchema u16
  | WExpectedIdentityDescription world_wire_kind
  | WNonCanonicalIdentity
  | WProtocol world_protocol_error
  | WIdentity identity_wire_error

definition world_kind_from_u16 :: "u16 \<Rightarrow> world_codec_error + world_wire_kind" where
  "world_kind_from_u16 v =
     (if v = 1 then Inr SchemaOfferK else if v = 2 then Inr SchemaSelectionK
      else if v = 3 then Inr SchemaRejectionK else if v = 16 then Inr IdentityDescriptionK
      else Inl (WUnknownKind v))"

datatype world_wire_record =
    SchemaOfferRec schema_offer
  | SchemaSelectionRec schema_selection
  | SchemaRejectionRec schema_rejection
  | IdentityDescription identity_wire_record

fun world_kind :: "world_wire_record \<Rightarrow> world_wire_kind" where
  "world_kind (SchemaOfferRec _) = SchemaOfferK"
| "world_kind (SchemaSelectionRec _) = SchemaSelectionK"
| "world_kind (SchemaRejectionRec _) = SchemaRejectionK"
| "world_kind (IdentityDescription _) = IdentityDescriptionK"

definition WORLD_WIRE_MAGIC :: bytes where
  "WORLD_WIRE_MAGIC = [79, 87, 80, 82, 79, 84, 79, 0]"

definition WORLD_WIRE_CODEC_VERSION :: u16 where "WORLD_WIRE_CODEC_VERSION = 1"
definition WORLD_WIRE_HEADER_BYTES :: nat where "WORLD_WIRE_HEADER_BYTES = 16"
definition NEGOTIATION_PAYLOAD_BYTES :: nat where "NEGOTIATION_PAYLOAD_BYTES = 8"
definition IDENTITY_PREFIX_BYTES :: nat where "IDENTITY_PREFIX_BYTES = 4"

definition lift_protocol :: "world_protocol_error + 'a \<Rightarrow> world_codec_error + 'a" where
  "lift_protocol r = (case r of Inl e \<Rightarrow> Inl (WProtocol e) | Inr x \<Rightarrow> Inr x)"

definition lift_wire :: "identity_wire_error + 'a \<Rightarrow> world_codec_error + 'a" where
  "lift_wire r = (case r of Inl e \<Rightarrow> Inl (WIdentity e) | Inr x \<Rightarrow> Inr x)"

definition enforce_limit :: "nat \<Rightarrow> u32 \<Rightarrow> world_codec_error + unit" where
  "enforce_limit actual limit =
     (if actual > unat MAX_WORLD_WIRE_RECORD_BYTES
      then Inl (WRecordTooLarge actual (unat MAX_WORLD_WIRE_RECORD_BYTES))
      else if actual > unat limit then Inl (WRecordExceedsLimit actual limit)
      else Inr ())"

definition require_payload_len :: "world_wire_kind \<Rightarrow> bytes \<Rightarrow> nat \<Rightarrow> world_codec_error + unit" where
  "require_payload_len kind payload expected =
     (if length payload \<noteq> expected
      then Inl (WInvalidPayloadLength kind expected (length payload)) else Inr ())"

fun world_payload :: "world_wire_record \<Rightarrow> world_codec_error + bytes" where
  "world_payload (SchemaOfferRec s) =
     Inr (put_u16 (min_version s) @ put_u16 (max_version s) @ put_u32 (offer_record_bytes s))"
| "world_payload (SchemaSelectionRec s) =
     Inr (put_u16 (sel_version s) @ put_u16 0 @ put_u32 (sel_record_bytes s))"
| "world_payload (SchemaRejectionRec r) =
     Inr (put_u16 (local_min r) @ put_u16 (local_max r) @ put_u16 (peer_min r) @
          put_u16 (peer_max r))"
| "world_payload (IdentityDescription x) =
     append_ok (Inr (put_u16 WORLD_SCHEMA_V1 @ put_u16 0)) (lift_wire (identity_encode x))"

definition world_encode_with_limit :: "u32 \<Rightarrow> world_wire_record \<Rightarrow> world_codec_error + bytes" where
  "world_encode_with_limit limit r =
     and_then (world_payload r) (\<lambda>payload.
       let total = WORLD_WIRE_HEADER_BYTES + length payload in
       and_then (enforce_limit total limit) (\<lambda>_.
       Inr (frame WORLD_WIRE_MAGIC WORLD_WIRE_CODEC_VERSION (world_kind_code (world_kind r))
              (of_nat total) payload)))"

definition world_encode :: "world_wire_record \<Rightarrow> world_codec_error + bytes" where
  "world_encode r = world_encode_with_limit MAX_WORLD_WIRE_RECORD_BYTES r"

fun decode_world_payload :: "world_wire_kind \<Rightarrow> bytes \<Rightarrow> world_codec_error + world_wire_record" where
  "decode_world_payload SchemaOfferK payload =
     and_then (require_payload_len SchemaOfferK payload NEGOTIATION_PAYLOAD_BYTES) (\<lambda>_.
     and_then (lift_protocol (schema_offer_new (read_u16_at 0 payload) (read_u16_at 2 payload)
                 (read_u32_at 4 payload))) (\<lambda>s. Inr (SchemaOfferRec s)))"
| "decode_world_payload SchemaSelectionK payload =
     and_then (require_payload_len SchemaSelectionK payload NEGOTIATION_PAYLOAD_BYTES) (\<lambda>_.
     and_then (ensure (read_u16_at 2 payload = 0)
                 (WNonzeroReserved SchemaSelectionK (read_u16_at 2 payload))) (\<lambda>_.
     and_then (lift_protocol (schema_selection_new (read_u16_at 0 payload)
                 (read_u32_at 4 payload))) (\<lambda>s. Inr (SchemaSelectionRec s))))"
| "decode_world_payload SchemaRejectionK payload =
     and_then (require_payload_len SchemaRejectionK payload NEGOTIATION_PAYLOAD_BYTES) (\<lambda>_.
     and_then (lift_protocol (no_common_version (read_u16_at 0 payload) (read_u16_at 2 payload)
                 (read_u16_at 4 payload) (read_u16_at 6 payload))) (\<lambda>s. Inr (SchemaRejectionRec s)))"
| "decode_world_payload IdentityDescriptionK payload =
     and_then (ensure (IDENTITY_PREFIX_BYTES \<le> length payload)
                 (WTruncated IDENTITY_PREFIX_BYTES (length payload))) (\<lambda>_.
     and_then (ensure (read_u16_at 0 payload = WORLD_SCHEMA_V1)
                 (WUnsupportedPayloadSchema IdentityDescriptionK (read_u16_at 0 payload))) (\<lambda>_.
     and_then (ensure (read_u16_at 2 payload = 0)
                 (WNonzeroReserved IdentityDescriptionK (read_u16_at 2 payload))) (\<lambda>_.
     let nested = drop IDENTITY_PREFIX_BYTES payload in
     and_then (lift_wire (identity_decode nested)) (\<lambda>x.
     and_then (lift_wire (identity_encode x)) (\<lambda>again.
     and_then (ensure (again = nested) WNonCanonicalIdentity) (\<lambda>_.
     Inr (IdentityDescription x)))))))"

definition world_decode_with_limit :: "u32 \<Rightarrow> bytes \<Rightarrow> world_codec_error + world_wire_record" where
  "world_decode_with_limit limit rec =
     and_then (enforce_limit (length rec) limit) (\<lambda>_.
     and_then (ensure (WORLD_WIRE_HEADER_BYTES \<le> length rec)
                 (WTruncated WORLD_WIRE_HEADER_BYTES (length rec))) (\<lambda>_.
     and_then (ensure (take 8 rec = WORLD_WIRE_MAGIC) WBadMagic) (\<lambda>_.
     and_then (ensure (read_u16_at 8 rec = WORLD_WIRE_CODEC_VERSION)
                 (WUnsupportedCodecVersion (read_u16_at 8 rec))) (\<lambda>_.
     and_then (world_kind_from_u16 (read_u16_at 10 rec)) (\<lambda>kind.
     let declared = unat (read_u32_at 12 rec) in
     and_then (enforce_limit declared limit) (\<lambda>_.
     and_then (ensure (declared = length rec) (WLengthMismatch declared (length rec))) (\<lambda>_.
     decode_world_payload kind (drop WORLD_WIRE_HEADER_BYTES rec))))))))"

definition world_decode :: "bytes \<Rightarrow> world_codec_error + world_wire_record" where
  "world_decode rec = world_decode_with_limit MAX_WORLD_WIRE_RECORD_BYTES rec"

definition decode_identity_with_negotiated_schema ::
  "bytes \<Rightarrow> negotiated_schema \<Rightarrow> world_codec_error + identity_wire_record" where
  "decode_identity_with_negotiated_schema rec neg =
     (if sel_version (neg_selection neg) \<noteq> WORLD_SCHEMA_V1
      then Inl (WUnsupportedNegotiatedSchema (sel_version (neg_selection neg)))
      else and_then (world_decode_with_limit (sel_record_bytes (neg_selection neg)) rec) (\<lambda>r.
             case r of IdentityDescription x \<Rightarrow> Inr x
             | _ \<Rightarrow> Inl (WExpectedIdentityDescription (world_kind r))))"

section \<open>Valid values\<close>

definition range_ok :: "u16 \<Rightarrow> u16 \<Rightarrow> bool" where
  "range_ok lo hi \<longleftrightarrow> lo \<noteq> 0 \<and> lo \<le> hi"

definition limit_ok :: "u32 \<Rightarrow> bool" where
  "limit_ok n \<longleftrightarrow> WORLD_WIRE_MIN_RECORD_BYTES \<le> n \<and> n \<le> MAX_WORLD_WIRE_RECORD_BYTES"

definition offer_ok :: "schema_offer \<Rightarrow> bool" where
  "offer_ok s \<longleftrightarrow> range_ok (min_version s) (max_version s) \<and> limit_ok (offer_record_bytes s)"

fun valid_world_record :: "world_wire_record \<Rightarrow> bool" where
  "valid_world_record (SchemaOfferRec s) \<longleftrightarrow> offer_ok s"
| "valid_world_record (SchemaSelectionRec s) \<longleftrightarrow> sel_version s \<noteq> 0 \<and> limit_ok (sel_record_bytes s)"
| "valid_world_record (SchemaRejectionRec r) \<longleftrightarrow>
     range_ok (local_min r) (local_max r) \<and> range_ok (peer_min r) (peer_max r) \<and>
     \<not> ranges_overlap (local_min r) (local_max r) (peer_min r) (peer_max r)"
| "valid_world_record (IdentityDescription x) \<longleftrightarrow> valid_identity_record x"

lemma validate_range_iff [result_simps]: "validate_range lo hi = Inr u \<longleftrightarrow> range_ok lo hi"
proof -
  have "hi \<noteq> 0" if "lo \<noteq> 0" "lo \<le> hi" using that by auto
  then show ?thesis by (auto simp: validate_range_def range_ok_def)
qed

lemma validate_record_limit_iff [result_simps]: "validate_record_limit n = Inr u \<longleftrightarrow> limit_ok n"
  by (auto simp: validate_record_limit_def limit_ok_def)

lemma lift_iffs [result_simps]:
  "lift_protocol r = Inr x \<longleftrightarrow> r = Inr x" "lift_wire r' = Inr x' \<longleftrightarrow> r' = Inr x'"
  by (simp_all add: lift_protocol_def lift_wire_def split: sum.splits)

lemma constructors_iff [result_simps]:
  "schema_offer_new lo hi n = Inr s \<longleftrightarrow>
     offer_ok s \<and> s = \<lparr>min_version = lo, max_version = hi, offer_record_bytes = n\<rparr>"
  "schema_selection_new v n = Inr t \<longleftrightarrow>
     v \<noteq> 0 \<and> limit_ok n \<and> t = \<lparr>sel_version = v, sel_record_bytes = n\<rparr>"
  "no_common_version a b c d = Inr r \<longleftrightarrow>
     range_ok a b \<and> range_ok c d \<and> \<not> ranges_overlap a b c d \<and>
     r = \<lparr>rej_reason = NoCommonVersion, local_min = a, local_max = b, peer_min = c, peer_max = d\<rparr>"
  by (auto simp: schema_offer_new_def offer_ok_def schema_selection_new_def no_common_version_def
      result_simps)

section \<open>The record contract\<close>

lemma world_kind_from_u16_iff [result_simps]:
  "world_kind_from_u16 v = Inr k \<longleftrightarrow> v = world_kind_code k"
  by (cases k) (auto simp: world_kind_from_u16_def)

lemma enforce_limit_iff [result_simps]:
  "enforce_limit n limit = Inr u \<longleftrightarrow> n \<le> 16384 \<and> n \<le> unat limit"
  by (auto simp: enforce_limit_def MAX_WORLD_WIRE_RECORD_BYTES_def)

lemma require_payload_len_iff [result_simps]:
  "require_payload_len k p n = Inr u \<longleftrightarrow> length p = n"
  by (simp add: require_payload_len_def)

text \<open>Fixed-offset reads of a short payload, against the writes that built it.\<close>

lemma payload_4_iff:
  "4 \<le> length p \<and> read_u16_at 0 p = a \<and> read_u16_at 2 p = b \<longleftrightarrow>
     p = put_u16 a @ put_u16 b @ drop 4 p"
proof
  assume p: "4 \<le> length p \<and> read_u16_at 0 p = a \<and> read_u16_at 2 p = b"
  have "p = take 2 p @ take 2 (drop 2 p) @ drop 4 p"
    using append_take_drop_id [of 2 p] append_take_drop_id [of 2 "drop 2 p"]
    by (simp del: append_take_drop_id)
  then show "p = put_u16 a @ put_u16 b @ drop 4 p"
    using p put_read(1) [of 0 p] put_read(1) [of 2 p] by simp
next
  assume p: "p = put_u16 a @ put_u16 b @ drop 4 p"
  have "4 \<le> length (put_u16 a @ put_u16 b @ drop 4 p) \<and>
      read_u16_at 0 (put_u16 a @ put_u16 b @ drop 4 p) = a \<and>
      read_u16_at 2 (put_u16 a @ put_u16 b @ drop 4 p) = b"
    by (simp add: read_u16_at_def put_u16_def be_word_sizes)
  with p show "4 \<le> length p \<and> read_u16_at 0 p = a \<and> read_u16_at 2 p = b" by metis
qed

lemma tail_u32_iff:
  "length p = 8 \<and> read_u32_at 4 p = c \<longleftrightarrow> length p = 8 \<and> drop 4 p = put_u32 c"
  using read_at_iff(2) [of 4 p c] by auto

lemma tail_u16_iff:
  "length p = 8 \<and> read_u16_at 4 p = c \<and> read_u16_at 6 p = d \<longleftrightarrow>
     length p = 8 \<and> drop 4 p = put_u16 c @ put_u16 d"
proof (rule conj_cong [OF refl])
  assume len: "length p = 8"
  have "drop 4 p = take 2 (drop 4 p) @ take 2 (drop 6 p)"
    using append_take_drop_id [of 2 "drop 4 p"] len by (simp del: append_take_drop_id)
  moreover have "length (take 2 (drop 4 p)) = length (put_u16 c)" using len by simp
  moreover have "read_u16_at 4 p = c \<longleftrightarrow> take 2 (drop 4 p) = put_u16 c"
    "read_u16_at 6 p = d \<longleftrightarrow> take 2 (drop 6 p) = put_u16 d"
    using len by (simp_all add: read_at_iff)
  ultimately show "read_u16_at 4 p = c \<and> read_u16_at 6 p = d \<longleftrightarrow> drop 4 p = put_u16 c @ put_u16 d"
    by (metis append_eq_append_conv)
qed

lemma payload_8_iff:
  "length p = 8 \<and> read_u16_at 0 p = a \<and> read_u16_at 2 p = b \<and> read_u32_at 4 p = c \<longleftrightarrow>
     p = put_u16 a @ put_u16 b @ put_u32 c" (is "?A \<longleftrightarrow> _")
  "length p = 8 \<and> read_u16_at 0 p = a \<and> read_u16_at 2 p = b \<and> read_u16_at 4 p = d \<and>
     read_u16_at 6 p = e \<longleftrightarrow> p = put_u16 a @ put_u16 b @ put_u16 d @ put_u16 e" (is "?B \<longleftrightarrow> _")
proof -
  have tail: "length p = 8 \<and> p = put_u16 a @ put_u16 b @ drop 4 p \<and> drop 4 p = r \<longleftrightarrow>
      p = put_u16 a @ put_u16 b @ r" if "length r = 4" for r
    using that by auto
  have head: "length p = 8 \<and> read_u16_at 0 p = a \<and> read_u16_at 2 p = b \<longleftrightarrow>
      length p = 8 \<and> p = put_u16 a @ put_u16 b @ drop 4 p"
    using payload_4_iff [of p a b] by auto
  have "?A \<longleftrightarrow> length p = 8 \<and> p = put_u16 a @ put_u16 b @ drop 4 p \<and> drop 4 p = put_u32 c"
    using head tail_u32_iff [of p c] by blast
  then show "?A \<longleftrightarrow> p = put_u16 a @ put_u16 b @ put_u32 c"
    using tail [of "put_u32 c"] by simp
  have "?B \<longleftrightarrow> length p = 8 \<and> p = put_u16 a @ put_u16 b @ drop 4 p \<and> drop 4 p = put_u16 d @ put_u16 e"
    using head tail_u16_iff [of p d e] by blast
  then show "?B \<longleftrightarrow> p = put_u16 a @ put_u16 b @ put_u16 d @ put_u16 e"
    using tail [of "put_u16 d @ put_u16 e"] by simp
qed

lemma decode_offer_iff:
  "decode_world_payload SchemaOfferK p = Inr (SchemaOfferRec s) \<longleftrightarrow>
     offer_ok s \<and> world_payload (SchemaOfferRec s) = Inr p"
proof -
  have "decode_world_payload SchemaOfferK p = Inr (SchemaOfferRec s) \<longleftrightarrow>
      offer_ok s \<and> (length p = 8 \<and> read_u16_at 0 p = min_version s \<and>
        read_u16_at 2 p = max_version s \<and> read_u32_at 4 p = offer_record_bytes s)"
    by (cases s) (auto simp: result_simps NEGOTIATION_PAYLOAD_BYTES_def)
  then show ?thesis unfolding payload_8_iff by auto
qed

lemma decode_selection_iff:
  "decode_world_payload SchemaSelectionK p = Inr (SchemaSelectionRec s) \<longleftrightarrow>
     sel_version s \<noteq> 0 \<and> limit_ok (sel_record_bytes s) \<and>
     world_payload (SchemaSelectionRec s) = Inr p"
proof -
  have "decode_world_payload SchemaSelectionK p = Inr (SchemaSelectionRec s) \<longleftrightarrow>
      sel_version s \<noteq> 0 \<and> limit_ok (sel_record_bytes s) \<and>
      (length p = 8 \<and> read_u16_at 0 p = sel_version s \<and> read_u16_at 2 p = 0 \<and>
       read_u32_at 4 p = sel_record_bytes s)"
    by (cases s) (auto simp: result_simps NEGOTIATION_PAYLOAD_BYTES_def)
  then show ?thesis unfolding payload_8_iff by auto
qed

lemma decode_rejection_iff:
  "decode_world_payload SchemaRejectionK p = Inr (SchemaRejectionRec r) \<longleftrightarrow>
     valid_world_record (SchemaRejectionRec r) \<and> world_payload (SchemaRejectionRec r) = Inr p"
proof -
  have "rej_reason r = NoCommonVersion" by (cases "rej_reason r")
  then have "decode_world_payload SchemaRejectionK p = Inr (SchemaRejectionRec r) \<longleftrightarrow>
      valid_world_record (SchemaRejectionRec r) \<and>
      (length p = 8 \<and> read_u16_at 0 p = local_min r \<and> read_u16_at 2 p = local_max r \<and>
       read_u16_at 4 p = peer_min r \<and> read_u16_at 6 p = peer_max r)"
    by (cases r) (auto simp: result_simps NEGOTIATION_PAYLOAD_BYTES_def)
  then show ?thesis unfolding payload_8_iff by auto
qed

lemma decode_description_iff:
  "decode_world_payload IdentityDescriptionK p = Inr (IdentityDescription x) \<longleftrightarrow>
     valid_identity_record x \<and> world_payload (IdentityDescription x) = Inr p"
proof -
  have "decode_world_payload IdentityDescriptionK p = Inr (IdentityDescription x) \<longleftrightarrow>
      (4 \<le> length p \<and> read_u16_at 0 p = WORLD_SCHEMA_V1 \<and> read_u16_at 2 p = 0) \<and>
      valid_identity_record x \<and> identity_encode x = Inr (drop 4 p)"
    by (auto simp: result_simps IDENTITY_PREFIX_BYTES_def Let_def identity_record.dec_iff)
  also have "\<dots> \<longleftrightarrow> valid_identity_record x \<and> world_payload (IdentityDescription x) = Inr p"
    unfolding payload_4_iff by (auto simp: result_simps)
  finally show ?thesis .
qed

lemma decode_world_payload_iff:
  "decode_world_payload k p = Inr x \<longleftrightarrow>
     k = world_kind x \<and> valid_world_record x \<and> world_payload x = Inr p"
proof -
  have kind: "k = world_kind x" if "decode_world_payload k p = Inr x"
    using that by (cases k) (auto simp: and_then_eq_Inr Let_def)
  have "decode_world_payload (world_kind x) p = Inr x \<longleftrightarrow>
      valid_world_record x \<and> world_payload x = Inr p"
    by (cases x)
      (simp_all only: world_kind.simps decode_offer_iff decode_selection_iff decode_rejection_iff
        decode_description_iff valid_world_record.simps conj_assoc)
  then show ?thesis using kind by auto
qed

lemma length_world_magic [simp]: "length WORLD_WIRE_MAGIC = 8"
  by (simp add: WORLD_WIRE_MAGIC_def)

lemma world_encode_iff:
  "world_encode_with_limit limit x = Inr bs \<longleftrightarrow>
     (\<exists>payload. world_payload x = Inr payload \<and> 16 + length payload \<le> 16384 \<and>
        16 + length payload \<le> unat limit \<and>
        bs = frame WORLD_WIRE_MAGIC WORLD_WIRE_CODEC_VERSION (world_kind_code (world_kind x))
               (of_nat (16 + length payload)) payload)"
  by (cases "world_payload x")
    (auto simp: world_encode_with_limit_def result_simps WORLD_WIRE_HEADER_BYTES_def Let_def)

lemma world_decode_iff:
  "world_decode_with_limit limit bs = Inr x \<longleftrightarrow>
     valid_world_record x \<and> world_encode_with_limit limit x = Inr bs"
proof -
  let ?magic = WORLD_WIRE_MAGIC and ?v = WORLD_WIRE_CODEC_VERSION
    and ?k = "world_kind_code (world_kind x)"
  have len: "unat (read_u32_at 12 bs) = length bs \<longleftrightarrow> read_u32_at 12 bs = of_nat (length bs)"
    if "length bs \<le> 16384"
  proof -
    have "unat (of_nat (length bs) :: u32) = length bs" using that by (simp add: unat_u32_of_nat)
    then show ?thesis by (metis u32_of_nat_unat)
  qed
  have "world_decode_with_limit limit bs = Inr x \<longleftrightarrow>
      length bs \<le> 16384 \<and> length bs \<le> unat limit \<and> 16 \<le> length bs \<and>
      (take 8 bs = ?magic \<and> read_u16_at 8 bs = ?v \<and> read_u16_at 10 bs = ?k \<and>
       read_u32_at 12 bs = of_nat (length bs)) \<and>
      valid_world_record x \<and> world_payload x = Inr (drop 16 bs)"
    unfolding world_decode_with_limit_def Let_def using len
    by (auto simp: result_simps WORLD_WIRE_HEADER_BYTES_def decode_world_payload_iff)
  also have "\<dots> \<longleftrightarrow> length bs \<le> 16384 \<and> length bs \<le> unat limit \<and> 16 \<le> length bs \<and>
      bs = frame ?magic ?v ?k (of_nat (length bs)) (drop 16 bs) \<and>
      valid_world_record x \<and> world_payload x = Inr (drop 16 bs)"
    using frame_iff [of ?magic bs ?v ?k "of_nat (length bs)"] by auto
  also have "\<dots> \<longleftrightarrow> valid_world_record x \<and> world_encode_with_limit limit x = Inr bs"
    unfolding world_encode_iff using frame_parts(5,6) [of ?magic] by auto
  finally show ?thesis .
qed

interpretation world_record: record_codec "world_encode_with_limit limit"
    "world_decode_with_limit limit" valid_world_record for limit
  by unfold_locales (rule world_decode_iff)

section \<open>Negotiation lemmas\<close>

definition common_version :: "schema_offer \<Rightarrow> schema_offer \<Rightarrow> u16 \<Rightarrow> bool" where
  "common_version l p v \<longleftrightarrow>
     min_version l \<le> v \<and> v \<le> max_version l \<and> min_version p \<le> v \<and> v \<le> max_version p"

definition best_selection :: "schema_offer \<Rightarrow> schema_offer \<Rightarrow> schema_selection \<Rightarrow> bool" where
  "best_selection l p s \<longleftrightarrow>
     common_version l p (sel_version s) \<and>
     (\<forall>v. common_version l p v \<longrightarrow> v \<le> sel_version s) \<and>
     sel_record_bytes s = min (offer_record_bytes l) (offer_record_bytes p)"

lemma negotiate_selected:
  assumes "offer_ok l" "offer_ok p"
  shows "negotiate_schema l p = Selected n \<longleftrightarrow> best_selection l p (neg_selection n)"
proof
  assume n: "negotiate_schema l p = Selected n"
  then show "best_selection l p (neg_selection n)"
    using assms
    by (auto simp: negotiate_schema_def best_selection_def common_version_def Let_def offer_ok_def
        range_ok_def split: if_splits)
next
  assume best: "best_selection l p (neg_selection n)"
  define u where "u = min (max_version l) (max_version p)"
  have lower: "max (min_version l) (min_version p) \<le> u"
    using best by (auto simp: u_def best_selection_def common_version_def)
  then have "common_version l p u"
    using assms by (auto simp: common_version_def offer_ok_def range_ok_def u_def)
  then have "sel_version (neg_selection n) = u"
    using best by (auto simp: best_selection_def common_version_def u_def intro!: antisym)
  with lower best show "negotiate_schema l p = Selected n"
    by (cases n; cases "neg_selection n")
      (auto simp: negotiate_schema_def Let_def u_def best_selection_def)
qed

lemma negotiate_rejected:
  "(\<exists>r. negotiate_schema l p = Rejected r) \<longleftrightarrow>
     \<not> ranges_overlap (min_version l) (max_version l) (min_version p) (max_version p)"
  by (auto simp: negotiate_schema_def Let_def ranges_overlap_def)

lemma no_overlap_iff:
  assumes "offer_ok l" "offer_ok p"
  shows "ranges_overlap (min_version l) (max_version l) (min_version p) (max_version p) \<longleftrightarrow>
    (\<exists>v. common_version l p v)"
proof
  assume "ranges_overlap (min_version l) (max_version l) (min_version p) (max_version p)"
  then have "common_version l p (min (max_version l) (max_version p))"
    using assms by (auto simp: ranges_overlap_def common_version_def offer_ok_def range_ok_def)
  then show "\<exists>v. common_version l p v" ..
qed (auto simp: ranges_overlap_def common_version_def)

lemma validate_selection_iff:
  "validate_selection l p s = Inr n \<longleftrightarrow> negotiate_schema l p = Selected n \<and> s = neg_selection n"
  by (auto simp: validate_selection_def split: schema_negotiation.splits)

lemma best_selection_swap: "best_selection l p s \<longleftrightarrow> best_selection p l s"
  by (auto simp: best_selection_def common_version_def min.commute)

section \<open>Properties\<close>

text \<open>
  C25. World records are canonical under every limit: decoding accepts exactly the encodings of
  valid records that fit the limit, nested identities included. A length field, reserved word,
  trailing byte or alternative spelling that differs from the encoder's output is refused.
\<close>

theorem world_records_canonical:
  "world_decode_with_limit limit bs = Inr x \<longleftrightarrow>
     valid_world_record x \<and> world_encode_with_limit limit x = Inr bs"
  by (rule world_record.dec_iff)

text \<open>
  C26. Negotiation finds the best common schema. Two valid offers are accepted exactly when they
  share a version; the selection is the highest shared version with the smaller record bound; and
  both peers, each calling its own offer local, accept the same single selection, so neither a
  downgrade nor an inflated bound is admitted.
\<close>

theorem negotiation_agrees:
  assumes "offer_ok l" and "offer_ok p"
  shows "(validate_selection l p s = Inr \<lparr>neg_selection = s\<rparr> \<longleftrightarrow> best_selection l p s) \<and>
    (validate_selection p l s = Inr \<lparr>neg_selection = s\<rparr> \<longleftrightarrow> best_selection l p s) \<and>
    ((\<exists>r. negotiate_schema l p = Rejected r) \<longleftrightarrow> (\<nexists>v. common_version l p v))"
  using negotiate_selected [OF assms] negotiate_selected [OF assms(2,1)] no_overlap_iff [OF assms]
  by (simp add: validate_selection_iff best_selection_swap [of p l] negotiate_rejected)

definition sample_local :: schema_offer where
  "sample_local = \<lparr>min_version = 1, max_version = 2, offer_record_bytes = 16384\<rparr>"

definition sample_peer :: schema_offer where
  "sample_peer = \<lparr>min_version = 1, max_version = 3, offer_record_bytes = 1024\<rparr>"

lemma sample_offers_ok: "offer_ok sample_local" "offer_ok sample_peer"
  by code_simp+

theorem negotiation_agrees_witness:
  "best_selection sample_local sample_peer \<lparr>sel_version = 2, sel_record_bytes = 1024\<rparr>"
proof -
  have "validate_selection sample_local sample_peer \<lparr>sel_version = 2, sel_record_bytes = 1024\<rparr> =
      Inr \<lparr>neg_selection = \<lparr>sel_version = 2, sel_record_bytes = 1024\<rparr>\<rparr>"
    by code_simp
  then show ?thesis using negotiation_agrees [OF sample_offers_ok] by blast
qed

text \<open>
  C27. After negotiation, an accepted identity record is no longer than either peer announced, is
  valid, and is byte for byte the record its sender's encoder produces.
\<close>

theorem negotiated_identity_bounded:
  assumes "validate_selection l p s = Inr n"
    and "decode_identity_with_negotiated_schema bs n = Inr x"
  shows "length bs \<le> unat (offer_record_bytes l) \<and> length bs \<le> unat (offer_record_bytes p) \<and>
    valid_identity_record x \<and>
    world_encode_with_limit (sel_record_bytes s) (IdentityDescription x) = Inr bs"
proof -
  have s: "negotiate_schema l p = Selected n" "s = neg_selection n"
    using assms(1) by (simp_all add: validate_selection_iff)
  then have bound: "sel_record_bytes s = min (offer_record_bytes l) (offer_record_bytes p)"
    by (auto simp: negotiate_schema_def Let_def split: if_splits)
  have "world_decode_with_limit (sel_record_bytes s) bs = Inr (IdentityDescription x)"
  proof -
    obtain r where r: "world_decode_with_limit (sel_record_bytes s) bs = Inr r"
      "(case r of IdentityDescription x \<Rightarrow> Inr x
        | _ \<Rightarrow> Inl (WExpectedIdentityDescription (world_kind r))) = Inr x"
      using assms(2) s(2)
      by (auto simp: decode_identity_with_negotiated_schema_def and_then_eq_Inr split: if_splits)
    then show ?thesis by (cases r) simp_all
  qed
  then have "valid_identity_record x"
    and enc: "world_encode_with_limit (sel_record_bytes s) (IdentityDescription x) = Inr bs"
    by (auto simp: world_record.dec_iff)
  moreover from enc have "length bs \<le> unat (sel_record_bytes s)"
    by (auto simp: world_encode_iff frame_parts)
  then have "length bs \<le> unat (offer_record_bytes l) \<and> length bs \<le> unat (offer_record_bytes p)"
    unfolding bound by (metis (no_types) dual_order.trans min.cobounded1 min.cobounded2 word_le_nat_alt)
  ultimately show ?thesis by blast
qed

definition sample_v1 :: schema_offer where
  "sample_v1 = \<lparr>min_version = 1, max_version = 1, offer_record_bytes = 1024\<rparr>"

theorem negotiated_identity_bounded_witness:
  "\<exists>bs. length bs \<le> unat (offer_record_bytes sample_v1) \<and>
     world_encode_with_limit 1024 (IdentityDescription (ProcessR sample_process)) = Inr bs"
proof -
  let ?s = "\<lparr>sel_version = 1, sel_record_bytes = 1024\<rparr>"
  have sel: "validate_selection sample_v1 sample_peer ?s = Inr \<lparr>neg_selection = ?s\<rparr>" by code_simp
  have valid: "valid_identity_record (ProcessR sample_process)" by code_simp
  then obtain nested where "identity_encode (ProcessR sample_process) = Inr nested"
    "length nested \<le> 828"
    by (rule identity_encode_total)
  then obtain bs where bs:
    "world_encode_with_limit 1024 (IdentityDescription (ProcessR sample_process)) = Inr bs"
    by (auto simp: world_encode_iff result_simps)
  have "decode_identity_with_negotiated_schema bs \<lparr>neg_selection = ?s\<rparr> =
      Inr (ProcessR sample_process)"
    using world_record.dec_enc [OF _ bs] valid
    by (simp add: decode_identity_with_negotiated_schema_def WORLD_SCHEMA_V1_def)
  from negotiated_identity_bounded [OF sel this] bs show ?thesis by auto
qed

end
