(* ===== verification/Effects.thy ===== *)
theory Effects
  imports Plan World_Identity "HOL-Library.List_Lexorder"
begin

text \<open>
  The effect model (\<open>effects.rs\<close>): resource keys with their derived order, effect summaries,
  source declarations and the summary of a plan node. Summaries hold their read and write
  footprints as ordered sets (strictly ascending lists); the order is the one \<open>derive(Ord)\<close>
  gives the enumeration, obtained here from \<open>key_rank\<close>, and it is what fixes the sequence in which
  lowering allocates resource states.
\<close>

section \<open>Resource keys\<close>

record actor_resource_id =
  canonical_language :: string
  environment :: u32

definition display_actor :: "actor_resource_id \<Rightarrow> string" where
  "display_actor a = canonical_language a @ ''['' @ dec_digits (unat (environment a)) @ '']''"

datatype resource_key =
    HostWorld
  | ConcurrentProjectBranch nat
  | ProjectBranchPath nat string
  | WorldState world_identity
  | GovernorState governor_identity
  | NodeState node_identity
  | DomainState domain_identity
  | ProcessState process_identity
  | GovernedResource resource_identity
  | ObjectState object_identity
  | CapabilityState capability_identity
  | NamespaceState world_identity
  | TaskState attempt_identity
  | ArtifactState artifact_publication
  | DeviceState resource_identity
  | AcceleratorState resource_identity
  | EvaluatorState
  | ScopeBinding string
  | ProjectPath string
  | HostPath string
  | EnvVar string
  | Stdio
  | NetworkKey string
  | NetworkUnknown
  | Service string
  | ActorState actor_resource_id

subsection \<open>The derived order\<close>

text \<open>
  \<open>derive(Ord)\<close> compares the variant first and then the fields from left to right. Every field is
  a string, an integer or another derived type, so a key is ranked by the list of its variant
  index and its flattened fields; within one variant the lists have the same shape.
\<close>

definition rank_string :: "string \<Rightarrow> nat list" where
  "rank_string s = map of_char s"

definition rank_u64 :: "u64 \<Rightarrow> nat list" where
  "rank_u64 w = [unat w]"

definition rank_world :: "world_identity \<Rightarrow> nat list list" where
  "rank_world w = [rank_string (wi_world w), rank_u64 (wi_epoch w)]"

definition rank_governor :: "governor_identity \<Rightarrow> nat list list" where
  "rank_governor g = rank_world (gi_world g) @ [rank_u64 (gi_term g), rank_u64 (gi_log_index g)]"

definition rank_node :: "node_identity \<Rightarrow> nat list list" where
  "rank_node n = [rank_string (ni_world n), rank_string (ni_node n), rank_u64 (ni_generation n)]"

definition rank_domain :: "domain_identity \<Rightarrow> nat list list" where
  "rank_domain d = rank_node (di_node d) @ [rank_string (di_domain d), rank_u64 (di_generation d)]"

definition rank_process :: "process_identity \<Rightarrow> nat list list" where
  "rank_process p =
     rank_domain (pi_domain p) @ [rank_string (pi_process p), rank_u64 (pi_generation p)]"

fun rank_owner :: "resource_owner \<Rightarrow> nat list list" where
  "rank_owner (WorldOwner w) = [0] # rank_world w"
| "rank_owner (NodeOwner n) = [1] # rank_node n"
| "rank_owner (DomainOwner d) = [2] # rank_domain d"
| "rank_owner (ProcessOwner p) = [3] # rank_process p"

definition rank_resource :: "resource_identity \<Rightarrow> nat list list" where
  "rank_resource r =
     rank_owner (ri_owner r) @ [rank_string (ri_resource r), rank_u64 (ri_generation r)]"

definition rank_object :: "object_identity \<Rightarrow> nat list list" where
  "rank_object x = [rank_string (oi_world x), rank_string (oi_object x), rank_u64 (oi_version x)]"

definition rank_capability :: "capability_identity \<Rightarrow> nat list list" where
  "rank_capability x = [rank_string (ci_world x), rank_string (ci_capability x)]"

definition rank_attempt :: "attempt_identity \<Rightarrow> nat list list" where
  "rank_attempt x = [rank_string (ai_world x), rank_string (ai_task x), rank_u64 (ai_attempt x)]"

definition rank_publication :: "artifact_publication \<Rightarrow> nat list list" where
  "rank_publication x = rank_world (ap_world x) @ [rank_string (ap_artifact x)]"

definition rank_actor :: "actor_resource_id \<Rightarrow> nat list list" where
  "rank_actor a = [rank_string (canonical_language a), [unat (environment a)]]"

fun key_rank :: "resource_key \<Rightarrow> nat list list" where
  "key_rank HostWorld = [[0]]"
| "key_rank (ConcurrentProjectBranch b) = [[1], [b]]"
| "key_rank (ProjectBranchPath b p) = [[2], [b], rank_string p]"
| "key_rank (WorldState w) = [3] # rank_world w"
| "key_rank (GovernorState g) = [4] # rank_governor g"
| "key_rank (NodeState n) = [5] # rank_node n"
| "key_rank (DomainState d) = [6] # rank_domain d"
| "key_rank (ProcessState p) = [7] # rank_process p"
| "key_rank (GovernedResource r) = [8] # rank_resource r"
| "key_rank (ObjectState x) = [9] # rank_object x"
| "key_rank (CapabilityState x) = [10] # rank_capability x"
| "key_rank (NamespaceState w) = [11] # rank_world w"
| "key_rank (TaskState x) = [12] # rank_attempt x"
| "key_rank (ArtifactState x) = [13] # rank_publication x"
| "key_rank (DeviceState r) = [14] # rank_resource r"
| "key_rank (AcceleratorState r) = [15] # rank_resource r"
| "key_rank EvaluatorState = [[16]]"
| "key_rank (ScopeBinding n) = [[17], rank_string n]"
| "key_rank (ProjectPath p) = [[18], rank_string p]"
| "key_rank (HostPath p) = [[19], rank_string p]"
| "key_rank (EnvVar n) = [[20], rank_string n]"
| "key_rank Stdio = [[21]]"
| "key_rank (NetworkKey e) = [[22], rank_string e]"
| "key_rank NetworkUnknown = [[23]]"
| "key_rank (Service s) = [[24], rank_string s]"
| "key_rank (ActorState a) = [25] # rank_actor a"

lemma rank_string_inject [simp]: "rank_string a = rank_string b \<longleftrightarrow> a = b"
proof
  assume "rank_string a = rank_string b"
  then have "map char_of (rank_string a) = (map char_of (rank_string b) :: string)" by simp
  then show "a = b" by (simp add: rank_string_def comp_def)
qed simp

lemma unat_inject [simp]: "unat (a :: 'a::len word) = unat b \<longleftrightarrow> a = b"
  by (auto intro: unsigned_word_eqI)

lemma rank_u64_inject [simp]: "rank_u64 a = rank_u64 b \<longleftrightarrow> a = b"
  by (simp add: rank_u64_def)

lemma rank_world_inject [simp]: "rank_world a = rank_world b \<longleftrightarrow> a = b"
  by (cases a; cases b) (simp add: rank_world_def)

lemma rank_governor_inject [simp]: "rank_governor a = rank_governor b \<longleftrightarrow> a = b"
  by (cases a; cases b) (auto simp: rank_governor_def)

lemma rank_node_inject [simp]: "rank_node a = rank_node b \<longleftrightarrow> a = b"
  by (cases a; cases b) (simp add: rank_node_def)

lemma rank_domain_inject [simp]: "rank_domain a = rank_domain b \<longleftrightarrow> a = b"
  by (cases a; cases b) (auto simp: rank_domain_def)

lemma rank_process_inject [simp]: "rank_process a = rank_process b \<longleftrightarrow> a = b"
  by (cases a; cases b) (auto simp: rank_process_def)

lemma rank_owner_inject [simp]: "rank_owner a = rank_owner b \<longleftrightarrow> a = b"
  by (cases a; cases b) auto

lemma rank_resource_inject [simp]: "rank_resource a = rank_resource b \<longleftrightarrow> a = b"
  by (cases a; cases b) (auto simp: rank_resource_def)

lemma rank_object_inject [simp]: "rank_object a = rank_object b \<longleftrightarrow> a = b"
  by (cases a; cases b) (simp add: rank_object_def)

lemma rank_capability_inject [simp]: "rank_capability a = rank_capability b \<longleftrightarrow> a = b"
  by (cases a; cases b) (simp add: rank_capability_def)

lemma rank_attempt_inject [simp]: "rank_attempt a = rank_attempt b \<longleftrightarrow> a = b"
  by (cases a; cases b) (simp add: rank_attempt_def)

lemma rank_publication_inject [simp]: "rank_publication a = rank_publication b \<longleftrightarrow> a = b"
  by (cases a; cases b) (auto simp: rank_publication_def)

lemma rank_actor_inject [simp]: "rank_actor a = rank_actor b \<longleftrightarrow> a = b"
  by (cases a; cases b) (simp add: rank_actor_def)

lemma key_rank_inject [simp]: "key_rank a = key_rank b \<longleftrightarrow> a = b"
  by (cases a; cases b) simp_all

instantiation resource_key :: linorder
begin

definition less_eq_resource_key :: "resource_key \<Rightarrow> resource_key \<Rightarrow> bool" where
  "less_eq_resource_key a b \<longleftrightarrow> key_rank a \<le> key_rank b"

definition less_resource_key :: "resource_key \<Rightarrow> resource_key \<Rightarrow> bool" where
  "less_resource_key a b \<longleftrightarrow> key_rank a < key_rank b"

instance
  by standard
    (auto simp: less_eq_resource_key_def less_resource_key_def less_le_not_le
       dest: order_antisym [THEN key_rank_inject [THEN iffD1]])

end

subsection \<open>Classes and rendering\<close>

datatype governed_resource_kind =
    GWorld | GGovernor | GNode | GDomain | GProcess | GResource | GObject | GCapability
  | GNamespace | GTask | GArtifact | GDevice | GAccelerator

fun governed_kind_name :: "governed_resource_kind \<Rightarrow> string" where
  "governed_kind_name GWorld = ''world''"
| "governed_kind_name GGovernor = ''governor''"
| "governed_kind_name GNode = ''node''"
| "governed_kind_name GDomain = ''domain''"
| "governed_kind_name GProcess = ''process''"
| "governed_kind_name GResource = ''resource''"
| "governed_kind_name GObject = ''object''"
| "governed_kind_name GCapability = ''capability''"
| "governed_kind_name GNamespace = ''namespace''"
| "governed_kind_name GTask = ''task''"
| "governed_kind_name GArtifact = ''artifact''"
| "governed_kind_name GDevice = ''device''"
| "governed_kind_name GAccelerator = ''accelerator''"

fun is_host_resource :: "resource_key \<Rightarrow> bool" where
  "is_host_resource HostWorld = True"
| "is_host_resource (ConcurrentProjectBranch _) = True"
| "is_host_resource (ProjectPath _) = True"
| "is_host_resource (HostPath _) = True"
| "is_host_resource (EnvVar _) = True"
| "is_host_resource Stdio = True"
| "is_host_resource (NetworkKey _) = True"
| "is_host_resource NetworkUnknown = True"
| "is_host_resource (Service _) = True"
| "is_host_resource _ = False"

fun governed_kind :: "resource_key \<Rightarrow> governed_resource_kind option" where
  "governed_kind (WorldState _) = Some GWorld"
| "governed_kind (GovernorState _) = Some GGovernor"
| "governed_kind (NodeState _) = Some GNode"
| "governed_kind (DomainState _) = Some GDomain"
| "governed_kind (ProcessState _) = Some GProcess"
| "governed_kind (GovernedResource _) = Some GResource"
| "governed_kind (ObjectState _) = Some GObject"
| "governed_kind (CapabilityState _) = Some GCapability"
| "governed_kind (NamespaceState _) = Some GNamespace"
| "governed_kind (TaskState _) = Some GTask"
| "governed_kind (ArtifactState _) = Some GArtifact"
| "governed_kind (DeviceState _) = Some GDevice"
| "governed_kind (AcceleratorState _) = Some GAccelerator"
| "governed_kind _ = None"

definition is_governed_resource :: "resource_key \<Rightarrow> bool" where
  "is_governed_resource k \<longleftrightarrow> governed_kind k \<noteq> None"

fun display_key :: "resource_key \<Rightarrow> string" where
  "display_key HostWorld = ''HostWorld''"
| "display_key (ConcurrentProjectBranch b) =
     ''concurrent-project-branch:'' @ dec_digits b @ '':ambient-unordered''"
| "display_key (ProjectBranchPath b p) = ''project-branch:'' @ dec_digits b @ '':'' @ p"
| "display_key (WorldState w) = ''world-state:'' @ display_world w"
| "display_key (GovernorState g) = ''governor-state:'' @ display_governor g"
| "display_key (NodeState n) = ''node-state:'' @ display_node n"
| "display_key (DomainState d) = ''domain-state:'' @ display_domain d"
| "display_key (ProcessState p) = ''process-state:'' @ display_process p"
| "display_key (GovernedResource r) = ''governed-resource:'' @ display_resource r"
| "display_key (ObjectState x) = ''object-state:'' @ display_object x"
| "display_key (CapabilityState x) = ''capability-state:'' @ display_capability x"
| "display_key (NamespaceState w) = ''namespace-state:'' @ display_world w"
| "display_key (TaskState x) = ''task-state:'' @ display_attempt x"
| "display_key (ArtifactState x) = ''artifact-state:'' @ display_publication x"
| "display_key (DeviceState r) = ''device-state:'' @ display_resource r"
| "display_key (AcceleratorState r) = ''accelerator-state:'' @ display_resource r"
| "display_key EvaluatorState = ''EvaluatorState''"
| "display_key (ScopeBinding n) = ''scope:'' @ n"
| "display_key (ProjectPath p) = ''project:'' @ p"
| "display_key (HostPath p) = ''host:'' @ p"
| "display_key (EnvVar n) = ''env:'' @ n"
| "display_key Stdio = ''stdio''"
| "display_key (NetworkKey e) = ''network:'' @ e"
| "display_key NetworkUnknown = ''network:*''"
| "display_key (Service s) = ''service:'' @ s"
| "display_key (ActorState a) = ''actor:'' @ display_actor a"

section \<open>Effect summaries\<close>

datatype effect_confidence = Verified | Conservative | UserDeclared

datatype fallibility = Infallible | MayFail

datatype effect_trust_policy = Strict

type_synonym footprint = "resource_key list"

record effect_summary =
  es_deterministic :: bool
  es_fallibility :: fallibility
  es_reads :: footprint
  es_writes :: footprint
  es_actor_state :: "actor_resource_id option"
  es_unknown :: bool
  es_network :: bool
  es_spawn :: bool
  es_clock :: bool
  es_confidence :: effect_confidence

definition pure_summary :: effect_summary where
  "pure_summary =
     \<lparr>es_deterministic = True, es_fallibility = Infallible, es_reads = [], es_writes = [],
      es_actor_state = None, es_unknown = False, es_network = False, es_spawn = False,
      es_clock = False, es_confidence = Verified\<rparr>"

definition unknown_summary :: effect_summary where
  "unknown_summary =
     \<lparr>es_deterministic = False, es_fallibility = MayFail, es_reads = bt_insert HostWorld [],
      es_writes = bt_insert HostWorld [], es_actor_state = None, es_unknown = True,
      es_network = False, es_spawn = False, es_clock = False, es_confidence = Conservative\<rparr>"

definition conservative_evaluator :: effect_summary where
  "conservative_evaluator =
     unknown_summary
       \<lparr>es_reads := bt_insert EvaluatorState (es_reads unknown_summary),
        es_writes := bt_insert EvaluatorState (es_writes unknown_summary)\<rparr>"

text \<open>\<open>BTreeSet::remove\<close> and \<open>BTreeSet::extend\<close>.\<close>

definition bt_remove :: "'a \<Rightarrow> 'a list \<Rightarrow> 'a list" where
  "bt_remove x xs = filter (\<lambda>y. y \<noteq> x) xs"

definition bt_extend :: "'a::linorder list \<Rightarrow> 'a list \<Rightarrow> 'a list" where
  "bt_extend xs ys = fold bt_insert ys xs"

definition with_actor_state :: "actor_resource_id \<Rightarrow> effect_summary \<Rightarrow> effect_summary" where
  "with_actor_state actor s =
     (let s1 = (case es_actor_state s of
                  None \<Rightarrow> s
                | Some previous \<Rightarrow>
                    s\<lparr>es_reads := bt_remove (ActorState previous) (es_reads s),
                      es_writes := bt_remove (ActorState previous) (es_writes s)\<rparr>)
      in s1\<lparr>es_actor_state := Some actor,
            es_reads := bt_insert (ActorState actor) (es_reads s1),
            es_writes := bt_insert (ActorState actor) (es_writes s1)\<rparr>)"

fun is_network_endpoint :: "resource_key \<Rightarrow> bool" where
  "is_network_endpoint (NetworkKey _) = True"
| "is_network_endpoint _ = False"

fun governed_alias :: "resource_key \<Rightarrow> resource_key option" where
  "governed_alias (DeviceState r) = Some (GovernedResource r)"
| "governed_alias (AcceleratorState r) = Some (GovernedResource r)"
| "governed_alias _ = None"

definition expand_resource_aliases :: "footprint \<Rightarrow> footprint" where
  "expand_resource_aliases rs =
     (let rs1 = (if list_ex is_network_endpoint rs then bt_insert NetworkUnknown rs else rs)
      in bt_extend rs1 (List.map_filter governed_alias rs1))"

definition expanded_reads :: "effect_summary \<Rightarrow> footprint" where
  "expanded_reads s = expand_resource_aliases (es_reads s)"

definition expanded_writes :: "effect_summary \<Rightarrow> footprint" where
  "expanded_writes s = expand_resource_aliases (es_writes s)"

definition resource_union :: "effect_summary \<Rightarrow> footprint" where
  "resource_union s = bt_extend (expanded_reads s) (expanded_writes s)"

definition scheduling_accesses :: "effect_summary \<Rightarrow> footprint \<times> footprint" where
  "scheduling_accesses s =
     (let reads = expanded_reads s;
          writes = expanded_writes s;
          touches_ambient_host = (HostWorld \<in> set reads \<or> HostWorld \<in> set writes);
          touches_precise_host =
            list_ex (\<lambda>r. is_host_resource r \<and> r \<noteq> HostWorld) (reads @ writes)
      in (if touches_precise_host then bt_insert HostWorld reads else reads,
          if touches_ambient_host then bt_insert HostWorld writes else writes))"

definition is_verified_pure_infallible :: "effect_summary \<Rightarrow> bool" where
  "is_verified_pure_infallible s \<longleftrightarrow>
     es_confidence s = Verified \<and> es_deterministic s \<and> es_fallibility s = Infallible \<and>
     \<not> es_unknown s \<and> es_actor_state s = None \<and> es_reads s = [] \<and> es_writes s = [] \<and>
     \<not> es_network s \<and> \<not> es_spawn s \<and> \<not> es_clock s"

fun is_network_key :: "resource_key \<Rightarrow> bool" where
  "is_network_key (NetworkKey _) = True"
| "is_network_key NetworkUnknown = True"
| "is_network_key _ = False"

definition touches_network :: "footprint \<Rightarrow> bool" where
  "touches_network rs \<longleftrightarrow> list_ex is_network_key rs"

definition resource_conflict :: "footprint \<Rightarrow> footprint \<Rightarrow> bool" where
  "resource_conflict l r \<longleftrightarrow>
     list_ex (\<lambda>k. k \<in> set r) l \<or> (touches_network l \<and> touches_network r)"

definition conflicts_with :: "effect_summary \<Rightarrow> effect_summary \<Rightarrow> bool" where
  "conflicts_with s t \<longleftrightarrow>
     (es_actor_state s \<noteq> None \<and> es_actor_state s = es_actor_state t) \<or>
     (case scheduling_accesses s of (sr, sw) \<Rightarrow>
      case scheduling_accesses t of (tr, tw) \<Rightarrow>
        resource_conflict sw tw \<or> resource_conflict sw tr \<or> resource_conflict tw sr)"

section \<open>Source declarations\<close>

datatype declared_purity = PureD | UnknownD

datatype effect_error =
    EmptyAttribute
  | DuplicateDeclaration string
  | InvalidClassification string
  | InvalidSerialization string
  | PureUpgrade
  | EmptyResourceList
  | EmptyResource string
  | InvalidResource string
  | EmptyResourceIdentity string
  | GovernedResourceKind string string
  | ProjectPathNotRelative string
  | UnknownResourceKind string string
  | EmptyName string
  | InvalidName string string
  | InvalidActor string
  | EmptyActorLanguage
  | InvalidActorEnvironment string
  | ActorNotPersistent
  | PlanNodeEffect nat effect_error

record effect_declaration =
  ed_purity :: "declared_purity option"
  ed_reads :: footprint
  ed_writes :: footprint
  ed_serial_host :: bool

definition empty_declaration :: effect_declaration where
  "empty_declaration = \<lparr>ed_purity = None, ed_reads = [], ed_writes = [], ed_serial_host = False\<rparr>"

definition declaration_is_empty :: "effect_declaration \<Rightarrow> bool" where
  "declaration_is_empty d \<longleftrightarrow>
     ed_purity d = None \<and> ed_reads d = [] \<and> ed_writes d = [] \<and> \<not> ed_serial_host d"

definition recognizes_entry :: "string \<Rightarrow> bool" where
  "recognizes_entry e \<longleftrightarrow>
     list_ex (\<lambda>p. strip_prefix p e \<noteq> None) [''effects='', ''reads='', ''writes='', ''serial='']"

subsection \<open>Resource names\<close>

text \<open>\<open>str::split_once\<close>, \<open>str::rsplit_once\<close>, \<open>str::split\<close> on a set of separators.\<close>

fun split_once :: "char \<Rightarrow> string \<Rightarrow> (string \<times> string) option" where
  "split_once c [] = None"
| "split_once c (x # xs) =
     (if x = c then Some ([], xs)
      else (case split_once c xs of None \<Rightarrow> None | Some (a, b) \<Rightarrow> Some (x # a, b)))"

definition rsplit_once :: "char \<Rightarrow> string \<Rightarrow> (string \<times> string) option" where
  "rsplit_once c s =
     (case split_once c (rev s) of None \<Rightarrow> None | Some (a, b) \<Rightarrow> Some (rev b, rev a))"

fun split_where :: "(char \<Rightarrow> bool) \<Rightarrow> string \<Rightarrow> string list" where
  "split_where P [] = [[]]"
| "split_where P (x # xs) =
     (if P x then [] # split_where P xs
      else (case split_where P xs of [] \<Rightarrow> [[x]] | w # ws \<Rightarrow> (x # w) # ws))"

text \<open>\<open>str::parse::<u32>\<close>: an optional plus sign, then decimal digits whose value fits.\<close>

definition parse_u32 :: "string \<Rightarrow> u32 option" where
  "parse_u32 s =
     (let digits = (case s of CHR ''+'' # rest \<Rightarrow> rest | _ \<Rightarrow> s) in
      if digits = [] \<or> \<not> list_all is_ascii_digit digits \<or> dec_value digits \<ge> 2 ^ 32 then None
      else Some (of_nat (dec_value digits)))"

definition is_governed_source_resource_kind :: "string \<Rightarrow> bool" where
  "is_governed_source_resource_kind kind \<longleftrightarrow>
     kind \<in> set [''world'', ''world-state'', ''governor'', ''governor-state'', ''node'', ''node-state'',
        ''domain'', ''domain-state'', ''process'', ''process-state'', ''resource'', ''resource-state'',
        ''governed-resource'', ''object'', ''object-state'', ''capability'', ''capability-state'',
        ''namespace'', ''namespace-state'', ''task'', ''task-state'', ''artifact'', ''artifact-state'',
        ''device'', ''device-state'', ''accelerator'', ''accelerator-state'']"

fun validate_identifier :: "string \<Rightarrow> string \<Rightarrow> effect_error + unit" where
  "validate_identifier [] label = Inl (EmptyName label)"
| "validate_identifier (first # chars) label =
     (if \<not> (first = CHR ''_'' \<or> is_ascii_alphabetic first) \<or>
         \<not> list_all (\<lambda>ch. ch = CHR ''_'' \<or> is_ascii_alphanumeric ch) chars
      then Inl (InvalidName label (first # chars)) else Inr ())"

definition strip_suffix_char :: "char \<Rightarrow> string \<Rightarrow> string option" where
  "strip_suffix_char c s = (if s \<noteq> [] \<and> last s = c then Some (butlast s) else None)"

definition parse_actor_resource :: "string \<Rightarrow> effect_error + actor_resource_id" where
  "parse_actor_resource v =
     and_then (ok_or (Option.bind (strip_suffix_char CHR '']'' v) (rsplit_once CHR ''[''))
                 (InvalidActor v)) (\<lambda>(language, env).
     if language = [] then Inl EmptyActorLanguage
     else and_then (ok_or (parse_u32 env) (InvalidActorEnvironment env)) (\<lambda>e.
     if \<not> is_persistent (from_encoded e) then Inl ActorNotPersistent
     else Inr \<lparr>canonical_language = language, environment = e\<rparr>))"

definition parse_kind_value :: "string \<Rightarrow> string \<Rightarrow> string \<Rightarrow> effect_error + resource_key" where
  "parse_kind_value item kind v =
     (if kind = ''project'' then
        (if hd v = CHR ''/'' then Inl (ProjectPathNotRelative v) else Inr (ProjectPath v))
      else if kind = ''host'' then Inr (HostPath v)
      else if kind = ''env'' then
        and_then (validate_identifier v ''environment variable'') (\<lambda>_. Inr (EnvVar v))
      else if kind = ''scope'' then
        and_then (validate_identifier v ''scope binding'') (\<lambda>_. Inr (ScopeBinding v))
      else if kind = ''network'' then Inr (NetworkKey v)
      else if kind = ''service'' then Inr (Service v)
      else if kind = ''actor'' then and_then (parse_actor_resource v) (\<lambda>a. Inr (ActorState a))
      else Inl (UnknownResourceKind kind item))"

definition parse_resource :: "string \<Rightarrow> effect_error + resource_key" where
  "parse_resource item =
     (if item = ''stdio'' then Inr Stdio
      else if item = ''network:*'' \<or> item = ''network'' then Inr NetworkUnknown
      else if item = ''host:*'' \<or> item = ''hostworld'' then Inr HostWorld
      else if item = ''evaluator'' then Inr EvaluatorState
      else and_then (ok_or (split_once CHR '':'' item) (InvalidResource item)) (\<lambda>(kind, v).
        if v = [] then Inl (EmptyResourceIdentity item)
        else if is_governed_source_resource_kind kind then Inl (GovernedResourceKind kind item)
        else parse_kind_value item kind v))"

definition parse_resources :: "string \<Rightarrow> effect_error + footprint" where
  "parse_resources l =
     (if trim l = [] then Inl EmptyResourceList
      else try_fold (\<lambda>acc item.
             if item = [] then Inl (EmptyResource l)
             else and_then (parse_resource item) (\<lambda>k. Inr (bt_insert k acc)))
             [] (map trim (split_where (\<lambda>c. c = CHR ''+'' \<or> c = CHR '';'') l)))"

subsection \<open>Attribute entries\<close>

text \<open>The parser's loop state: the declaration and the four \<open>seen\<close> flags.\<close>

record declaration_state =
  ds_declaration :: effect_declaration
  ds_seen_effects :: bool
  ds_seen_reads :: bool
  ds_seen_writes :: bool
  ds_seen_serial :: bool

definition parse_purity :: "string \<Rightarrow> effect_error + declared_purity" where
  "parse_purity v =
     (if v = ''pure'' then Inr PureD
      else if v = ''unknown'' then Inr UnknownD
      else Inl (InvalidClassification v))"

definition parse_entry :: "declaration_state \<Rightarrow> string \<Rightarrow> effect_error + declaration_state" where
  "parse_entry st entry =
     (let d = ds_declaration st in
      if entry = [] then Inl EmptyAttribute
      else case strip_prefix ''effects='' entry of
        Some v \<Rightarrow>
          if ds_seen_effects st then Inl (DuplicateDeclaration ''effects='')
          else and_then (parse_purity v) (\<lambda>p.
            Inr (st\<lparr>ds_seen_effects := True, ds_declaration := d\<lparr>ed_purity := Some p\<rparr>\<rparr>))
      | None \<Rightarrow>
      (case strip_prefix ''reads='' entry of
        Some v \<Rightarrow>
          if ds_seen_reads st then Inl (DuplicateDeclaration ''reads='')
          else and_then (parse_resources v) (\<lambda>rs.
            Inr (st\<lparr>ds_seen_reads := True, ds_declaration := d\<lparr>ed_reads := rs\<rparr>\<rparr>))
      | None \<Rightarrow>
      (case strip_prefix ''writes='' entry of
        Some v \<Rightarrow>
          if ds_seen_writes st then Inl (DuplicateDeclaration ''writes='')
          else and_then (parse_resources v) (\<lambda>rs.
            Inr (st\<lparr>ds_seen_writes := True, ds_declaration := d\<lparr>ed_writes := rs\<rparr>\<rparr>))
      | None \<Rightarrow>
      (case strip_prefix ''serial='' entry of
        Some v \<Rightarrow>
          if ds_seen_serial st then Inl (DuplicateDeclaration ''serial='')
          else if v \<noteq> ''host'' then Inl (InvalidSerialization v)
          else Inr (st\<lparr>ds_seen_serial := True, ds_declaration := d\<lparr>ed_serial_host := True\<rparr>\<rparr>)
      | None \<Rightarrow> Inr st))))"

definition parse_declaration :: "string option \<Rightarrow> effect_error + effect_declaration" where
  "parse_declaration attr =
     (case attr of
        None \<Rightarrow> Inr empty_declaration
      | Some a \<Rightarrow>
          and_then (try_fold parse_entry
             \<lparr>ds_declaration = empty_declaration, ds_seen_effects = False, ds_seen_reads = False,
              ds_seen_writes = False, ds_seen_serial = False\<rparr>
             (map trim (split_char CHR '','' a))) (\<lambda>st. Inr (ds_declaration st)))"

definition insert_host_world :: "effect_summary \<Rightarrow> effect_summary" where
  "insert_host_world s =
     s\<lparr>es_reads := bt_insert HostWorld (es_reads s), es_writes := bt_insert HostWorld (es_writes s)\<rparr>"

definition apply_checked ::
  "effect_declaration \<Rightarrow> effect_summary \<Rightarrow> effect_trust_policy \<Rightarrow> effect_error + effect_summary" where
  "apply_checked d base policy =
     (let base_was_verified_pure = is_verified_pure_infallible base in
      and_then
        (case ed_purity d of
           Some PureD \<Rightarrow> if \<not> base_was_verified_pure then Inl PureUpgrade else Inr base
         | None \<Rightarrow> Inr base
         | Some UnknownD \<Rightarrow>
             Inr (insert_host_world
               (base\<lparr>es_deterministic := False, es_fallibility := MayFail, es_unknown := True,
                     es_confidence := Conservative\<rparr>)))
        (\<lambda>s0.
         let has_declared_resources = (ed_reads d \<noteq> [] \<or> ed_writes d \<noteq> [] \<or> ed_serial_host d);
             has_declared_host_resources =
               (ed_serial_host d \<or> list_ex is_host_resource (ed_reads d) \<or>
                list_ex is_host_resource (ed_writes d));
             s1 = s0\<lparr>es_reads := bt_extend (es_reads s0) (ed_reads d),
                     es_writes := bt_extend (es_writes s0) (ed_writes d)\<rparr>;
             s2 = (if ed_serial_host d then insert_host_world s1 else s1);
             s3 = (if base_was_verified_pure \<and> has_declared_host_resources
                   then insert_host_world s2 else s2);
             s4 = (if base_was_verified_pure \<and> has_declared_resources \<and> ed_purity d \<noteq> Some UnknownD
                   then s3\<lparr>es_confidence := UserDeclared\<rparr> else s3)
         in Inr s4))"

section \<open>Effects of a plan node\<close>

definition is_inline_renderer :: "string \<Rightarrow> bool" where
  "is_inline_renderer c \<longleftrightarrow> c \<in> set [''html'', ''markdown'', ''text'', ''latex'']"

definition has_deferred_control :: "string option \<Rightarrow> bool" where
  "has_deferred_control attr \<longleftrightarrow>
     list_ex (\<lambda>e. e = ''lazy'' \<or> e = ''defer'') (attr_entries attr)"

definition map_err :: "('e \<Rightarrow> 'f) \<Rightarrow> 'e + 'a \<Rightarrow> 'f + 'a" where
  "map_err f r = (case r of Inl e \<Rightarrow> Inl (f e) | Inr x \<Rightarrow> Inr x)"

definition exec_base_summary :: "u32 \<Rightarrow> string option \<Rightarrow> backend_interface \<Rightarrow> effect_summary" where
  "exec_base_summary env attr backend =
     (let trusted_inline = (pure backend \<and> execution backend = InlineValue \<and>
            is_inline_renderer (canonical backend) \<and> \<not> has_deferred_control attr);
          summary = (if trusted_inline then pure_summary else conservative_evaluator)
      in if execution backend = Shim \<and> is_persistent (from_encoded env)
         then with_actor_state \<lparr>canonical_language = canonical backend, environment = env\<rparr> summary
         else summary)"

fun effect_summary_for_plan_node :: "nat \<Rightarrow> plan_node_kind \<Rightarrow> effect_error + effect_summary" where
  "effect_summary_for_plan_node i TextK = Inr pure_summary"
| "effect_summary_for_plan_node i (LoadK name) =
     Inr (pure_summary\<lparr>es_fallibility := MayFail,
                       es_reads := bt_insert (ScopeBinding name) (es_reads pure_summary)\<rparr>)"
| "effect_summary_for_plan_node i (StoreK name) =
     Inr (pure_summary\<lparr>es_writes := bt_insert (ScopeBinding name) (es_writes pure_summary)\<rparr>)"
| "effect_summary_for_plan_node i (GroupK _ _) = Inr pure_summary"
| "effect_summary_for_plan_node i (CallK _ _ _) = Inr conservative_evaluator"
| "effect_summary_for_plan_node i (RequestK _ _ _) = Inr conservative_evaluator"
| "effect_summary_for_plan_node i (ScheduleK _ _ _) = Inr conservative_evaluator"
| "effect_summary_for_plan_node i (ExecK _ env attr backend) =
     and_then (map_err (PlanNodeEffect i) (parse_declaration attr)) (\<lambda>d.
     map_err (PlanNodeEffect i) (apply_checked d (exec_base_summary env attr backend) Strict))"

end
