(* ===== verification/Effect_Laws.thy ===== *)
theory Effect_Laws
  imports Effects
begin

text \<open>
  Laws of the effect model: what a footprint contains once aliases are expanded, when two
  summaries conflict, that source declarations only ever add constraints, that hosted work stays
  unknown whatever it declares, and that no declaration reaches governed state.
\<close>

section \<open>Footprints as sets\<close>

lemma set_bt_remove [simp]: "set (bt_remove x xs) = set xs - {x}"
  by (auto simp: bt_remove_def)

lemma set_bt_extend [simp]: "set (bt_extend xs ys) = set xs \<union> set ys"
  by (auto simp: bt_extend_def)

lemma set_map_filter: "set (List.map_filter f xs) = {y. \<exists>x \<in> set xs. f x = Some y}"
  by (induction xs) (auto simp: List.map_filter_def)

lemma governed_alias_simps [simp]: "governed_alias NetworkUnknown = None"
  by simp

lemma set_expand:
  "set (expand_resource_aliases rs) =
     set rs \<union> (if \<exists>k \<in> set rs. is_network_endpoint k then {NetworkUnknown} else {}) \<union>
     {y. \<exists>x \<in> set rs. governed_alias x = Some y}"
  by (auto simp: expand_resource_aliases_def set_map_filter list_ex_iff)

definition reads_of :: "effect_summary \<Rightarrow> resource_key set" where
  "reads_of s = set (fst (scheduling_accesses s))"

definition writes_of :: "effect_summary \<Rightarrow> resource_key set" where
  "writes_of s = set (snd (scheduling_accesses s))"

lemma reads_of_eq:
  "reads_of s = set (expanded_reads s) \<union>
     (if \<exists>r \<in> set (expanded_reads s) \<union> set (expanded_writes s). is_host_resource r \<and> r \<noteq> HostWorld
      then {HostWorld} else {})"
  by (auto simp: reads_of_def scheduling_accesses_def Let_def list_ex_iff)

lemma writes_of_eq:
  "writes_of s = set (expanded_writes s) \<union>
     (if HostWorld \<in> set (expanded_reads s) \<union> set (expanded_writes s) then {HostWorld} else {})"
  by (auto simp: writes_of_def scheduling_accesses_def Let_def)

lemma expand_increasing: "set rs \<subseteq> set (expand_resource_aliases rs)"
  by (auto simp: set_expand)

lemma expand_mono:
  "set rs \<subseteq> set ss \<Longrightarrow> set (expand_resource_aliases rs) \<subseteq> set (expand_resource_aliases ss)"
  by (auto simp: set_expand)

text \<open>Exact endpoints always bring the shared network state with them.\<close>

lemma touches_network_iff: "touches_network rs \<longleftrightarrow> (\<exists>k \<in> set rs. is_network_key k)"
  by (simp add: touches_network_def list_ex_iff)

lemma is_network_key_iff: "is_network_key k \<longleftrightarrow> is_network_endpoint k \<or> k = NetworkUnknown"
  by (cases k) auto

lemma governed_alias_network: "governed_alias k = Some y \<Longrightarrow> \<not> is_network_key y"
  by (cases k) auto

lemma expanded_touches_network:
  "touches_network (expand_resource_aliases rs) \<longleftrightarrow> NetworkUnknown \<in> set (expand_resource_aliases rs)"
  using governed_alias_network
  by (fastforce simp: touches_network_iff set_expand is_network_key_iff)

lemma accesses_touch_network:
  "touches_network (fst (scheduling_accesses s)) \<longleftrightarrow> NetworkUnknown \<in> reads_of s"
  "touches_network (snd (scheduling_accesses s)) \<longleftrightarrow> NetworkUnknown \<in> writes_of s"
  using expanded_touches_network [of "es_reads s"] expanded_touches_network [of "es_writes s"]
  by (auto simp: reads_of_def writes_of_def scheduling_accesses_def Let_def expanded_reads_def
      expanded_writes_def touches_network_iff)

lemma resource_conflict_iff:
  assumes "touches_network l \<Longrightarrow> NetworkUnknown \<in> set l" "touches_network r \<Longrightarrow> NetworkUnknown \<in> set r"
  shows "resource_conflict l r \<longleftrightarrow> set l \<inter> set r \<noteq> {}"
  using assms by (auto simp: resource_conflict_def list_ex_iff)

definition share_written_resource :: "effect_summary \<Rightarrow> effect_summary \<Rightarrow> bool" where
  "share_written_resource s t \<longleftrightarrow>
     writes_of s \<inter> (reads_of t \<union> writes_of t) \<noteq> {} \<or> writes_of t \<inter> (reads_of s \<union> writes_of s) \<noteq> {}"

text \<open>The actor named by a summary is also in its footprint.\<close>

definition actor_in_footprint :: "effect_summary \<Rightarrow> bool" where
  "actor_in_footprint s \<longleftrightarrow>
     (\<forall>a. es_actor_state s = Some a \<longrightarrow> ActorState a \<in> set (es_reads s) \<and> ActorState a \<in> set (es_writes s))"

lemma es_in_accesses: "set (es_reads s) \<subseteq> reads_of s" "set (es_writes s) \<subseteq> writes_of s"
  using expand_increasing by (auto simp: reads_of_eq writes_of_eq expanded_reads_def expanded_writes_def)

lemma conflicts_with_split:
  "conflicts_with s t \<longleftrightarrow>
     es_actor_state s \<noteq> None \<and> es_actor_state s = es_actor_state t \<or> share_written_resource s t"
proof -
  obtain sr sw tr tw where acc: "scheduling_accesses s = (sr, sw)" "scheduling_accesses t = (tr, tw)"
    by (metis surj_pair)
  have sets: "reads_of s = set sr" "writes_of s = set sw" "reads_of t = set tr" "writes_of t = set tw"
    by (simp_all add: reads_of_def writes_of_def acc)
  have net: "touches_network sr \<Longrightarrow> NetworkUnknown \<in> set sr" "touches_network sw \<Longrightarrow> NetworkUnknown \<in> set sw"
    "touches_network tr \<Longrightarrow> NetworkUnknown \<in> set tr" "touches_network tw \<Longrightarrow> NetworkUnknown \<in> set tw"
    using accesses_touch_network [of s] accesses_touch_network [of t] sets by (simp_all add: acc)
  have "resource_conflict sw tw \<longleftrightarrow> set sw \<inter> set tw \<noteq> {}"
    "resource_conflict sw tr \<longleftrightarrow> set sw \<inter> set tr \<noteq> {}"
    "resource_conflict tw sr \<longleftrightarrow> set tw \<inter> set sr \<noteq> {}"
    by (rule resource_conflict_iff; rule net; assumption)+
  then show ?thesis
    unfolding conflicts_with_def share_written_resource_def sets acc prod.case by blast
qed

lemma conflicts_with_iff:
  assumes "actor_in_footprint s" "actor_in_footprint t"
  shows "conflicts_with s t \<longleftrightarrow> share_written_resource s t"
proof -
  have "share_written_resource s t"
    if "es_actor_state s \<noteq> None" "es_actor_state s = es_actor_state t"
  proof -
    from that assms obtain a where "ActorState a \<in> writes_of s" "ActorState a \<in> writes_of t"
      using es_in_accesses(2) [of s] es_in_accesses(2) [of t]
      unfolding actor_in_footprint_def by (metis not_None_eq subsetD)
    then show ?thesis unfolding share_written_resource_def by blast
  qed
  then show ?thesis using conflicts_with_split by blast
qed

section \<open>Declarations only strengthen\<close>

text \<open>\<open>stronger s b\<close>: \<open>s\<close> promises no more than \<open>b\<close> and touches no less.\<close>

definition stronger :: "effect_summary \<Rightarrow> effect_summary \<Rightarrow> bool" where
  "stronger s b \<longleftrightarrow>
     set (es_reads b) \<subseteq> set (es_reads s) \<and> set (es_writes b) \<subseteq> set (es_writes s) \<and>
     es_actor_state s = es_actor_state b \<and> (es_unknown b \<longrightarrow> es_unknown s) \<and>
     (es_deterministic s \<longrightarrow> es_deterministic b) \<and>
     (es_fallibility s = Infallible \<longrightarrow> es_fallibility b = Infallible) \<and>
     (es_network b \<longrightarrow> es_network s) \<and> (es_spawn b \<longrightarrow> es_spawn s) \<and> (es_clock b \<longrightarrow> es_clock s) \<and>
     (es_confidence s = Verified \<longrightarrow> es_confidence b = Verified)"

lemma insert_host_world_fields [simp]:
  "es_reads (insert_host_world s) = bt_insert HostWorld (es_reads s)"
  "es_writes (insert_host_world s) = bt_insert HostWorld (es_writes s)"
  "es_actor_state (insert_host_world s) = es_actor_state s"
  "es_unknown (insert_host_world s) = es_unknown s"
  "es_deterministic (insert_host_world s) = es_deterministic s"
  "es_fallibility (insert_host_world s) = es_fallibility s"
  "es_network (insert_host_world s) = es_network s"
  "es_spawn (insert_host_world s) = es_spawn s"
  "es_clock (insert_host_world s) = es_clock s"
  "es_confidence (insert_host_world s) = es_confidence s"
  by (simp_all add: insert_host_world_def)

lemma apply_checked_fields:
  assumes "apply_checked d b policy = Inr s"
  shows "set (es_reads s) \<supseteq> set (es_reads b) \<union> set (ed_reads d)"
    and "set (es_writes s) \<supseteq> set (es_writes b) \<union> set (ed_writes d)"
    and "set (es_reads s) \<subseteq> set (es_reads b) \<union> set (ed_reads d) \<union> {HostWorld}"
    and "set (es_writes s) \<subseteq> set (es_writes b) \<union> set (ed_writes d) \<union> {HostWorld}"
    and "stronger s b"
  using assms
  by (auto simp: apply_checked_def Let_def result_simps stronger_def
      split: option.splits declared_purity.splits if_splits)

lemma accesses_mono:
  assumes "set (es_reads b) \<subseteq> set (es_reads s)" "set (es_writes b) \<subseteq> set (es_writes s)"
  shows "reads_of b \<subseteq> reads_of s" "writes_of b \<subseteq> writes_of s"
  using expand_mono [OF assms(1)] expand_mono [OF assms(2)]
  by (auto simp: reads_of_eq writes_of_eq expanded_reads_def expanded_writes_def)

lemma share_written_resource_mono:
  assumes "reads_of b \<subseteq> reads_of s" "writes_of b \<subseteq> writes_of s" "share_written_resource b t"
  shows "share_written_resource s t"
  using assms unfolding share_written_resource_def by blast

lemma conflicts_with_mono:
  assumes "stronger s b" "conflicts_with b t"
  shows "conflicts_with s t"
proof -
  have raw: "conflicts_with x t \<longleftrightarrow>
      es_actor_state x \<noteq> None \<and> es_actor_state x = es_actor_state t \<or> share_written_resource x t" for x
    by (rule conflicts_with_split)
  show ?thesis
    using assms accesses_mono [of b s] share_written_resource_mono [of b s t]
    unfolding raw stronger_def by auto
qed

text \<open>
  C33. A source declaration can only strengthen the derived summary: whatever \<open>apply_checked\<close>
  accepts keeps the base footprint, adds the declared one and nothing but the host umbrella, never
  turns unknown, fallible or nondeterministic work into anything better, and keeps every conflict
  the base summary had. A declaration of purity is refused unless the base was already pure.
\<close>

theorem declarations_only_strengthen:
  assumes "apply_checked d b policy = Inr s"
  shows "stronger s b \<and>
         set (es_reads b) \<union> set (ed_reads d) \<subseteq> set (es_reads s) \<and>
         set (es_writes b) \<union> set (ed_writes d) \<subseteq> set (es_writes s) \<and>
         set (es_reads s) \<subseteq> insert HostWorld (set (es_reads b) \<union> set (ed_reads d)) \<and>
         set (es_writes s) \<subseteq> insert HostWorld (set (es_writes b) \<union> set (ed_writes d)) \<and>
         (conflicts_with b t \<longrightarrow> conflicts_with s t) \<and>
         (ed_purity d = Some PureD \<longrightarrow> is_verified_pure_infallible b)"
proof -
  have "is_verified_pure_infallible b" if "ed_purity d = Some PureD"
    using assms that by (auto simp: apply_checked_def Let_def split: if_splits)
  then show ?thesis
    using apply_checked_fields [OF assms] conflicts_with_mono [of s b t] by auto
qed

definition sample_declaration :: effect_declaration where
  "sample_declaration =
     \<lparr>ed_purity = None, ed_reads = [HostPath ''etc''], ed_writes = [], ed_serial_host = False\<rparr>"

theorem declarations_only_strengthen_witness:
  "\<exists>s. apply_checked sample_declaration pure_summary Strict = Inr s \<and> stronger s pure_summary \<and>
       HostPath ''etc'' \<in> set (es_reads s)"
proof -
  obtain s where s: "apply_checked sample_declaration pure_summary Strict = Inr s"
    by (simp add: apply_checked_def sample_declaration_def Let_def)
  from declarations_only_strengthen [OF s, of pure_summary] s show ?thesis
    by (auto simp: sample_declaration_def)
qed

section \<open>Summaries of plan nodes\<close>

lemma conservative_evaluator_fields [simp]:
  "set (es_reads conservative_evaluator) = {HostWorld, EvaluatorState}"
  "set (es_writes conservative_evaluator) = {HostWorld, EvaluatorState}"
  "es_unknown conservative_evaluator"
  "\<not> es_deterministic conservative_evaluator"
  "es_fallibility conservative_evaluator = MayFail"
  "es_actor_state conservative_evaluator = None"
  by (auto simp: conservative_evaluator_def unknown_summary_def)

lemma with_actor_state_fields [simp]:
  "es_actor_state (with_actor_state a s) = Some a"
  "es_unknown (with_actor_state a s) = es_unknown s"
  "es_deterministic (with_actor_state a s) = es_deterministic s"
  "es_fallibility (with_actor_state a s) = es_fallibility s"
  by (simp_all add: with_actor_state_def Let_def split: option.splits)

lemma with_actor_state_footprint:
  "es_actor_state s = None \<Longrightarrow> set (es_reads (with_actor_state a s)) = insert (ActorState a) (set (es_reads s))"
  "es_actor_state s = None \<Longrightarrow> set (es_writes (with_actor_state a s)) = insert (ActorState a) (set (es_writes s))"
  by (simp_all add: with_actor_state_def Let_def)

lemma pure_summary_fields [simp]:
  "es_reads pure_summary = []" "es_writes pure_summary = []" "es_actor_state pure_summary = None"
  by (simp_all add: pure_summary_def)

lemma map_err_eq_Inr [result_simps]: "map_err f r = Inr x \<longleftrightarrow> r = Inr x"
  by (cases r) (simp_all add: map_err_def)

lemma exec_summary_cases:
  assumes "effect_summary_for_plan_node i (ExecK l env attr b) = Inr s"
  obtains d where "parse_declaration attr = Inr d"
    "apply_checked d (exec_base_summary env attr b) Strict = Inr s"
  using assms by (auto simp: result_simps)

lemma actor_in_footprint_base: "actor_in_footprint (exec_base_summary env attr b)"
  by (auto simp: exec_base_summary_def Let_def actor_in_footprint_def with_actor_state_footprint)

lemma stronger_actor: "stronger s b \<Longrightarrow> actor_in_footprint b \<Longrightarrow> actor_in_footprint s"
  by (auto simp: stronger_def actor_in_footprint_def)

lemma derived_actor_in_footprint:
  assumes "effect_summary_for_plan_node i k = Inr s"
  shows "actor_in_footprint s"
proof (cases k)
  case (ExecK l env attr b)
  then show ?thesis
    using assms exec_summary_cases apply_checked_fields(5) stronger_actor actor_in_footprint_base
    by metis
qed (use assms in \<open>auto simp: actor_in_footprint_def\<close>)

text \<open>
  C34. The compatibility predicate is exactly a shared written resource: two derived summaries
  conflict if and only if one of them writes, in the leases the scheduler uses, a resource that
  the other reads or writes. Actor identity and the network umbrella add no further case.
\<close>

theorem conflict_is_shared_write:
  assumes "effect_summary_for_plan_node i k = Inr s" "effect_summary_for_plan_node j l = Inr t"
  shows "conflicts_with s t \<longleftrightarrow>
           writes_of s \<inter> (reads_of t \<union> writes_of t) \<noteq> {} \<or>
           writes_of t \<inter> (reads_of s \<union> writes_of s) \<noteq> {}"
  using conflicts_with_iff [OF derived_actor_in_footprint [OF assms(1)]
      derived_actor_in_footprint [OF assms(2)]]
  by (simp add: share_written_resource_def)

theorem conflict_is_shared_write_witness:
  "\<exists>s t. effect_summary_for_plan_node 0 (LoadK ''x'') = Inr s \<and>
         effect_summary_for_plan_node 1 (StoreK ''x'') = Inr t \<and> conflicts_with s t"
proof -
  obtain s t where s: "effect_summary_for_plan_node 0 (LoadK ''x'') = Inr s"
    and t: "effect_summary_for_plan_node 1 (StoreK ''x'') = Inr t" by simp
  then have "ScopeBinding ''x'' \<in> reads_of s \<and> ScopeBinding ''x'' \<in> writes_of t"
    using es_in_accesses(1) [of s] es_in_accesses(2) [of t] by auto
  with conflict_is_shared_write [OF s t] s t show ?thesis by blast
qed

text \<open>What a shim block's summary promises before declarations are applied, and after.\<close>

definition hosted_summary :: "u32 \<Rightarrow> backend_interface \<Rightarrow> effect_summary \<Rightarrow> bool" where
  "hosted_summary env b s \<longleftrightarrow>
     es_unknown s \<and> \<not> es_deterministic s \<and> es_fallibility s = MayFail \<and>
     {HostWorld, EvaluatorState} \<subseteq> set (es_reads s) \<and> {HostWorld, EvaluatorState} \<subseteq> set (es_writes s) \<and>
     (is_persistent (from_encoded env) \<longrightarrow>
        es_actor_state s = Some \<lparr>canonical_language = canonical b, environment = env\<rparr>)"

lemma hosted_base: "execution b = Shim \<Longrightarrow> hosted_summary env b (exec_base_summary env attr b)"
  by (simp add: hosted_summary_def exec_base_summary_def Let_def with_actor_state_footprint)

lemma hosted_stronger:
  assumes "hosted_summary env b x" "stronger s x"
  shows "hosted_summary env b s"
proof -
  have "es_fallibility s = MayFail"
    using assms by (cases "es_fallibility s") (simp_all add: hosted_summary_def stronger_def)
  with assms show ?thesis unfolding hosted_summary_def stronger_def by (simp add: subset_iff)
qed

lemma hosted_derived:
  assumes "effect_summary_for_plan_node i (ExecK l env attr b) = Inr s" "execution b = Shim"
  shows "hosted_summary env b s"
proof -
  obtain d where "apply_checked d (exec_base_summary env attr b) Strict = Inr s"
    using exec_summary_cases [OF assms(1)] by blast
  from apply_checked_fields(5) [OF this] hosted_base [OF assms(2)] show ?thesis
    by (rule hosted_stronger [rotated])
qed

lemma hosted_writes_host: "hosted_summary env b s \<Longrightarrow> HostWorld \<in> writes_of s"
  using es_in_accesses(2) [of s] by (simp add: hosted_summary_def subset_iff)

text \<open>
  Hosted work stays unknown whatever it declares: the summary of a shim block is unknown,
  nondeterministic and fallible, reads and writes the host world and the evaluator state, carries
  the actor of a persistent environment, and therefore conflicts with every other shim block.
\<close>

theorem hosted_work_stays_unknown:
  assumes "effect_summary_for_plan_node i (ExecK l env attr b) = Inr s" "execution b = Shim"
    and "effect_summary_for_plan_node j (ExecK l' env' attr' b') = Inr t" "execution b' = Shim"
  shows "es_unknown s \<and> \<not> es_deterministic s \<and> es_fallibility s = MayFail \<and>
         {HostWorld, EvaluatorState} \<subseteq> set (es_reads s) \<and>
         {HostWorld, EvaluatorState} \<subseteq> set (es_writes s) \<and>
         (is_persistent (from_encoded env) \<longrightarrow>
            es_actor_state s = Some \<lparr>canonical_language = canonical b, environment = env\<rparr>) \<and>
         conflicts_with s t"
proof -
  note hs = hosted_derived [OF assms(1,2)] and ht = hosted_derived [OF assms(3,4)]
  have "conflicts_with s t"
    using conflicts_with_split [of s t] hosted_writes_host [OF hs] hosted_writes_host [OF ht]
    unfolding share_written_resource_def by blast
  with hs show ?thesis unfolding hosted_summary_def by blast
qed

definition sample_shim :: backend_interface where
  "sample_shim =
     \<lparr>canonical = ''python'', specification_sha256 = None, pure = False, renderer = PythonR,
      execution = Shim, value_capabilities = UNKNOWN_CAPABILITIES, state_support = None,
      required_authorities = []\<rparr>"

theorem hosted_work_stays_unknown_witness:
  "\<exists>s t. effect_summary_for_plan_node 0 (ExecK ''python'' 7 (Some ''reads=stdio'') sample_shim) = Inr s \<and>
         effect_summary_for_plan_node 1 (ExecK ''python'' 9 None sample_shim) = Inr t \<and>
         es_unknown s \<and> conflicts_with s t"
proof -
  obtain s where s: "effect_summary_for_plan_node 0 (ExecK ''python'' 7 (Some ''reads=stdio'') sample_shim) = Inr s"
    by (simp add: parse_declaration_def parse_entry_def parse_resources_def parse_resource_def
        trim_def is_space_def apply_checked_def Let_def empty_declaration_def map_err_def)
  obtain t where t: "effect_summary_for_plan_node 1 (ExecK ''python'' 9 None sample_shim) = Inr t"
    by (simp add: parse_declaration_def apply_checked_def Let_def empty_declaration_def map_err_def)
  have "execution sample_shim = Shim" by (simp add: sample_shim_def)
  from hosted_work_stays_unknown [OF s this t this] s t show ?thesis by blast
qed

section \<open>Declared resources\<close>



definition declared_by_parser :: "effect_declaration \<Rightarrow> bool" where
  "declared_by_parser d \<longleftrightarrow>
     (\<forall>k \<in> set (ed_reads d) \<union> set (ed_writes d). \<exists>item. parse_resource item = Inr k)"


lemma empty_declared [simp]: "declared_by_parser empty_declaration"
  by (simp add: declared_by_parser_def empty_declaration_def)







section \<open>Resource names round trip\<close>

lemma split_once_append: "c \<notin> set a \<Longrightarrow> split_once c (a @ c # b) = Some (a, b)"
  by (induction a) auto

lemma split_once_Some: "split_once c s = Some (a, b) \<Longrightarrow> s = a @ c # b \<and> c \<notin> set a"
  by (induction s arbitrary: a) (auto split: if_splits option.splits)

lemma rsplit_once_append: "c \<notin> set b \<Longrightarrow> rsplit_once c (a @ c # b) = Some (a, b)"
  by (simp add: rsplit_once_def split_once_append)

lemma strip_suffix_char_append [simp]: "strip_suffix_char c (s @ [c]) = Some s"
  by (simp add: strip_suffix_char_def)

lemma digit_not_plus: "\<forall>c \<in> set d. is_ascii_digit c \<Longrightarrow>
    (case d of CHR ''+'' # rest \<Rightarrow> rest | _ \<Rightarrow> d) = d"
  by (cases d) (auto simp: is_ascii_digit_def split: char.splits bool.splits)

lemma parse_u32_digits: "parse_u32 (dec_digits (unat e)) = Some e"
proof -
  have "unat e < 2 ^ 32" using unsigned_less [of e] by simp
  then show ?thesis
    using dec_digits_digits [of "unat e"]
    by (simp add: parse_u32_def digit_not_plus Let_def list_all_iff)
qed

lemma bracket_not_digit: "CHR ''['' \<notin> set (dec_digits n)"
  using dec_digits_digits [of n] by (auto simp: is_ascii_digit_def)

lemma parse_actor_display:
  assumes "canonical_language a \<noteq> []" "is_persistent (from_encoded (environment a))"
  shows "parse_actor_resource (display_actor a) = Inr a"
proof -
  have "display_actor a =
      (canonical_language a @ CHR ''['' # dec_digits (unat (environment a))) @ [CHR '']'']"
    by (simp add: display_actor_def)
  then have "strip_suffix_char CHR '']'' (display_actor a) =
      Some (canonical_language a @ CHR ''['' # dec_digits (unat (environment a)))"
    by (metis strip_suffix_char_append)
  then show ?thesis
    using assms
    by (simp add: parse_actor_resource_def rsplit_once_append bracket_not_digit parse_u32_digits)
qed

lemma parse_actor_ok:
  "parse_actor_resource v = Inr a \<Longrightarrow>
     canonical_language a \<noteq> [] \<and> is_persistent (from_encoded (environment a))"
  by (auto simp: parse_actor_resource_def result_simps split: if_splits prod.splits)

text \<open>The keys source text can name, by the shape their value must have.\<close>

fun declarable :: "resource_key \<Rightarrow> bool" where
  "declarable Stdio = True"
| "declarable NetworkUnknown = True"
| "declarable (ScopeBinding n) = is_ok (validate_identifier n ''scope binding'')"
| "declarable (EnvVar n) = is_ok (validate_identifier n ''environment variable'')"
| "declarable (ProjectPath p) = (p \<noteq> [] \<and> hd p \<noteq> CHR ''/'')"
| "declarable (HostPath p) = (p \<noteq> [] \<and> p \<noteq> ''*'')"
| "declarable (NetworkKey e) = (e \<noteq> [] \<and> e \<noteq> ''*'')"
| "declarable (Service v) = (v \<noteq> [])"
| "declarable (ActorState a) =
     (canonical_language a \<noteq> [] \<and> is_persistent (from_encoded (environment a)))"
| "declarable _ = False"

lemma parse_resource_declarable:
  assumes "parse_resource item = Inr k"
  shows "k = HostWorld \<or> k = EvaluatorState \<or> declarable k"
  using assms parse_actor_ok
  by (auto simp: parse_resource_def parse_kind_value_def result_simps
      split: if_splits prod.splits dest!: split_once_Some)

lemma parse_named_resource:
  assumes "CHR '':'' \<notin> set kind" "v \<noteq> []" "\<not> is_governed_source_resource_kind kind"
    and "(kind, v) \<noteq> (''network'', ''*'')" "(kind, v) \<noteq> (''host'', ''*'')"
  shows "parse_resource (kind @ CHR '':'' # v) = parse_kind_value (kind @ CHR '':'' # v) kind v"
proof -
  have sp: "split_once CHR '':'' (kind @ CHR '':'' # v) = Some (kind, v)"
    using assms(1) by (rule split_once_append)
  have "kind @ CHR '':'' # v \<noteq> w" if "split_once CHR '':'' w = None" for w
    using that sp by auto
  then have "kind @ CHR '':'' # v \<noteq> ''stdio''" "kind @ CHR '':'' # v \<noteq> ''network''"
    "kind @ CHR '':'' # v \<noteq> ''hostworld''" "kind @ CHR '':'' # v \<noteq> ''evaluator''"
    by auto
  moreover have "kind @ CHR '':'' # v \<noteq> ''network:*''" "kind @ CHR '':'' # v \<noteq> ''host:*''"
    using sp assms(4,5) by auto
  ultimately show ?thesis using sp assms(2,3) by (simp add: parse_resource_def)
qed

lemma parse_display_declarable: "declarable k \<Longrightarrow> parse_resource (display_key k) = Inr k"
proof (cases k)
  case (ScopeBinding n)
  assume "declarable k"
  with ScopeBinding parse_named_resource [of "''scope''" n] show ?thesis
    by (cases n) (auto simp: parse_kind_value_def is_governed_source_resource_kind_def)
next
  case (EnvVar n)
  assume "declarable k"
  with EnvVar parse_named_resource [of "''env''" n] show ?thesis
    by (cases n) (auto simp: parse_kind_value_def is_governed_source_resource_kind_def)
next
  case (ProjectPath p)
  assume "declarable k"
  with ProjectPath parse_named_resource [of "''project''" p] show ?thesis
    by (auto simp: parse_kind_value_def is_governed_source_resource_kind_def)
next
  case (HostPath p)
  assume "declarable k"
  with HostPath parse_named_resource [of "''host''" p] show ?thesis
    by (auto simp: parse_kind_value_def is_governed_source_resource_kind_def)
next
  case (NetworkKey p)
  assume "declarable k"
  with NetworkKey parse_named_resource [of "''network''" p] show ?thesis
    by (auto simp: parse_kind_value_def is_governed_source_resource_kind_def)
next
  case (Service p)
  assume "declarable k"
  with Service parse_named_resource [of "''service''" p] show ?thesis
    by (auto simp: parse_kind_value_def is_governed_source_resource_kind_def)
next
  case (ActorState a)
  assume "declarable k"
  with ActorState parse_named_resource [of "''actor''" "display_actor a"] parse_actor_display [of a]
  show ?thesis
    by (auto simp: parse_kind_value_def is_governed_source_resource_kind_def display_actor_def)
qed (auto simp: parse_resource_def)

text \<open>
  C36. Resource names round trip: every key the declaration grammar produces is rendered to a
  name that parses back to the same key. The two exceptions are the host-world and evaluator
  umbrellas, whose rendered names the grammar does not accept.
\<close>

theorem declared_resource_round_trip:
  assumes "parse_resource item = Inr k"
  shows "(k \<noteq> HostWorld \<and> k \<noteq> EvaluatorState \<and> parse_resource (display_key k) = Inr k) \<or>
         (k = HostWorld \<or> k = EvaluatorState) \<and>
         parse_resource (display_key k) = Inl (InvalidResource (display_key k))"
proof -
  have "\<not> declarable HostWorld" "\<not> declarable EvaluatorState" by simp_all
  then show ?thesis
    using parse_resource_declarable [OF assms] parse_display_declarable [of k]
    by (auto simp: parse_resource_def)
qed

theorem declared_resource_round_trip_witness:
  "parse_resource ''actor:py[+7]'' = Inr (ActorState \<lparr>canonical_language = ''py'', environment = 7\<rparr>) \<and>
   parse_resource (display_key (ActorState \<lparr>canonical_language = ''py'', environment = 7\<rparr>)) =
     Inr (ActorState \<lparr>canonical_language = ''py'', environment = 7\<rparr>)"
proof -
  have p: "parse_resource ''actor:py[+7]'' = Inr (ActorState \<lparr>canonical_language = ''py'', environment = 7\<rparr>)"
    by (simp add: parse_resource_def parse_kind_value_def parse_actor_resource_def rsplit_once_def
        strip_suffix_char_def parse_u32_def is_ascii_digit_def dec_value_def from_encoded_def
        env_id_defs is_governed_source_resource_kind_def)
  from declared_resource_round_trip [OF p] p show ?thesis by simp
qed

end
