(* ===== verification/Dispatch.thy ===== *)
theory Dispatch
  imports Effect_Laws Topo
begin

text \<open>
  Dispatch classification (\<open>dispatch_model.rs\<close>): which preparation adapter an operation
  describes, and when a fresh hosted block sits inside an explicit autonomous group. The two
  ancestor walks follow structural parents and stop when they meet a node again, so they end on
  any plan; an index outside the plan's node vector is the panic \<open>IndexPanic\<close>.
\<close>

section \<open>Adapters\<close>

datatype dispatch_adapter =
    CoordinatorV1
  | OScopeLoadV1
  | TrustedInlineRendererV1
  | AutonomousEphemeralShimV1

fun adapter_name :: "dispatch_adapter \<Rightarrow> string" where
  "adapter_name CoordinatorV1 = ''coordinator/v1''"
| "adapter_name OScopeLoadV1 = ''o-scope-load/v1''"
| "adapter_name TrustedInlineRendererV1 = ''trusted-inline-renderer/v1''"
| "adapter_name AutonomousEphemeralShimV1 = ''autonomous-ephemeral-shim/v1''"

definition is_local_worker :: "dispatch_adapter \<Rightarrow> bool" where
  "is_local_worker a \<longleftrightarrow> a \<noteq> CoordinatorV1"

datatype task_kind =
    RendererTask splice_renderer string
  | LoadTask string
  | EphemeralShimTask string splice_renderer

fun task_adapter :: "task_kind \<Rightarrow> dispatch_adapter" where
  "task_adapter (RendererTask _ _) = TrustedInlineRendererV1"
| "task_adapter (LoadTask _) = OScopeLoadV1"
| "task_adapter (EphemeralShimTask _ _) = AutonomousEphemeralShimV1"

section \<open>Ancestor walks\<close>

definition kind_at :: "execution_plan \<Rightarrow> nat \<Rightarrow> plan_error + plan_node_kind" where
  "kind_at pl i =
     (if i < length (nodes pl) then Inr (node_kind (nodes pl ! i)) else Inl IndexPanic)"

definition structural_parents :: "execution_plan \<Rightarrow> nat \<Rightarrow> nat list" where
  "structural_parents pl i =
     map edge_to (filter (\<lambda>e. edge_kind e = Structural \<and> edge_from e = i) (edges pl))"

text \<open>Blocks an autonomous region looks through: fresh, unattributed, hosted or pure inline.\<close>

fun transparent :: "plan_node_kind \<Rightarrow> bool" where
  "transparent (ExecK _ env attr backend) \<longleftrightarrow>
     is_fresh (from_encoded env) \<and> attr = None \<and>
     (execution backend = Shim \<or> pure backend \<and> execution backend = InlineValue)"
| "transparent _ \<longleftrightarrow> False"

definition unvisited :: "execution_plan \<Rightarrow> nat list \<Rightarrow> nat" where
  "unvisited pl visited = card (edge_from ` set (edges pl) - set visited)"

lemma unvisited_decreases:
  assumes "structural_parents pl current = p # ps" "current \<notin> set visited"
  shows "unvisited pl (current # visited) < unvisited pl visited"
proof -
  have "p \<in> set (structural_parents pl current)" using assms(1) by simp
  then have "current \<in> edge_from ` set (edges pl)" by (auto simp: structural_parents_def)
  then have "edge_from ` set (edges pl) - set (current # visited) \<subset> edge_from ` set (edges pl) - set visited"
    using assms(2) by auto
  then show ?thesis unfolding unvisited_def by (intro psubset_card_mono) auto
qed

function member_walk :: "execution_plan \<Rightarrow> nat list \<Rightarrow> nat \<Rightarrow> plan_error + (nat \<times> nat) option" where
  "member_walk pl visited current =
     (if current \<in> set visited then Inr None
      else case structural_parents pl current of
        [parent] \<Rightarrow>
          (case kind_at pl parent of
             Inl e \<Rightarrow> Inl e
           | Inr (GroupK _ _) \<Rightarrow> Inr (Some (parent, current))
           | Inr (StoreK _) \<Rightarrow> member_walk pl (current # visited) parent
           | Inr k \<Rightarrow>
               if transparent k then member_walk pl (current # visited) parent else Inr None)
      | _ \<Rightarrow> Inr None)"
  by pat_completeness auto
termination
  by (relation "measure (\<lambda>(pl, visited, _). unvisited pl visited)")
    (simp_all add: unvisited_decreases)

function policy_walk :: "execution_plan \<Rightarrow> nat list \<Rightarrow> nat \<Rightarrow> plan_error + bool" where
  "policy_walk pl visited current =
     (if current \<in> set visited then Inr False
      else case structural_parents pl current of
        [parent] \<Rightarrow>
          (case kind_at pl parent of
             Inl e \<Rightarrow> Inl e
           | Inr (ScheduleK _ AutonomousS _) \<Rightarrow> Inr True
           | Inr (ScheduleK _ LazyS _) \<Rightarrow> Inr False
           | Inr (ExecK l env attr b) \<Rightarrow>
               if transparent (ExecK l env attr b) then policy_walk pl (current # visited) parent
               else Inr False
           | Inr _ \<Rightarrow> policy_walk pl (current # visited) parent)
      | _ \<Rightarrow> Inr False)"
  by pat_completeness auto
termination
  by (relation "measure (\<lambda>(pl, visited, _). unvisited pl visited)")
    (simp_all add: unvisited_decreases)

declare member_walk.simps [simp del] policy_walk.simps [simp del]

definition nearest_policy_schedule_is_autonomous :: "execution_plan \<Rightarrow> nat \<Rightarrow> plan_error + bool" where
  "nearest_policy_schedule_is_autonomous pl i = policy_walk pl [] i"

definition autonomous_member :: "execution_plan \<Rightarrow> nat \<Rightarrow> plan_error + (nat \<times> nat) option" where
  "autonomous_member pl i =
     and_then (member_walk pl [] i) (\<lambda>m.
     case m of
       None \<Rightarrow> Inr None
     | Some (g, member) \<Rightarrow>
         and_then (nearest_policy_schedule_is_autonomous pl g) (\<lambda>a.
         Inr (if a then Some (g, member) else None)))"

fun autonomous_ephemeral_group :: "execution_plan \<Rightarrow> nat \<Rightarrow> oir \<Rightarrow> plan_error + nat option" where
  "autonomous_ephemeral_group pl i (Exec _ env attr backend _) =
     (if \<not> is_fresh (from_encoded env) \<or> attr \<noteq> None \<or> execution backend \<noteq> Shim then Inr None
      else and_then (autonomous_member pl i) (\<lambda>m. Inr (map_option fst m)))"
| "autonomous_ephemeral_group pl i _ = Inr None"

section \<open>Classification\<close>

fun renderer_inputs_statically_preparable :: "oir \<Rightarrow> bool"
and renderer_input_statically_preparable :: "oir \<Rightarrow> bool" where
  "renderer_inputs_statically_preparable (Exec _ _ attr backend body) \<longleftrightarrow>
     attr = None \<and> pure backend \<and> execution backend = InlineValue \<and>
     is_inline_renderer (canonical backend) \<and>
     (\<forall>x \<in> set body. renderer_input_statically_preparable x)"
| "renderer_inputs_statically_preparable _ \<longleftrightarrow> False"
| "renderer_input_statically_preparable (Text _) \<longleftrightarrow> True"
| "renderer_input_statically_preparable (Store _ e) \<longleftrightarrow> renderer_input_statically_preparable e"
| "renderer_input_statically_preparable (Exec l env attr b body) \<longleftrightarrow>
     renderer_inputs_statically_preparable (Exec l env attr b body)"
| "renderer_input_statically_preparable _ \<longleftrightarrow> False"

definition classify :: "execution_plan \<Rightarrow> oir \<Rightarrow> nat \<Rightarrow> plan_error + task_kind option" where
  "classify pl x i =
     (case x of
        Load name \<Rightarrow> Inr (Some (LoadTask name))
      | Exec _ _ attr backend _ \<Rightarrow>
          if attr = None \<and> pure backend \<and> execution backend = InlineValue \<and>
             renderer_inputs_statically_preparable x
          then Inr (if is_inline_renderer (canonical backend)
                    then Some (RendererTask (renderer backend) (canonical backend)) else None)
          else and_then (autonomous_ephemeral_group pl i x) (\<lambda>g.
               Inr (if g \<noteq> None then Some (EphemeralShimTask (canonical backend) (renderer backend))
                    else None))
      | _ \<Rightarrow> Inr None)"

definition adapter_matches ::
  "dispatch_adapter \<Rightarrow> execution_plan \<Rightarrow> nat \<Rightarrow> oir \<Rightarrow> plan_error + bool" where
  "adapter_matches a pl i x =
     (case a of
        OScopeLoadV1 \<Rightarrow> Inr (case x of Load _ \<Rightarrow> True | _ \<Rightarrow> False)
      | TrustedInlineRendererV1 \<Rightarrow> Inr (renderer_inputs_statically_preparable x)
      | AutonomousEphemeralShimV1 \<Rightarrow>
          and_then (autonomous_ephemeral_group pl i x) (\<lambda>g. Inr (g \<noteq> None))
      | CoordinatorV1 \<Rightarrow> Inr False)"

fun is_scope_binding :: "resource_key \<Rightarrow> bool" where
  "is_scope_binding (ScopeBinding _) = True"
| "is_scope_binding _ = False"

definition load_contract :: "effect_summary \<Rightarrow> bool" where
  "load_contract s \<longleftrightarrow>
     es_confidence s = Verified \<and> es_deterministic s \<and> es_fallibility s = MayFail \<and>
     \<not> es_unknown s \<and> es_actor_state s = None \<and> es_writes s = [] \<and>
     list_all is_scope_binding (es_reads s) \<and> \<not> es_network s \<and> \<not> es_spawn s \<and> \<not> es_clock s"

definition effect_contract_worker_safe :: "effect_summary \<Rightarrow> oir \<Rightarrow> bool" where
  "effect_contract_worker_safe s x =
     (case x of
        Exec _ env _ backend _ \<Rightarrow>
          if is_fresh (from_encoded env) \<and> execution backend = Shim
          then es_unknown s \<and> es_fallibility s = MayFail \<and> es_actor_state s = None
          else is_verified_pure_infallible s
      | Load _ \<Rightarrow> load_contract s
      | _ \<Rightarrow> is_verified_pure_infallible s)"

section \<open>Correctness of the classification\<close>

lemma ephemeral_group_shape:
  assumes "autonomous_ephemeral_group pl i x = Inr (Some g)"
  obtains l env b body m where "x = Exec l env None b body" "is_fresh (from_encoded env)"
    "execution b = Shim" "autonomous_member pl i = Inr (Some (g, m))"
  using assms by (cases "(pl, i, x)" rule: autonomous_ephemeral_group.cases)
    (auto simp: result_simps split: if_splits)

lemma fresh_base_summary:
  "is_fresh (from_encoded env) \<Longrightarrow> execution b = Shim \<Longrightarrow>
     exec_base_summary env attr b = conservative_evaluator"
  by (simp add: exec_base_summary_def Let_def is_fresh_iff)

lemma unattributed_summary:
  assumes "effect_summary_for_plan_node i (ExecK l env None b) = Inr s"
  shows "s = exec_base_summary env None b"
  using assms
  by (simp add: parse_declaration_def apply_checked_def empty_declaration_def bt_extend_def Let_def map_err_def)

lemma trusted_base_summary:
  "pure b \<Longrightarrow> execution b = InlineValue \<Longrightarrow> is_inline_renderer (canonical b) \<Longrightarrow>
     exec_base_summary env None b = pure_summary"
  by (simp add: exec_base_summary_def Let_def has_deferred_control_def attr_entries_def)

text \<open>
  C37. A task classification is backed by the operation's effects: whenever \<open>classify\<close> offers a
  local worker, its adapter is re-confirmed by \<open>adapter_matches\<close>, is never the coordinator, and
  the summary derived for the operation meets the worker-safety predicate.
\<close>

theorem classification_is_worker_safe:
  assumes "classify pl x i = Inr (Some t)"
    and "effect_summary_for_plan_node i (plan_kind x) = Inr s"
  shows "adapter_matches (task_adapter t) pl i x = Inr True \<and> is_local_worker (task_adapter t) \<and>
         effect_contract_worker_safe s x"
proof (cases x)
  case (Load n)
  with assms show ?thesis
    by (auto simp: classify_def adapter_matches_def is_local_worker_def effect_contract_worker_safe_def
        load_contract_def pure_summary_def)
next
  case (Exec l env attr b body)
  show ?thesis
  proof (cases "attr = None \<and> pure b \<and> execution b = InlineValue \<and> renderer_inputs_statically_preparable x")
    case True
    with Exec assms trusted_base_summary [of b env] unattributed_summary [of i l env b s] show ?thesis
      by (auto simp: classify_def adapter_matches_def is_local_worker_def
          effect_contract_worker_safe_def is_verified_pure_infallible_def pure_summary_def
          simp del: effect_summary_for_plan_node.simps split: if_splits)
  next
    case False
    then obtain g where g: "autonomous_ephemeral_group pl i x = Inr (Some g)"
      and t: "t = EphemeralShimTask (canonical b) (renderer b)"
      using Exec assms(1) by (auto simp: classify_def result_simps split: if_splits)
    have shape: "attr = None" "is_fresh (from_encoded env)" "execution b = Shim"
      using ephemeral_group_shape [OF g] Exec by auto
    then have "s = conservative_evaluator"
      using Exec assms(2) unattributed_summary [of i l env b s] fresh_base_summary
      by (simp del: effect_summary_for_plan_node.simps)
    with g t shape Exec show ?thesis
      by (simp add: adapter_matches_def is_local_worker_def effect_contract_worker_safe_def)
  qed
qed (use assms in \<open>auto simp: classify_def\<close>)

theorem classification_is_worker_safe_witness:
  "\<exists>s. classify (plan \<lparr>prog_nodes = [Load ''x'']\<rparr>) (Load ''x'') 0 = Inr (Some (LoadTask ''x'')) \<and>
       effect_summary_for_plan_node 0 (plan_kind (Load ''x'')) = Inr s \<and>
       effect_contract_worker_safe s (Load ''x'')"
proof -
  obtain s where s: "effect_summary_for_plan_node 0 (plan_kind (Load ''x'')) = Inr s" by simp
  have c: "classify (plan \<lparr>prog_nodes = [Load ''x'']\<rparr>) (Load ''x'') 0 = Inr (Some (LoadTask ''x''))"
    by (simp add: classify_def)
  from classification_is_worker_safe [OF c s] c s show ?thesis by blast
qed

section \<open>Autonomous regions\<close>

text \<open>
  The specification of the walks: a node's only structural parent, and chains of such parents
  whose intermediate nodes satisfy a predicate.
\<close>

definition parent_kind :: "execution_plan \<Rightarrow> nat \<Rightarrow> nat \<Rightarrow> plan_node_kind \<Rightarrow> bool" where
  "parent_kind pl i p k \<longleftrightarrow> structural_parents pl i = [p] \<and> kind_at pl p = Inr k"

inductive climbs :: "execution_plan \<Rightarrow> (plan_node_kind \<Rightarrow> bool) \<Rightarrow> nat \<Rightarrow> nat \<Rightarrow> bool"
  for pl :: execution_plan and P :: "plan_node_kind \<Rightarrow> bool" where
  here: "climbs pl P i i"
| up: "parent_kind pl i p k \<Longrightarrow> P k \<Longrightarrow> climbs pl P p j \<Longrightarrow> climbs pl P i j"

fun is_store :: "plan_node_kind \<Rightarrow> bool" where
  "is_store (StoreK _) = True"
| "is_store _ = False"

fun is_group :: "plan_node_kind \<Rightarrow> bool" where
  "is_group (GroupK _ _) = True"
| "is_group _ = False"

fun is_autonomous :: "plan_node_kind \<Rightarrow> bool" where
  "is_autonomous (ScheduleK _ AutonomousS _) = True"
| "is_autonomous _ = False"

definition member_path :: "plan_node_kind \<Rightarrow> bool" where
  "member_path k \<longleftrightarrow> is_store k \<or> transparent k"

fun policy_path :: "plan_node_kind \<Rightarrow> bool" where
  "policy_path (ScheduleK _ k _) \<longleftrightarrow> k = Force"
| "policy_path (ExecK l e a b) \<longleftrightarrow> transparent (ExecK l e a b)"
| "policy_path _ \<longleftrightarrow> True"

lemma member_walk_step:
  "parent_kind pl i p k \<Longrightarrow> i \<notin> set visited \<Longrightarrow>
     member_walk pl visited i =
       (if is_group k then Inr (Some (p, i))
        else if member_path k then member_walk pl (i # visited) p else Inr None)"
  by (subst member_walk.simps)
    (cases k, simp_all add: parent_kind_def member_path_def)

lemma member_walk_SomeD:
  "member_walk pl visited i = Inr (Some x) \<Longrightarrow> i \<notin> set visited \<and> (\<exists>p k. parent_kind pl i p k)"
  by (subst (asm) member_walk.simps)
    (auto simp: parent_kind_def split: if_splits list.splits sum.splits)

lemma policy_walk_step:
  "parent_kind pl i p k \<Longrightarrow> i \<notin> set visited \<Longrightarrow>
     policy_walk pl visited i =
       (if is_autonomous k then Inr True
        else if policy_path k then policy_walk pl (i # visited) p else Inr False)"
  by (subst policy_walk.simps)
    (cases k, simp_all add: parent_kind_def split: plan_schedule_kind.splits)

lemma policy_walk_TrueD:
  "policy_walk pl visited i = Inr True \<Longrightarrow> i \<notin> set visited \<and> (\<exists>p k. parent_kind pl i p k)"
  by (subst (asm) policy_walk.simps)
    (auto simp: parent_kind_def split: if_splits list.splits sum.splits)

lemma parent_decreases:
  "parent_kind pl i p k \<Longrightarrow> i \<notin> set visited \<Longrightarrow> unvisited pl (i # visited) < unvisited pl visited"
  by (auto simp: parent_kind_def intro: unvisited_decreases)

lemma member_walk_sound:
  "member_walk pl visited i = Inr (Some (g, m)) \<Longrightarrow>
     climbs pl member_path i m \<and> (\<exists>k. parent_kind pl m g k \<and> is_group k)"
proof (induction "unvisited pl visited" arbitrary: visited i rule: less_induct)
  case less
  obtain p k where i: "i \<notin> set visited" and pk: "parent_kind pl i p k"
    using member_walk_SomeD [OF less.prems] by blast
  show ?case
  proof (cases "is_group k")
    case True
    with less.prems pk i show ?thesis by (auto simp: member_walk_step intro: climbs.here)
  next
    case False
    then have step: "member_path k" "member_walk pl (i # visited) p = Inr (Some (g, m))"
      using less.prems pk i by (auto simp: member_walk_step split: if_splits)
    from less.hyps [OF parent_decreases [OF pk i] step(2)] pk step(1) climbs.up show ?thesis by metis
  qed
qed

lemma policy_walk_sound:
  "policy_walk pl visited i = Inr True \<Longrightarrow>
     \<exists>t s k. climbs pl policy_path i t \<and> parent_kind pl t s k \<and> is_autonomous k"
proof (induction "unvisited pl visited" arbitrary: visited i rule: less_induct)
  case less
  obtain p k where i: "i \<notin> set visited" and pk: "parent_kind pl i p k"
    using policy_walk_TrueD [OF less.prems] by blast
  show ?case
  proof (cases "is_autonomous k")
    case True
    with pk show ?thesis by (blast intro: climbs.here)
  next
    case False
    then have step: "policy_path k" "policy_walk pl (i # visited) p = Inr True"
      using less.prems pk i by (auto simp: policy_walk_step split: if_splits)
    from less.hyps [OF parent_decreases [OF pk i] step(2)] pk step(1) climbs.up show ?thesis by metis
  qed
qed

text \<open>
  C38. Unordered overlap is granted only inside an explicit autonomous region: a shim that
  \<open>autonomous_ephemeral_group\<close> places in a group is fresh and unattributed, reaches the group
  through stores and transparent blocks only, and the group reaches an autonomous schedule with no
  lazy schedule and no persistent, attributed or structural block in between.
\<close>

theorem autonomous_region_is_explicit:
  assumes "autonomous_ephemeral_group pl i x = Inr (Some g)"
  shows "\<exists>l env b body m k t s k'.
           x = Exec l env None b body \<and> is_fresh (from_encoded env) \<and> execution b = Shim \<and>
           climbs pl member_path i m \<and> parent_kind pl m g k \<and> is_group k \<and>
           climbs pl policy_path g t \<and> parent_kind pl t s k' \<and> is_autonomous k'"
proof -
  obtain l env b body m where shape: "x = Exec l env None b body" "is_fresh (from_encoded env)"
    "execution b = Shim" "autonomous_member pl i = Inr (Some (g, m))"
    using ephemeral_group_shape [OF assms] by blast
  from shape(4) have walks: "member_walk pl [] i = Inr (Some (g, m))" "policy_walk pl [] g = Inr True"
    by (auto simp: autonomous_member_def nearest_policy_schedule_is_autonomous_def result_simps
        split: option.splits if_splits)
  obtain k where "climbs pl member_path i m" "parent_kind pl m g k" "is_group k"
    using member_walk_sound [OF walks(1)] by blast
  moreover obtain t s k' where "climbs pl policy_path g t" "parent_kind pl t s k'" "is_autonomous k'"
    using policy_walk_sound [OF walks(2)] by blast
  ultimately show ?thesis using shape(1-3) by metis
qed

definition sample_autonomous :: oir_program where
  "sample_autonomous =
     \<lparr>prog_nodes = [Invoke ''autonomous'' AutonomousI
        [Invoke ''all'' (GroupI AllG) [Exec ''python'' EPHEMERAL_ENV_ID None sample_shim []]]]\<rparr>"

theorem autonomous_region_is_explicit_witness:
  "autonomous_ephemeral_group (plan sample_autonomous) 2
     (Exec ''python'' EPHEMERAL_ENV_ID None sample_shim []) = Inr (Some 1) \<and>
   (\<exists>m. climbs (plan sample_autonomous) member_path 2 m)"
proof -
  have g: "autonomous_ephemeral_group (plan sample_autonomous) 2
      (Exec ''python'' EPHEMERAL_ENV_ID None sample_shim []) = Inr (Some 1)"
    by code_simp
  from autonomous_region_is_explicit [OF g] g show ?thesis by blast
qed

end
