(* ===== verification/Value.thy ===== *)
theory Value
  imports Oir
begin

text \<open>
  The value model (\<open>value.rs\<close>): numbers, the \<open>OValue\<close> sum and its helper types, the
  classification of values by how they cross the runtime boundary, and the three safety
  predicates (cache, replay, persistence).

  A hash map from strings is an association list with distinct keys whose order carries no
  meaning; an ordered map is one in ascending key order. Strings and byte vectors are lists of
  bytes, 64-bit integers are words, and big integers are \<open>int\<close>.
\<close>

section \<open>Numbers\<close>

datatype decimal_special = DNan | DPosInf | DNegInf | DPosZero | DNegZero

datatype float_format = F32 | F64

datatype float_special = FNan | FPosInf | FNegInf | FPosZero | FNegZero

datatype onumber =
    IntN int
  | RationalN int int
  | DecimalN int u64 "decimal_special option"
  | BinaryFloatN float_format bytes
  | BigFloatN int u64 "u64 option" "float_special option"
  | ComplexN onumber onumber

section \<open>Values\<close>

record otext =
  ot_utf8 :: string
  ot_encoding :: "string option"

record obytes =
  ob_bytes :: bytes
  ob_media_type :: "string option"

datatype seq_kind = ListS | TupleS | VectorS

datatype set_kind = OrderedS | UnorderedS

record osymbol =
  os_namespace :: "string option"
  os_name :: string

record native_identity =
  nid_stable :: "string option"
  nid_live :: "string option"

datatype native_codec_safety = DataOnly | SourceBacked | UnsafeOpaque | LiveHandle

datatype native_boundary = PureB | ReferentialB | EffectfulB

datatype rehydrate_policy = Portable | SameBackend | SameProcess | Never

datatype capability_kind =
    FileC | MemoryRegionC | DeviceC | ClockC | NetworkEndpointC | ProcessC | ServiceC
  | SystemActivationC | BackendExecutionC

datatype snapshot_kind = SystemSn | ServiceSn | FilesystemSn | DeviceSn

datatype request_kind =
    InstantiateR
  | RealiseR
  | EvalR string u32 bool "string option" "backend_authority list"
  | ActivateR string bool "string option"

datatype ovalue =
    NullV
  | BoolV bool
  | NumberV onumber
  | TextV otext
  | CharV u32
  | HtmlV string
  | StorePathV string
  | ExprV string
  | ListV "ovalue list"
  | MapV "(string \<times> ovalue) list"
  | SeqV seq_kind "ovalue list"
  | ObjectV "(string \<times> ovalue) list"
  | EntriesMapV "(ovalue \<times> ovalue) list"
  | SetV set_kind "ovalue list"
  | SymbolV osymbol
  | KeywordV osymbol
  | ScopeV "(string \<times> ovalue) list"
  | BlobV string string
  | BytesV obytes
  | GraphV u64 "graph_node list"
  | NativeV onative
  | NixExprV string "ovalue list" string
  | DerivationV string "string list" "ovalue list"
  | RequestV request_kind ovalue string
  | SystemV string
  | CapabilityV capability_kind string "(string \<times> ovalue) list"
  | SnapshotV snapshot_kind string "(string \<times> ovalue) list"
  | ThunkV string "ovalue list" string
  | GroupV group_mode "ovalue list" string
  | ErrorV string
and graph_node =
    ValueNode ovalue
  | RefNode u64
and onative =
    ONative (nat_lang: string) (nat_implementation: "string option") (nat_version: "string option")
      (nat_type_name: string) (nat_identity: native_identity) (nat_codec: string)
      (nat_payload: "obytes option") (nat_boundary: native_boundary)
      (nat_safety: native_codec_safety) (nat_capabilities: "capability_kind list")
      (nat_metadata: "(string \<times> ovalue) list") (nat_rehydrate: rehydrate_policy)

section \<open>Constructors\<close>

definition text_value :: "string \<Rightarrow> ovalue" where
  "text_value s = TextV \<lparr>ot_utf8 = s, ot_encoding = Some ''utf-8''\<rparr>"

definition str_value :: "string \<Rightarrow> ovalue" where
  "str_value s = text_value s"

definition big_int :: "int \<Rightarrow> ovalue" where
  "big_int n = NumberV (IntN n)"

definition rational :: "int \<Rightarrow> int \<Rightarrow> ovalue option" where
  "rational num den = (if den = 0 then None else Some (NumberV (RationalN num den)))"

definition tuple_value :: "ovalue list \<Rightarrow> ovalue" where
  "tuple_value items = SeqV TupleS items"

definition symbol_value :: "string \<Rightarrow> ovalue" where
  "symbol_value n = SymbolV \<lparr>os_namespace = None, os_name = n\<rparr>"

definition keyword_value :: "string \<Rightarrow> ovalue" where
  "keyword_value n = KeywordV \<lparr>os_namespace = None, os_name = n\<rparr>"

section \<open>Names\<close>

fun type_name :: "ovalue \<Rightarrow> string" where
  "type_name NullV = ''null''"
| "type_name (BoolV _) = ''bool''"
| "type_name (NumberV _) = ''number''"
| "type_name (TextV _) = ''text''"
| "type_name (BytesV _) = ''bytes''"
| "type_name (CharV _) = ''char''"
| "type_name (HtmlV _) = ''html''"
| "type_name (StorePathV _) = ''store_path''"
| "type_name (ListV _) = ''list''"
| "type_name (MapV _) = ''map''"
| "type_name (SeqV _ _) = ''seq''"
| "type_name (ObjectV _) = ''object''"
| "type_name (EntriesMapV _) = ''entries_map''"
| "type_name (SetV _ _) = ''set''"
| "type_name (SymbolV _) = ''symbol''"
| "type_name (KeywordV _) = ''keyword''"
| "type_name (ScopeV _) = ''scope''"
| "type_name (BlobV _ _) = ''blob''"
| "type_name (GraphV _ _) = ''graph''"
| "type_name (NativeV _) = ''native''"
| "type_name (NixExprV _ _ _) = ''nix_expr''"
| "type_name (DerivationV _ _ _) = ''derivation''"
| "type_name (RequestV _ _ _) = ''request''"
| "type_name (ThunkV _ _ _) = ''thunk''"
| "type_name (GroupV _ _ _) = ''group''"
| "type_name (SystemV _) = ''system''"
| "type_name (CapabilityV _ _ _) = ''capability''"
| "type_name (SnapshotV _ _ _) = ''snapshot''"
| "type_name (ExprV _) = ''expr''"
| "type_name (ErrorV _) = ''error''"

fun capability_kind_name :: "capability_kind \<Rightarrow> string" where
  "capability_kind_name FileC = ''file''"
| "capability_kind_name MemoryRegionC = ''memory_region''"
| "capability_kind_name DeviceC = ''device''"
| "capability_kind_name ClockC = ''clock''"
| "capability_kind_name NetworkEndpointC = ''network_endpoint''"
| "capability_kind_name ProcessC = ''process''"
| "capability_kind_name ServiceC = ''service''"
| "capability_kind_name SystemActivationC = ''system_activation''"
| "capability_kind_name BackendExecutionC = ''backend_execution''"

fun snapshot_kind_name :: "snapshot_kind \<Rightarrow> string" where
  "snapshot_kind_name SystemSn = ''system''"
| "snapshot_kind_name ServiceSn = ''service''"
| "snapshot_kind_name FilesystemSn = ''filesystem''"
| "snapshot_kind_name DeviceSn = ''device''"

fun group_mode_name :: "group_mode \<Rightarrow> string" where
  "group_mode_name BatchG = ''batch''"
| "group_mode_name AllG = ''all''"
| "group_mode_name AnyG = ''any''"
| "group_mode_name RaceG = ''race''"

definition collects_all :: "group_mode \<Rightarrow> bool" where
  "collects_all m \<longleftrightarrow> m = BatchG \<or> m = AllG"

section \<open>Runtime boundary\<close>

datatype boundary = PureRB | ReferentialRB | EffectfulRB

fun join_boundary :: "boundary \<Rightarrow> boundary \<Rightarrow> boundary" where
  "join_boundary EffectfulRB _ = EffectfulRB"
| "join_boundary _ EffectfulRB = EffectfulRB"
| "join_boundary ReferentialRB _ = ReferentialRB"
| "join_boundary _ ReferentialRB = ReferentialRB"
| "join_boundary PureRB PureRB = PureRB"

definition join_child_boundaries :: "boundary list \<Rightarrow> boundary" where
  "join_child_boundaries bs = foldl join_boundary PureRB bs"

fun native_runtime_boundary :: "native_boundary \<Rightarrow> boundary" where
  "native_runtime_boundary PureB = PureRB"
| "native_runtime_boundary ReferentialB = ReferentialRB"
| "native_runtime_boundary EffectfulB = EffectfulRB"

text \<open>
  A graph node contributes its value's boundary, or nothing when it is a reference; the boundary
  of a native capsule is the one it declares.
\<close>

primrec runtime_boundary :: "ovalue \<Rightarrow> boundary"
and node_boundary :: "graph_node \<Rightarrow> boundary list"
and capsule_boundary :: "onative \<Rightarrow> boundary" where
  "runtime_boundary NullV = PureRB"
| "runtime_boundary (BoolV _) = PureRB"
| "runtime_boundary (NumberV _) = PureRB"
| "runtime_boundary (TextV _) = PureRB"
| "runtime_boundary (CharV _) = PureRB"
| "runtime_boundary (HtmlV _) = PureRB"
| "runtime_boundary (StorePathV _) = PureRB"
| "runtime_boundary (ExprV _) = PureRB"
| "runtime_boundary (ListV vs) = join_child_boundaries (map runtime_boundary vs)"
| "runtime_boundary (MapV kvs) = join_child_boundaries (map snd (map (map_prod id runtime_boundary) kvs))"
| "runtime_boundary (SeqV _ vs) = join_child_boundaries (map runtime_boundary vs)"
| "runtime_boundary (ObjectV kvs) =
     join_child_boundaries (map snd (map (map_prod id runtime_boundary) kvs))"
| "runtime_boundary (EntriesMapV es) =
     join_child_boundaries
       (concat (map (\<lambda>(k, v). [k, v]) (map (map_prod runtime_boundary runtime_boundary) es)))"
| "runtime_boundary (SetV _ vs) = join_child_boundaries (map runtime_boundary vs)"
| "runtime_boundary (SymbolV _) = PureRB"
| "runtime_boundary (KeywordV _) = PureRB"
| "runtime_boundary (ScopeV _) = EffectfulRB"
| "runtime_boundary (BlobV _ _) = PureRB"
| "runtime_boundary (BytesV _) = PureRB"
| "runtime_boundary (GraphV _ ns) = join_child_boundaries (concat (map node_boundary ns))"
| "runtime_boundary (NativeV n) = capsule_boundary n"
| "runtime_boundary (NixExprV _ deps _) = join_child_boundaries (map runtime_boundary deps)"
| "runtime_boundary (DerivationV _ _ deps) = join_child_boundaries (map runtime_boundary deps)"
| "runtime_boundary (RequestV _ _ _) = EffectfulRB"
| "runtime_boundary (SystemV _) = ReferentialRB"
| "runtime_boundary (CapabilityV _ _ _) = EffectfulRB"
| "runtime_boundary (SnapshotV _ _ state) =
     join_child_boundaries (map snd (map (map_prod id runtime_boundary) state))"
| "runtime_boundary (ThunkV _ deps _) = join_child_boundaries (map runtime_boundary deps)"
| "runtime_boundary (GroupV _ _ _) = EffectfulRB"
| "runtime_boundary (ErrorV _) = EffectfulRB"
| "node_boundary (ValueNode v) = [runtime_boundary v]"
| "node_boundary (RefNode _) = []"
| "capsule_boundary (ONative _ _ _ _ _ _ _ b _ _ _ _) = native_runtime_boundary b"

section \<open>Safety predicates\<close>







section \<open>What the predicates exclude\<close>










end
