(* ===== verification/Fidelity.thy ===== *)
theory Fidelity
  imports O_Prelude
begin

text \<open>
  Fidelity of backend value crossings (\<open>value.rs\<close>: \<open>AnnotationKind\<close>, \<open>Fidelity\<close>,
  \<open>FidelityAssessmentV2\<close>). A concrete judgment names the losses of one crossing; an assessment
  is an interval of loss sets, the definite ones and the possible ones. \<open>concretization_contains\<close>
  is the membership test of the interval, so the composition and merge operators are abstract
  transformers and the lemmas state their soundness and exactness.

  Loss sets are finite ordered sets in the code; nothing here depends on their order, so they are
  HOL sets. The interval invariant is checked by \<open>validate_assessment\<close>; the constructors that
  panic on an invalid operand (\<open>then\<close>, \<open>join_paths\<close>) have the panic as an error value.
\<close>

section \<open>Judgments\<close>

datatype annotation_kind =
    TypeTagK
  | NumericPrecisionK
  | NumericExactnessK
  | EncodingK
  | OrderingK
  | IdentityK
  | ConstraintK
  | CapabilityK
  | PresentationK
  | BackendSpecificK string string

type_synonym loss_set = "annotation_kind set"

definition loss_set_new :: "loss_set \<Rightarrow> loss_set option" where
  "loss_set_new lost = (if lost = {} then None else Some lost)"

definition loss_set_or_empty :: "loss_set option \<Rightarrow> loss_set" where
  "loss_set_or_empty l = (case l of None \<Rightarrow> {} | Some s \<Rightarrow> s)"

datatype fidelity =
    Lossless
  | StructuralLoss loss_set
  | NativeCapsule
  | Unsupported

datatype assessment =
    LosslessA
  | StructuralA "loss_set option" loss_set
  | NativeCapsuleA
  | UnsupportedA

datatype fidelity_error = DefiniteOutsidePossible | FidelityPanic

definition fidelity_structural :: "loss_set \<Rightarrow> fidelity" where
  "fidelity_structural lost =
     (case loss_set_new lost of Some l \<Rightarrow> StructuralLoss l | None \<Rightarrow> Lossless)"

fun fidelity_losses :: "fidelity \<Rightarrow> loss_set option" where
  "fidelity_losses (StructuralLoss l) = Some l"
| "fidelity_losses _ = None"

fun compose :: "fidelity \<Rightarrow> fidelity \<Rightarrow> fidelity" where
  "compose Unsupported _ = Unsupported"
| "compose _ Unsupported = Unsupported"
| "compose NativeCapsule _ = NativeCapsule"
| "compose _ NativeCapsule = NativeCapsule"
| "compose Lossless other = other"
| "compose other Lossless = other"
| "compose (StructuralLoss l) (StructuralLoss m) = fidelity_structural (l \<union> m)"

section \<open>Assessments\<close>

fun validate_assessment :: "assessment \<Rightarrow> fidelity_error + unit" where
  "validate_assessment (StructuralA (Some d) p) =
     (if d \<subseteq> p then Inr () else Inl DefiniteOutsidePossible)"
| "validate_assessment _ = Inr ()"

definition assessment_structural :: "loss_set \<Rightarrow> loss_set \<Rightarrow> fidelity_error + assessment" where
  "assessment_structural d p =
     (if \<not> d \<subseteq> p then Inl DefiniteOutsidePossible
      else (case loss_set_new p of
              None \<Rightarrow> Inr LosslessA
            | Some p' \<Rightarrow> Inr (StructuralA (loss_set_new d) p')))"

fun from_concrete :: "fidelity \<Rightarrow> assessment" where
  "from_concrete Lossless = LosslessA"
| "from_concrete (StructuralLoss l) = StructuralA (Some l) l"
| "from_concrete NativeCapsule = NativeCapsuleA"
| "from_concrete Unsupported = UnsupportedA"

fun interval_contains :: "assessment \<Rightarrow> fidelity \<Rightarrow> bool" where
  "interval_contains LosslessA Lossless = True"
| "interval_contains NativeCapsuleA NativeCapsule = True"
| "interval_contains UnsupportedA Unsupported = True"
| "interval_contains (StructuralA d p) Lossless = (d = None)"
| "interval_contains (StructuralA d p) (StructuralLoss l) =
     ((case d of None \<Rightarrow> True | Some r \<Rightarrow> r \<subseteq> l) \<and> l \<subseteq> p)"
| "interval_contains _ _ = False"

definition concretization_contains :: "assessment \<Rightarrow> fidelity \<Rightarrow> bool" where
  "concretization_contains a f \<longleftrightarrow> is_ok (validate_assessment a) \<and> interval_contains a f"

definition expect_ok :: "fidelity_error + 'a \<Rightarrow> fidelity_error + 'a" where
  "expect_ok r = (case r of Inl _ \<Rightarrow> Inl FidelityPanic | Inr x \<Rightarrow> Inr x)"

fun then_valid :: "assessment \<Rightarrow> assessment \<Rightarrow> fidelity_error + assessment" where
  "then_valid UnsupportedA _ = Inr UnsupportedA"
| "then_valid _ UnsupportedA = Inr UnsupportedA"
| "then_valid NativeCapsuleA _ = Inr NativeCapsuleA"
| "then_valid _ NativeCapsuleA = Inr NativeCapsuleA"
| "then_valid LosslessA other = Inr other"
| "then_valid other LosslessA = Inr other"
| "then_valid (StructuralA d p) (StructuralA d' p') =
     expect_ok (assessment_structural (loss_set_or_empty d \<union> loss_set_or_empty d') (p \<union> p'))"

definition try_then :: "assessment \<Rightarrow> assessment \<Rightarrow> fidelity_error + assessment" where
  "try_then a b =
     and_then (validate_assessment a) (\<lambda>_.
     and_then (validate_assessment b) (\<lambda>_. then_valid a b))"

fun loss_bounds :: "assessment \<Rightarrow> fidelity_error + loss_set \<times> loss_set" where
  "loss_bounds LosslessA = Inr ({}, {})"
| "loss_bounds (StructuralA d p) = Inr (loss_set_or_empty d, p)"
| "loss_bounds _ = Inl FidelityPanic"

fun join_paths_valid :: "assessment \<Rightarrow> assessment \<Rightarrow> fidelity_error + assessment" where
  "join_paths_valid UnsupportedA _ = Inr UnsupportedA"
| "join_paths_valid _ UnsupportedA = Inr UnsupportedA"
| "join_paths_valid NativeCapsuleA _ = Inr NativeCapsuleA"
| "join_paths_valid _ NativeCapsuleA = Inr NativeCapsuleA"
| "join_paths_valid left right =
     and_then (loss_bounds left) (\<lambda>(ld, lp).
     and_then (loss_bounds right) (\<lambda>(rd, rp).
     expect_ok (assessment_structural (ld \<inter> rd) (lp \<union> rp))))"

definition try_join_paths :: "assessment \<Rightarrow> assessment \<Rightarrow> fidelity_error + assessment" where
  "try_join_paths a b =
     and_then (validate_assessment a) (\<lambda>_.
     and_then (validate_assessment b) (\<lambda>_. join_paths_valid a b))"

definition try_possible_fidelity :: "assessment \<Rightarrow> fidelity_error + fidelity" where
  "try_possible_fidelity a =
     and_then (validate_assessment a) (\<lambda>_.
     Inr (case a of
            LosslessA \<Rightarrow> Lossless
          | StructuralA _ p \<Rightarrow> fidelity_structural p
          | NativeCapsuleA \<Rightarrow> NativeCapsule
          | UnsupportedA \<Rightarrow> Unsupported))"

definition try_concrete_fidelity :: "assessment \<Rightarrow> fidelity_error + fidelity option" where
  "try_concrete_fidelity a =
     and_then (validate_assessment a) (\<lambda>_.
     case a of
       StructuralA d p \<Rightarrow> Inr (if d = Some p then Some (fidelity_structural p) else None)
     | other \<Rightarrow> and_then (expect_ok (try_possible_fidelity other)) (\<lambda>f. Inr (Some f)))"

text \<open>The panicking spellings.\<close>

definition then_assessment :: "assessment \<Rightarrow> assessment \<Rightarrow> fidelity_error + assessment" where
  "then_assessment a b = expect_ok (try_then a b)"

definition join_paths :: "assessment \<Rightarrow> assessment \<Rightarrow> fidelity_error + assessment" where
  "join_paths a b = expect_ok (try_join_paths a b)"

section \<open>Well-formedness\<close>

text \<open>
  \<open>FidelityLossSet\<close> has a private field and one constructor, which refuses the empty set: a
  stored loss set is never empty. \<open>assessment_wf\<close> adds the interval bound that \<open>validate\<close>
  checks.
\<close>

fun fidelity_wf :: "fidelity \<Rightarrow> bool" where
  "fidelity_wf (StructuralLoss l) \<longleftrightarrow> l \<noteq> {}"
| "fidelity_wf _ \<longleftrightarrow> True"

fun assessment_wf :: "assessment \<Rightarrow> bool" where
  "assessment_wf (StructuralA d p) \<longleftrightarrow> p \<noteq> {} \<and> (\<forall>s. d = Some s \<longrightarrow> s \<noteq> {} \<and> s \<subseteq> p)"
| "assessment_wf _ \<longleftrightarrow> True"

definition concretization :: "assessment \<Rightarrow> fidelity set" where
  "concretization a = {f. fidelity_wf f \<and> concretization_contains a f}"

lemma fidelity_wf_structural [simp]: "fidelity_wf (fidelity_structural l)"
  by (simp add: fidelity_structural_def loss_set_new_def)

lemma fidelity_wf_compose [simp]: "fidelity_wf f \<Longrightarrow> fidelity_wf g \<Longrightarrow> fidelity_wf (compose f g)"
  by (induction f g rule: compose.induct) auto

lemma assessment_wf_valid: "assessment_wf a \<Longrightarrow> validate_assessment a = Inr ()"
  by (induction a rule: validate_assessment.induct) auto

lemma assessment_structural_ok:
  assumes "d \<subseteq> p"
  shows "\<exists>c. assessment_structural d p = Inr c \<and> assessment_wf c \<and>
           (c = LosslessA \<and> p = {} \<or>
            p \<noteq> {} \<and> c = StructuralA (loss_set_new d) p)"
  using assms by (auto simp: assessment_structural_def loss_set_new_def)

text \<open>A loss set read as a judgment, and the interval of judgments between two loss sets.\<close>

fun loss_of :: "fidelity \<Rightarrow> loss_set option" where
  "loss_of Lossless = Some {}"
| "loss_of (StructuralLoss l) = Some l"
| "loss_of _ = None"

definition between :: "loss_set \<Rightarrow> loss_set \<Rightarrow> fidelity set" where
  "between d p = {fidelity_structural l | l. d \<subseteq> l \<and> l \<subseteq> p}"

lemma fidelity_structural_empty [simp]: "fidelity_structural {} = Lossless"
  by (simp add: fidelity_structural_def loss_set_new_def)

lemma fidelity_structural_nonempty [simp]:
  "l \<noteq> {} \<Longrightarrow> fidelity_structural l = StructuralLoss l"
  by (simp add: fidelity_structural_def loss_set_new_def)

lemma fidelity_structural_inject [simp]:
  "fidelity_structural l = fidelity_structural m \<longleftrightarrow> l = m"
  by (cases "l = {}"; cases "m = {}") auto

lemma compose_structural [simp]:
  "compose (fidelity_structural l) (fidelity_structural m) = fidelity_structural (l \<union> m)"
  by (cases "l = {}"; cases "m = {}") auto

lemma concretization_simps [simp]:
  "concretization LosslessA = {Lossless}"
  "concretization NativeCapsuleA = {NativeCapsule}"
  "concretization UnsupportedA = {Unsupported}"
  by (auto simp: concretization_def concretization_contains_def elim: interval_contains.elims)

lemma interval_contains_iff:
  "fidelity_wf f \<Longrightarrow> assessment_wf (StructuralA d p) \<Longrightarrow>
     interval_contains (StructuralA d p) f \<longleftrightarrow>
       (\<exists>l. loss_of f = Some l \<and> loss_set_or_empty d \<subseteq> l \<and> l \<subseteq> p)"
  by (cases f; cases d) (simp_all add: loss_set_or_empty_def)

lemma loss_of_iff: "fidelity_wf f \<and> loss_of f = Some l \<longleftrightarrow> f = fidelity_structural l"
  by (cases f; cases "l = {}") auto

lemma concretization_Structural:
  assumes "assessment_wf (StructuralA d p)"
  shows "concretization (StructuralA d p) = between (loss_set_or_empty d) p"
proof -
  have "f \<in> concretization (StructuralA d p) \<longleftrightarrow>
      (\<exists>l. (fidelity_wf f \<and> loss_of f = Some l) \<and> loss_set_or_empty d \<subseteq> l \<and> l \<subseteq> p)" for f
    using interval_contains_iff [OF _ assms, of f] assessment_wf_valid [OF assms]
    unfolding concretization_def concretization_contains_def by auto
  then show ?thesis unfolding between_def loss_of_iff by auto
qed

lemma concretization_structural_result:
  assumes "d \<subseteq> p"
  shows "\<exists>c. assessment_structural d p = Inr c \<and> assessment_wf c \<and> concretization c = between d p"
proof -
  obtain c where c: "assessment_structural d p = Inr c" "assessment_wf c"
    "c = LosslessA \<and> p = {} \<or> p \<noteq> {} \<and> c = StructuralA (loss_set_new d) p"
    using assessment_structural_ok [OF assms] by blast
  have "loss_set_or_empty (loss_set_new d) = d"
    by (simp add: loss_set_or_empty_def loss_set_new_def)
  moreover have "between {} {} = {Lossless}"
    by (auto simp: between_def)
  ultimately have "concretization c = between d p"
    using c(2,3) assms concretization_Structural by auto
  with c show ?thesis by blast
qed

lemma between_nonempty: "d \<subseteq> p \<Longrightarrow> between d p \<noteq> {}"
  by (auto simp: between_def)

lemma bounds_of_wf: "assessment_wf (StructuralA d p) \<Longrightarrow> loss_set_or_empty d \<subseteq> p"
  by (auto simp: loss_set_or_empty_def split: option.splits)

lemma concretization_nonempty:
  assumes "assessment_wf a"
  shows "concretization a \<noteq> {}"
proof (cases a)
  case (StructuralA d p)
  with assms show ?thesis
    using concretization_Structural [of d p] bounds_of_wf [of d p] between_nonempty by metis
qed simp_all

text \<open>Sequential composition of intervals is exact: unions of members are all the members.\<close>

lemma compose_between:
  assumes "d \<subseteq> p" "d' \<subseteq> p'"
  shows "{compose f g | f g. f \<in> between d p \<and> g \<in> between d' p'} = between (d \<union> d') (p \<union> p')"
proof (intro set_eqI iffI)
  fix h
  assume "h \<in> {compose f g | f g. f \<in> between d p \<and> g \<in> between d' p'}"
  then obtain l m where "h = fidelity_structural (l \<union> m)" "d \<subseteq> l" "l \<subseteq> p" "d' \<subseteq> m" "m \<subseteq> p'"
    by (auto simp: between_def)
  moreover from this have "d \<union> d' \<subseteq> l \<union> m" "l \<union> m \<subseteq> p \<union> p'" by auto
  ultimately show "h \<in> between (d \<union> d') (p \<union> p')" by (auto simp: between_def)
next
  fix h
  assume "h \<in> between (d \<union> d') (p \<union> p')"
  then obtain l where l: "h = fidelity_structural l" "d \<union> d' \<subseteq> l" "l \<subseteq> p \<union> p'"
    by (auto simp: between_def)
  have "l = (l \<inter> p) \<union> (l \<inter> p')" using l(3) by blast
  then have "h = compose (fidelity_structural (l \<inter> p)) (fidelity_structural (l \<inter> p'))"
    using l(1) by simp
  moreover have "fidelity_structural (l \<inter> p) \<in> between d p"
    "fidelity_structural (l \<inter> p') \<in> between d' p'"
    using l(2) assms by (auto simp: between_def)
  ultimately show "h \<in> {compose f g | f g. f \<in> between d p \<and> g \<in> between d' p'}" by blast
qed

lemma between_self: "between {} {} = {Lossless}"
  by (auto simp: between_def)

text \<open>Every well-formed assessment below the two absorbing classes is an interval.\<close>

fun bounded_class :: "assessment \<Rightarrow> bool" where
  "bounded_class LosslessA = True"
| "bounded_class (StructuralA _ _) = True"
| "bounded_class _ = False"

fun lo_bound :: "assessment \<Rightarrow> loss_set" where
  "lo_bound (StructuralA d _) = loss_set_or_empty d"
| "lo_bound _ = {}"

fun up_bound :: "assessment \<Rightarrow> loss_set" where
  "up_bound (StructuralA _ p) = p"
| "up_bound _ = {}"

lemma bounded_interval:
  "assessment_wf a \<Longrightarrow> bounded_class a \<Longrightarrow>
     concretization a = between (lo_bound a) (up_bound a) \<and> lo_bound a \<subseteq> up_bound a"
  by (cases a) (simp_all add: concretization_Structural between_self bounds_of_wf
      del: assessment_wf.simps(1))

section \<open>Correctness of the operators\<close>

lemma expect_ok_Inr [simp]: "expect_ok (Inr x) = Inr x"
  by (simp add: expect_ok_def)

lemma expect_ok_eq_Inr [result_simps]: "expect_ok r = Inr x \<longleftrightarrow> r = Inr x"
  by (cases r) (simp_all add: expect_ok_def)

lemma then_valid_bounded:
  assumes "assessment_wf a" "assessment_wf b" "bounded_class a" "bounded_class b"
  shows "\<exists>c. then_valid a b = Inr c \<and> assessment_wf c \<and>
           concretization c = between (lo_bound a \<union> lo_bound b) (up_bound a \<union> up_bound b)"
proof (cases a; cases b)
  fix d p d' p'
  assume ab: "a = StructuralA d p" "b = StructuralA d' p'"
  then have "loss_set_or_empty d \<union> loss_set_or_empty d' \<subseteq> p \<union> p'"
    using assms bounds_of_wf by blast
  from concretization_structural_result [OF this] ab show ?thesis by auto
qed (use assms concretization_Structural in \<open>auto simp: between_self\<close>)

lemma compose_Unsupported_right [simp]: "compose f Unsupported = Unsupported"
  by (cases f) simp_all

lemma compose_NativeCapsule:
  "f \<noteq> Unsupported \<Longrightarrow> g \<noteq> Unsupported \<Longrightarrow> f = NativeCapsule \<or> g = NativeCapsule \<Longrightarrow>
     compose f g = NativeCapsule"
  by (cases f; cases g) simp_all

lemma compose_image_const:
  assumes "A \<noteq> {}" "B \<noteq> {}" "\<And>f g. f \<in> A \<Longrightarrow> g \<in> B \<Longrightarrow> compose f g = h"
  shows "{compose f g | f g. f \<in> A \<and> g \<in> B} = {h}"
  using assms by blast

lemma concretization_no_Unsupported:
  "f \<in> concretization a \<Longrightarrow> a \<noteq> UnsupportedA \<Longrightarrow> f \<noteq> Unsupported"
  by (cases a) (auto simp: concretization_def concretization_contains_def)

lemma then_valid_absorbing:
  "a = UnsupportedA \<or> b = UnsupportedA \<Longrightarrow> then_valid a b = Inr UnsupportedA"
  "a \<noteq> UnsupportedA \<Longrightarrow> b \<noteq> UnsupportedA \<Longrightarrow> a = NativeCapsuleA \<or> b = NativeCapsuleA \<Longrightarrow>
     then_valid a b = Inr NativeCapsuleA"
  by (cases a; cases b; simp)+

lemma compose_absorbing_image:
  assumes "assessment_wf a" "assessment_wf b" "\<not> (bounded_class a \<and> bounded_class b)"
  shows "\<exists>c. then_valid a b = Inr c \<and> assessment_wf c \<and>
           concretization c = {compose f g | f g. f \<in> concretization a \<and> g \<in> concretization b}"
proof (cases "a = UnsupportedA \<or> b = UnsupportedA")
  case True
  then have "{compose f g | f g. f \<in> concretization a \<and> g \<in> concretization b} = {Unsupported}"
    by (intro compose_image_const concretization_nonempty assms) auto
  with True then_valid_absorbing(1) show ?thesis by auto
next
  case False
  then have nc: "a = NativeCapsuleA \<or> b = NativeCapsuleA"
    using assms(3) by (cases a; cases b) auto
  then have "{compose f g | f g. f \<in> concretization a \<and> g \<in> concretization b} = {NativeCapsule}"
    using False by (intro compose_image_const concretization_nonempty assms compose_NativeCapsule)
      (auto dest: concretization_no_Unsupported)
  with False nc then_valid_absorbing(2) [of a b] show ?thesis by auto
qed

text \<open>
  C30. Composing two assessments along a path is exact: the result's concretization is the set of
  compositions of a judgment of the first with a judgment of the second, no more and no less.
\<close>

theorem then_exact:
  assumes "assessment_wf a" "assessment_wf b"
  shows "\<exists>c. try_then a b = Inr c \<and> assessment_wf c \<and>
           concretization c = {compose f g | f g. f \<in> concretization a \<and> g \<in> concretization b}"
proof -
  have "\<exists>c. then_valid a b = Inr c \<and> assessment_wf c \<and>
          concretization c = {compose f g | f g. f \<in> concretization a \<and> g \<in> concretization b}"
  proof (cases "bounded_class a \<and> bounded_class b")
    case True
    then show ?thesis
      using then_valid_bounded [OF assms] bounded_interval [OF assms(1)]
        bounded_interval [OF assms(2)]
        compose_between [of "lo_bound a" "up_bound a" "lo_bound b" "up_bound b"]
      by simp
  qed (rule compose_absorbing_image [OF assms])
  then show ?thesis by (simp add: try_then_def assms [THEN assessment_wf_valid])
qed

theorem then_exact_witness:
  "\<exists>c. try_then (StructuralA None {NumericPrecisionK}) (StructuralA (Some {OrderingK}) {OrderingK}) = Inr c
     \<and> assessment_wf c \<and>
     concretization c =
       {compose f g | f g. f \<in> concretization (StructuralA None {NumericPrecisionK}) \<and>
                           g \<in> concretization (StructuralA (Some {OrderingK}) {OrderingK})}"
  by (rule then_exact) simp_all

lemma join_bounded:
  assumes "assessment_wf a" "assessment_wf b" "bounded_class a" "bounded_class b"
  shows "\<exists>c. join_paths_valid a b = Inr c \<and> assessment_wf c \<and>
           concretization c = between (lo_bound a \<inter> lo_bound b) (up_bound a \<union> up_bound b)"
proof -
  have "lo_bound a \<inter> lo_bound b \<subseteq> up_bound a \<union> up_bound b"
    using bounded_interval [OF assms(1,3)] by blast
  from concretization_structural_result [OF this] assms(3,4) show ?thesis
    by (cases a; cases b) (auto simp: loss_set_or_empty_def)
qed

lemma between_mono: "d' \<subseteq> d \<Longrightarrow> p \<subseteq> p' \<Longrightarrow> between d p \<subseteq> between d' p'"
  unfolding between_def by blast

lemma structural_in_between [simp]: "fidelity_structural l \<in> between d p \<longleftrightarrow> d \<subseteq> l \<and> l \<subseteq> p"
  by (auto simp: between_def)

lemma bounded_of_members:
  assumes "assessment_wf c" "fidelity_structural l \<in> concretization c"
  shows "bounded_class c"
  using assms by (cases c; cases "l = {}") auto

text \<open>
  C31. Merging two paths is the interval hull: below the two absorbing classes the merge covers both
  operands, and every assessment covering both operands covers the merge.
\<close>

theorem join_paths_hull:
  assumes "assessment_wf a" "assessment_wf b" "bounded_class a" "bounded_class b"
  shows "\<exists>c. try_join_paths a b = Inr c \<and> assessment_wf c \<and>
           concretization a \<union> concretization b \<subseteq> concretization c \<and>
           (\<forall>d. assessment_wf d \<and> concretization a \<union> concretization b \<subseteq> concretization d \<longrightarrow>
                concretization c \<subseteq> concretization d)"
proof -
  obtain c where c: "join_paths_valid a b = Inr c" "assessment_wf c"
    "concretization c = between (lo_bound a \<inter> lo_bound b) (up_bound a \<union> up_bound b)"
    using join_bounded [OF assms] by blast
  note ia = bounded_interval [OF assms(1,3)] and ib = bounded_interval [OF assms(2,4)]
  have "concretization a \<union> concretization b \<subseteq> concretization c"
    using ia ib c(3) between_mono [of "lo_bound a \<inter> lo_bound b" "lo_bound a" "up_bound a"]
      between_mono [of "lo_bound a \<inter> lo_bound b" "lo_bound b" "up_bound b"] by simp
  moreover have "concretization c \<subseteq> concretization d"
    if d: "assessment_wf d" "concretization a \<union> concretization b \<subseteq> concretization d" for d
  proof -
    have mem: "fidelity_structural (lo_bound a) \<in> concretization d"
      "fidelity_structural (up_bound a) \<in> concretization d"
      "fidelity_structural (lo_bound b) \<in> concretization d"
      "fidelity_structural (up_bound b) \<in> concretization d"
      using d(2) ia ib by auto
    have "concretization d = between (lo_bound d) (up_bound d)"
      using bounded_interval [OF d(1)] bounded_of_members [OF d(1) mem(1)] by blast
    with mem c(3) show ?thesis by (simp add: between_mono le_infI1)
  qed
  moreover have "try_join_paths a b = Inr c"
    using c(1) by (simp add: try_join_paths_def assms(1,2) [THEN assessment_wf_valid])
  ultimately show ?thesis using c(2) by blast
qed

theorem join_paths_hull_witness:
  "\<exists>c. try_join_paths LosslessA (StructuralA (Some {OrderingK}) {OrderingK}) = Inr c \<and>
     assessment_wf c \<and>
     concretization LosslessA \<union> concretization (StructuralA (Some {OrderingK}) {OrderingK})
       \<subseteq> concretization c \<and>
     (\<forall>d. assessment_wf d \<and>
          concretization LosslessA \<union> concretization (StructuralA (Some {OrderingK}) {OrderingK})
            \<subseteq> concretization d \<longrightarrow>
          concretization c \<subseteq> concretization d)"
  by (rule join_paths_hull) simp_all

text \<open>
  C32. The operators fail exactly on an operand outside the interval invariant: the checked
  spellings return the bounds error, the unchecked ones panic, and no other failure exists.
\<close>

theorem fidelity_operators_fail_exactly:
  "try_then a b = Inl DefiniteOutsidePossible \<and> then_assessment a b = Inl FidelityPanic \<and>
   try_join_paths a b = Inl DefiniteOutsidePossible \<and> join_paths a b = Inl FidelityPanic \<and>
   (validate_assessment a = Inl DefiniteOutsidePossible \<or>
    validate_assessment b = Inl DefiniteOutsidePossible) \<or>
   (\<exists>c d. try_then a b = Inr c \<and> then_assessment a b = Inr c \<and>
          try_join_paths a b = Inr d \<and> join_paths a b = Inr d \<and>
          validate_assessment c = Inr () \<and> validate_assessment d = Inr () \<and>
          validate_assessment a = Inr () \<and> validate_assessment b = Inr ())"
proof -
  have err: "validate_assessment x = Inr () \<or> validate_assessment x = Inl DefiniteOutsidePossible" for x
    by (induction x rule: validate_assessment.induct) auto
  have sub: "loss_set_or_empty d \<subseteq> p" if "validate_assessment (StructuralA d p) = Inr ()" for d p
    using that by (cases d) (auto simp: loss_set_or_empty_def split: if_splits)
  have str: "\<exists>c. assessment_structural d p = Inr c \<and> validate_assessment c = Inr ()" if "d \<subseteq> p" for d p
    using assessment_structural_ok [OF that] assessment_wf_valid by blast
  have ok: "(\<exists>c. then_valid a b = Inr c \<and> validate_assessment c = Inr ()) \<and>
            (\<exists>d. join_paths_valid a b = Inr d \<and> validate_assessment d = Inr ())"
    if v: "validate_assessment a = Inr ()" "validate_assessment b = Inr ()"
  proof (cases a; cases b)
    fix d p d' p'
    assume ab: "a = StructuralA d p" "b = StructuralA d' p'"
    then have "loss_set_or_empty d \<union> loss_set_or_empty d' \<subseteq> p \<union> p'"
      "loss_set_or_empty d \<inter> loss_set_or_empty d' \<subseteq> p \<union> p'"
      using v sub by blast+
    from this [THEN str] ab show ?thesis by auto
  qed (use v in \<open>auto simp: assessment_structural_def loss_set_new_def\<close>)
  show ?thesis
  proof (cases "validate_assessment a = Inr () \<and> validate_assessment b = Inr ()")
    case True
    with ok obtain c d where "then_valid a b = Inr c" "validate_assessment c = Inr ()"
      "join_paths_valid a b = Inr d" "validate_assessment d = Inr ()" by blast
    with True show ?thesis
      by (simp add: try_then_def try_join_paths_def then_assessment_def join_paths_def)
  next
    case False
    with err [of a] err [of b] show ?thesis
      by (auto simp: try_then_def try_join_paths_def then_assessment_def join_paths_def expect_ok_def)
  qed
qed

text \<open>
  Composition of concrete judgments is a commutative, idempotent monoid with \<open>Lossless\<close> as its
  unit, and the point embedding into assessments commutes with it: it is inverted by the exact
  projection and its concretization is the judgment itself.
\<close>

theorem compose_semilattice_embedded:
  assumes "fidelity_wf f" "fidelity_wf g" "fidelity_wf h"
  shows "compose f g = compose g f \<and> compose (compose f g) h = compose f (compose g h) \<and>
         compose f f = f \<and> compose Lossless f = f \<and>
         try_then (from_concrete f) (from_concrete g) = Inr (from_concrete (compose f g)) \<and>
         try_concrete_fidelity (from_concrete f) = Inr (Some f) \<and>
         concretization (from_concrete f) = {f}"
proof -
  have pt: "concretization (from_concrete f) = {f}" if "fidelity_wf f" for f
  proof (cases f)
    case (StructuralLoss l)
    then have "concretization (from_concrete f) = between l l"
      using that by (simp add: concretization_Structural loss_set_or_empty_def)
    also have "\<dots> = {fidelity_structural l}"
      unfolding between_def set_eq_subset [symmetric] by simp
    also have "\<dots> = {f}" using that StructuralLoss by simp
    finally show ?thesis .
  qed simp_all
  have "compose (compose f g) h = compose f (compose g h)"
    using assms by (cases f; cases g; cases h) (simp_all add: Un_assoc)
  moreover have "compose f g = compose g f" "compose f f = f" "compose Lossless f = f"
    using assms by (cases f; cases g; simp add: Un_commute)+
  moreover have "try_then (from_concrete f) (from_concrete g) = Inr (from_concrete (compose f g))"
    using assms by (cases f; cases g)
      (auto simp: try_then_def assessment_structural_def loss_set_or_empty_def loss_set_new_def)
  moreover have "try_concrete_fidelity (from_concrete f) = Inr (Some f)"
    using assms(1) by (cases f) (auto simp: try_concrete_fidelity_def try_possible_fidelity_def)
  ultimately show ?thesis using pt [OF assms(1)] by blast
qed

theorem compose_semilattice_embedded_witness:
  "fidelity_wf (StructuralLoss {EncodingK}) \<and>
   compose (StructuralLoss {EncodingK}) (StructuralLoss {EncodingK}) = StructuralLoss {EncodingK}"
  using compose_semilattice_embedded [of "StructuralLoss {EncodingK}" Lossless Unsupported] by simp

end
