(* ===== verification/HGraph.thy ===== *)
theory HGraph
  imports Dispatch Value Fidelity "HOL-Library.Product_Lexorder"
begin

text \<open>
  The execution hypergraph (\<open>hgraph/kinds.rs\<close>, the data and the mutators of
  \<open>hgraph/graph.rs\<close>): values, resource states and control tokens are nodes; operations are
  hyperedges with ordered inputs and outputs.

  A hash map is an association list with distinct keys; \<open>insert\<close> is \<open>AList.update\<close>, a mutable
  borrow of an entry is \<open>AList.map_entry\<close>. Iteration over a hash map visits the entries in list
  order; the code leaves that order open, and only the choice among several simultaneous errors
  depends on it. Node, edge and version counters are natural numbers; \<open>saturating_add\<close> is written
  out where the code uses it. Errors carry the source's message without its interpolated values.
\<close>

section \<open>Vocabulary\<close>

type_synonym flags = u16

definition DOM_STRING :: flags where "DOM_STRING = 0x0020"
definition DOM_ANY :: flags where "DOM_ANY = 0x00ff"
definition REP_STR :: flags where "REP_STR = 0x0400"
definition REP_ANY :: flags where "REP_ANY = 0x07ff"

record actor_id =
  actor_lang :: u32
  actor_env :: u32

datatype mem_order = RelaxedM | AcquireM | ReleaseM | AcqRelM | SeqCstM

datatype ocore_op_kind =
    AddOp | SubOp | MulOp | DivOp | LoadOp | StoreOp | InbOp | OutbOp | VolatileLoadOp
  | VolatileStoreOp | AtomicFetchOp mem_order

datatype op_kind =
    Additive | Multiplicative | Bitwise | OrderedK | BoundedK int | AbiFixed flags flags
  | Dereferenceable | FieldAccess string
  | DataFlow | StructuralBarrier | SequenceOp | ActorSerial actor_id
  | BatchOp | AllOp | AnyOp | RaceOp
  | RequestOp string | ScheduleOp string | CacheMemo bool
  | BackendCrossing string string
  | X86 string | OcoreOp ocore_op_kind

datatype executable_op =
    StoreX
  | LoadBindingX
  | InvokeX string invoke_mode
  | EvalBackendX string u32
  | InlineBackendX string
  | ForceRequestX string
  | RequestX string
  | GroupX group_mode
  | ScheduleX string
  | MaterializeProjectX
  | BuildRouteX string
  | RunRouteX string
  | SelectRouteX string
  | CompareRouteResultsX

datatype ready_input_policy = AllInputs | OrderedFirstSuccess

datatype constraint_op =
    DataFlowC
  | StructuralC
  | SequenceControlC
  | ActorSerialC actor_id
  | EffectOrderC resource_key
  | CommitOrderC nat
  | BackendCrossingC string string
  | BranchGuardC string
  | TypeC op_kind

fun from_op_kind :: "op_kind \<Rightarrow> constraint_op" where
  "from_op_kind DataFlow = DataFlowC"
| "from_op_kind StructuralBarrier = StructuralC"
| "from_op_kind SequenceOp = SequenceControlC"
| "from_op_kind (ActorSerial a) = ActorSerialC a"
| "from_op_kind (BackendCrossing f t) = BackendCrossingC f t"
| "from_op_kind other = TypeC other"

datatype hedge_kind = ExecuteH executable_op | ConstraintH constraint_op

datatype value_state = Unresolved | Materialized | FailedState string | DisabledByBranch

datatype admission_fact =
    TypeFact | EffectFootprintFact | DispatchFact | CapabilityPolicyFact | PlacementFact
  | FailurePolicyFact | ResourceBudgetFact

definition ALL_FACTS :: "admission_fact list" where
  "ALL_FACTS = [TypeFact, EffectFootprintFact, DispatchFact, CapabilityPolicyFact, PlacementFact,
     FailurePolicyFact, ResourceBudgetFact]"

fun fact_name :: "admission_fact \<Rightarrow> string" where
  "fact_name TypeFact = ''type''"
| "fact_name EffectFootprintFact = ''effect-footprint''"
| "fact_name DispatchFact = ''dispatch''"
| "fact_name CapabilityPolicyFact = ''capability-policy''"
| "fact_name PlacementFact = ''placement''"
| "fact_name FailurePolicyFact = ''failure-policy''"
| "fact_name ResourceBudgetFact = ''resource-budget''"

datatype hgraph_error =
    HErr string
  | PlanE plan_error
  | EffectE effect_error
  | FidelityE fidelity_error
  | HPanic

section \<open>Nodes and edges\<close>

datatype hnode_kind =
    ValueH
  | ResourceStateH resource_key nat
  | CompletionH nat
  | BranchControlH string nat
  | AdmissionEvidenceH nat admission_fact

record hnode =
  hn_id :: nat
  hn_kind :: hnode_kind
  hn_domain :: flags
  hn_rep :: flags
  hn_value :: "ovalue option"
  hn_actor :: "actor_id option"
  hn_assessment :: "assessment option"
  hn_fidelity :: "fidelity option"
  hn_incident :: "nat list"
  hn_state :: value_state
  hn_producer :: "nat option"
  hn_consumers :: "nat list"
  hn_plan_node :: "nat option"

definition fresh_node :: hnode where
  "fresh_node =
     \<lparr>hn_id = 0, hn_kind = ValueH, hn_domain = DOM_ANY, hn_rep = REP_ANY, hn_value = None,
      hn_actor = None, hn_assessment = None, hn_fidelity = None, hn_incident = [],
      hn_state = Unresolved, hn_producer = None, hn_consumers = [], hn_plan_node = None\<rparr>"

definition node_with_value :: "ovalue \<Rightarrow> hnode" where
  "node_with_value v = fresh_node\<lparr>hn_value := Some v, hn_state := Materialized\<rparr>"

text \<open>\<open>HNode::synthetic\<close>; its callers below never pass an ordinary value kind.\<close>

definition synthetic_node :: "hnode_kind \<Rightarrow> value_state \<Rightarrow> hnode" where
  "synthetic_node k st = fresh_node\<lparr>hn_kind := k, hn_domain := 0, hn_rep := 0, hn_state := st\<rparr>"

definition resource_state_node :: "resource_key \<Rightarrow> nat \<Rightarrow> hnode" where
  "resource_state_node r v =
     synthetic_node (ResourceStateH r v) (if v = 0 then Materialized else Unresolved)"

definition completion_hnode :: "nat \<Rightarrow> hnode" where
  "completion_hnode i = synthetic_node (CompletionH i) Unresolved"

definition branch_control_node :: "string \<Rightarrow> nat \<Rightarrow> bool \<Rightarrow> hnode" where
  "branch_control_node label v m =
     synthetic_node (BranchControlH label v) (if m then Materialized else Unresolved)"

definition admission_evidence_node :: "nat \<Rightarrow> admission_fact \<Rightarrow> hnode" where
  "admission_evidence_node i f = synthetic_node (AdmissionEvidenceH i f) Materialized"

definition is_value_node :: "hnode \<Rightarrow> bool" where
  "is_value_node n \<longleftrightarrow> hn_kind n = ValueH"

datatype port_role = InputP | OutputP | InOutP

record port =
  port_node :: nat
  port_role :: port_role

record hedge =
  he_id :: nat
  he_kind :: op_kind
  he_op :: hedge_kind
  he_ports :: "port list"

definition constraint_edge :: "op_kind \<Rightarrow> port list \<Rightarrow> hedge" where
  "constraint_edge k ps =
     \<lparr>he_id = 0, he_kind = k, he_op = ConstraintH (from_op_kind k), he_ports = ps\<rparr>"

definition execute_edge :: "executable_op \<Rightarrow> port list \<Rightarrow> hedge" where
  "execute_edge op ps = \<lparr>he_id = 0, he_kind = SequenceOp, he_op = ExecuteH op, he_ports = ps\<rparr>"

definition is_execute :: "hedge \<Rightarrow> bool" where
  "is_execute e = (case he_op e of ExecuteH _ \<Rightarrow> True | ConstraintH _ \<Rightarrow> False)"

abbreviation input_port :: "nat \<Rightarrow> port" where
  "input_port n \<equiv> \<lparr>port_node = n, port_role = InputP\<rparr>"

abbreviation output_port :: "nat \<Rightarrow> port" where
  "output_port n \<equiv> \<lparr>port_node = n, port_role = OutputP\<rparr>"

definition ports_with :: "port_role \<Rightarrow> hedge \<Rightarrow> nat list" where
  "ports_with r e = map port_node (filter (\<lambda>p. port_role p = r) (he_ports e))"

record exec_info =
  ei_edge :: nat
  ei_value_output :: nat
  ei_inputs :: "nat list"
  ei_outputs :: "nat list"
  ei_ordinal :: nat
  ei_plan_node :: nat

record sequence_dependency =
  sd_predecessor :: nat
  sd_successor :: nat
  sd_completion :: nat

record hgraph =
  hg_nodes :: "(nat \<times> hnode) list"
  hg_edges :: "(nat \<times> hedge) list"
  hg_exec_edges :: "(nat \<times> hedge) list"
  hg_op_map :: "(nat \<times> exec_info) list"
  hg_effect_summaries :: "(nat \<times> effect_summary) list"
  hg_completion_nodes :: "(nat \<times> nat) list"
  hg_sequence_dependencies :: "sequence_dependency list"
  hg_admission_evidence_nodes :: "((nat \<times> admission_fact) \<times> nat) list"
  hg_bindings :: "(string \<times> nat) list"
  hg_ir_map :: "(nat \<times> oir) list"
  hg_root_nodes :: "nat list"
  hg_source_plan :: "execution_plan option"
  hg_next_node :: nat
  hg_next_edge :: nat

definition empty_hgraph :: hgraph where
  "empty_hgraph =
     \<lparr>hg_nodes = [], hg_edges = [], hg_exec_edges = [], hg_op_map = [], hg_effect_summaries = [],
      hg_completion_nodes = [], hg_sequence_dependencies = [], hg_admission_evidence_nodes = [],
      hg_bindings = [], hg_ir_map = [], hg_root_nodes = [], hg_source_plan = None,
      hg_next_node = 0, hg_next_edge = 0\<rparr>"

section \<open>Lookups\<close>

definition hg_node :: "hgraph \<Rightarrow> nat \<Rightarrow> hnode option" where
  "hg_node g i = map_of (hg_nodes g) i"

definition exec_edge :: "hgraph \<Rightarrow> nat \<Rightarrow> hedge option" where
  "exec_edge g i = map_of (hg_exec_edges g) i"

definition op_for :: "hgraph \<Rightarrow> nat \<Rightarrow> exec_info option" where
  "op_for g i = map_of (hg_op_map g) i"

definition completion_node :: "hgraph \<Rightarrow> nat \<Rightarrow> nat option" where
  "completion_node g i = map_of (hg_completion_nodes g) i"

definition effect_summary_of :: "hgraph \<Rightarrow> nat \<Rightarrow> effect_summary option" where
  "effect_summary_of g i = map_of (hg_effect_summaries g) i"

definition hg_lookup :: "hgraph \<Rightarrow> string \<Rightarrow> nat option" where
  "hg_lookup g name = map_of (hg_bindings g) name"

definition node_ids :: "hgraph \<Rightarrow> nat list" where
  "node_ids g = sort (map fst (hg_nodes g))"

definition edge_ids :: "hgraph \<Rightarrow> nat list" where
  "edge_ids g = sort (map fst (hg_edges g))"

definition exec_ops_ordered :: "hgraph \<Rightarrow> exec_info list" where
  "exec_ops_ordered g = sort_key (\<lambda>i. (ei_ordinal i, ei_plan_node i)) (map snd (hg_op_map g))"

section \<open>Mutators\<close>

definition hg_add_node :: "hnode \<Rightarrow> hgraph \<Rightarrow> nat \<times> hgraph" where
  "hg_add_node n g =
     (let i = hg_next_node g in
      (i, g\<lparr>hg_next_node := i + 1, hg_nodes := AList.update i (n\<lparr>hn_id := i\<rparr>) (hg_nodes g)\<rparr>))"

definition modify_node :: "nat \<Rightarrow> (hnode \<Rightarrow> hnode) \<Rightarrow> hgraph \<Rightarrow> hgraph" where
  "modify_node i f g = g\<lparr>hg_nodes := AList.map_entry i f (hg_nodes g)\<rparr>"

definition push_incident :: "nat \<Rightarrow> hnode \<Rightarrow> hnode" where
  "push_incident e n = n\<lparr>hn_incident := hn_incident n @ [e]\<rparr>"

definition push_consumer :: "nat \<Rightarrow> hnode \<Rightarrow> hnode" where
  "push_consumer e n = n\<lparr>hn_consumers := hn_consumers n @ [e]\<rparr>"

definition hg_add_edge :: "hedge \<Rightarrow> hgraph \<Rightarrow> nat \<times> hgraph" where
  "hg_add_edge e g =
     (let i = hg_next_edge g;
          g1 = g\<lparr>hg_next_edge := i + 1\<rparr>;
          g2 = fold (\<lambda>p. modify_node (port_node p) (push_incident i)) (he_ports e) g1
      in (i, g2\<lparr>hg_edges := AList.update i (e\<lparr>he_id := i\<rparr>) (hg_edges g2)\<rparr>))"

definition check_exec_inputs :: "hgraph \<Rightarrow> nat list \<Rightarrow> hgraph_error + nat list" where
  "check_exec_inputs g inputs =
     try_fold (\<lambda>seen input.
        if input \<in> set seen then Inl (HErr ''executable operation repeats input node'')
        else if hg_node g input = None
        then Inl (HErr ''executable operation references missing input node'')
        else Inr (input # seen)) [] inputs"

definition check_exec_outputs :: "hgraph \<Rightarrow> nat list \<Rightarrow> nat list \<Rightarrow> hgraph_error + nat list" where
  "check_exec_outputs g seen_inputs outputs =
     try_fold (\<lambda>seen output.
        if output \<in> set seen then Inl (HErr ''executable operation repeats output node'')
        else (case hg_node g output of
                None \<Rightarrow> Inl (HErr ''executable operation references missing output node'')
              | Some n \<Rightarrow>
                  if hn_producer n \<noteq> None then Inl (HErr ''output node already has producer'')
                  else if hn_state n \<noteq> Unresolved then Inl (HErr ''output node must start unresolved'')
                  else if output \<in> set seen_inputs
                  then Inl (HErr ''node cannot be both an input and output'')
                  else Inr (output # seen))) [] outputs"

definition is_value_id :: "hgraph \<Rightarrow> nat \<Rightarrow> bool" where
  "is_value_id g i = (case hg_node g i of None \<Rightarrow> False | Some n \<Rightarrow> is_value_node n)"

definition check_value_output :: "hgraph \<Rightarrow> nat list \<Rightarrow> nat \<Rightarrow> hgraph_error + unit" where
  "check_value_output g outputs value_output =
     and_then (ensure (value_output \<in> set outputs)
                 (HErr ''distinguished value output is not an output'')) (\<lambda>_.
     and_then (ok_or (hg_node g value_output)
                 (HErr ''missing distinguished value output'')) (\<lambda>n.
     and_then (ensure (is_value_node n)
                 (HErr ''distinguished output is not an ordinary Value node'')) (\<lambda>_.
     ensure (length (filter (is_value_id g) outputs) = 1)
       (HErr ''operation must have exactly one ordinary Value output''))))"

definition mark_output :: "nat \<Rightarrow> nat \<Rightarrow> hnode \<Rightarrow> hnode" where
  "mark_output plan_node e n =
     (let n1 = (push_incident e n)\<lparr>hn_producer := Some e\<rparr> in
      if hn_plan_node n1 = None then n1\<lparr>hn_plan_node := Some plan_node\<rparr> else n1)"

definition add_exec_edge ::
  "nat \<Rightarrow> executable_op \<Rightarrow> nat list \<Rightarrow> nat list \<Rightarrow> nat \<Rightarrow> nat \<Rightarrow> hgraph \<Rightarrow> hgraph_error + nat \<times> hgraph" where
  "add_exec_edge plan_node op inputs outputs value_output ordinal g =
     and_then (ensure (op_for g plan_node = None)
                 (HErr ''plan node already has an executable operation'')) (\<lambda>_.
     and_then (check_exec_inputs g inputs) (\<lambda>seen_inputs.
     and_then (check_exec_outputs g seen_inputs outputs) (\<lambda>seen_outputs.
     and_then (check_value_output g outputs value_output) (\<lambda>_.
     let i = hg_next_edge g;
         g1 = g\<lparr>hg_next_edge := i + 1\<rparr>;
         e = (execute_edge op (map input_port inputs @ map output_port outputs))\<lparr>he_id := i\<rparr>;
         g2 = fold (\<lambda>n. modify_node n (push_consumer i \<circ> push_incident i)) inputs g1;
         g3 = fold (\<lambda>n. modify_node n (mark_output plan_node i)) outputs g2
     in Inr (i, g3\<lparr>hg_exec_edges := AList.update i e (hg_exec_edges g3),
                  hg_op_map := AList.update plan_node
                    \<lparr>ei_edge = i, ei_value_output = value_output, ei_inputs = inputs,
                     ei_outputs = outputs, ei_ordinal = ordinal, ei_plan_node = plan_node\<rparr>
                    (hg_op_map g3)\<rparr>)))))"

definition set_effect_summary :: "nat \<Rightarrow> effect_summary \<Rightarrow> hgraph \<Rightarrow> hgraph" where
  "set_effect_summary i s g =
     g\<lparr>hg_effect_summaries := AList.update i s (hg_effect_summaries g)\<rparr>"

definition set_completion_node :: "nat \<Rightarrow> nat \<Rightarrow> hgraph \<Rightarrow> hgraph_error + hgraph" where
  "set_completion_node i node g =
     and_then (ok_or (hg_node g node) (HErr ''completion node does not exist'')) (\<lambda>n.
     and_then (ensure (hn_kind n = CompletionH i) (HErr ''node is not the completion'')) (\<lambda>_.
     and_then (ensure (completion_node g i \<in> {None, Some node})
                 (HErr ''plan node already maps to completion node'')) (\<lambda>_.
     Inr (g\<lparr>hg_completion_nodes := AList.update i node (hg_completion_nodes g)\<rparr>))))"

definition add_completion_node :: "nat \<Rightarrow> hgraph \<Rightarrow> hgraph_error + nat \<times> hgraph" where
  "add_completion_node i g =
     (if completion_node g i \<noteq> None then Inl (HErr ''plan node already maps to completion node'')
      else (case hg_add_node (completion_hnode i) g of
              (node, g1) \<Rightarrow>
                Inr (node, g1\<lparr>hg_completion_nodes := AList.update i node (hg_completion_nodes g1)\<rparr>)))"

definition add_admission_evidence_input ::
  "nat \<Rightarrow> admission_fact \<Rightarrow> hgraph \<Rightarrow> hgraph_error + nat \<times> hgraph" where
  "add_admission_evidence_input i fct g =
     and_then (ensure (map_of (hg_admission_evidence_nodes g) (i, fct) = None)
                 (HErr ''operation already has admission evidence'')) (\<lambda>_.
     and_then (ok_or (op_for g i) (HErr ''operation does not exist'')) (\<lambda>info.
     let e = ei_edge info in
     case hg_add_node (admission_evidence_node i fct) g of
       (node, g1) \<Rightarrow>
         (let g2 = modify_node node (push_incident e \<circ> push_consumer e) g1 in
          and_then (ensure (exec_edge g2 e \<noteq> None) HPanic) (\<lambda>_.
          let g3 = g2\<lparr>hg_exec_edges := AList.map_entry e
                        (\<lambda>h. h\<lparr>he_ports := he_ports h @ [input_port node]\<rparr>) (hg_exec_edges g2)\<rparr>;
              g4 = g3\<lparr>hg_op_map := AList.map_entry i
                        (\<lambda>x. x\<lparr>ei_inputs := ei_inputs x @ [node]\<rparr>) (hg_op_map g3)\<rparr>
          in Inr (node, g4\<lparr>hg_admission_evidence_nodes :=
                AList.update (i, fct) node (hg_admission_evidence_nodes g4)\<rparr>)))))"

definition record_sequence_dependency ::
  "nat \<Rightarrow> nat \<Rightarrow> nat \<Rightarrow> hgraph \<Rightarrow> hgraph_error + hgraph" where
  "record_sequence_dependency predecessor successor completion g =
     and_then (ok_or (hg_node g completion)
                 (HErr ''sequence completion node does not exist'')) (\<lambda>n.
     and_then (ensure (hn_kind n = CompletionH predecessor)
                 (HErr ''sequence uses a node which is not the predecessor completion'')) (\<lambda>_.
     let d = \<lparr>sd_predecessor = predecessor, sd_successor = successor, sd_completion = completion\<rparr> in
     Inr (if d \<in> set (hg_sequence_dependencies g) then g
          else g\<lparr>hg_sequence_dependencies := hg_sequence_dependencies g @ [d]\<rparr>)))"

definition hg_bind :: "string \<Rightarrow> nat \<Rightarrow> hgraph \<Rightarrow> hgraph" where
  "hg_bind name node g = g\<lparr>hg_bindings := AList.update name node (hg_bindings g)\<rparr>"

definition record_ir :: "nat \<Rightarrow> oir \<Rightarrow> hgraph \<Rightarrow> hgraph" where
  "record_ir node ir g = g\<lparr>hg_ir_map := AList.update node ir (hg_ir_map g)\<rparr>"

definition push_root :: "nat \<Rightarrow> hgraph \<Rightarrow> hgraph" where
  "push_root node g = g\<lparr>hg_root_nodes := hg_root_nodes g @ [node]\<rparr>"

definition set_source_plan :: "execution_plan \<Rightarrow> hgraph \<Rightarrow> hgraph" where
  "set_source_plan p g = g\<lparr>hg_source_plan := Some p\<rparr>"

section \<open>Input policy of an operation\<close>

definition check_alternative :: "hgraph \<Rightarrow> nat \<Rightarrow> hgraph_error + unit" where
  "check_alternative g input =
     and_then (ok_or (hg_node g input)
                 (HErr ''ordered first-success SelectRoute references missing input node'')) (\<lambda>n.
     and_then (ensure (is_value_node n)
                 (HErr ''ordered first-success SelectRoute input is not an ordinary Value'')) (\<lambda>_.
     and_then (ok_or (hn_producer n)
                 (HErr ''ordered first-success SelectRoute input has no RunRoute producer'')) (\<lambda>p.
     and_then (ok_or (exec_edge g p)
                 (HErr ''ordered first-success SelectRoute input references missing producer edge''))
       (\<lambda>e. ensure (case he_op e of ExecuteH (RunRouteX _) \<Rightarrow> True | _ \<Rightarrow> False)
               (HErr ''ordered first-success SelectRoute input is not produced by RunRoute'')))))"

definition info_input_policy :: "hgraph \<Rightarrow> exec_info \<Rightarrow> hgraph_error + ready_input_policy" where
  "info_input_policy g info =
     and_then (ok_or (op_for g (ei_plan_node info))
                 (HErr ''operation is absent from the supplied HGraph'')) (\<lambda>registered.
     and_then (ensure (registered = info)
                 (HErr ''operation does not match the supplied HGraph projection'')) (\<lambda>_.
     and_then (ok_or (exec_edge g (ei_edge info))
                 (HErr ''operation references missing executable edge'')) (\<lambda>e.
     case he_op e of
       ExecuteH (SelectRouteX policy) \<Rightarrow>
         if policy \<noteq> ''fallback'' \<and> policy \<noteq> ''any_success'' then Inr AllInputs
         else and_then (ensure (ei_inputs info \<noteq> [])
                 (HErr ''ordered first-success SelectRoute has no alternative-result inputs'')) (\<lambda>_.
              and_then (for_each (check_alternative g) (ei_inputs info)) (\<lambda>_.
              Inr OrderedFirstSuccess))
     | _ \<Rightarrow> Inr AllInputs)))"

end
