(* ===== verification/Sequencing.thy ===== *)
theory Sequencing
  imports HGraph
begin

text \<open>
  The plan-level rules of hypergraph lowering (\<open>hgraph/from_oir.rs\<close>): which plan nodes are
  executable, which executable operations precede a node in source sequence, and when a source
  sequence may be relaxed. Both the lowerer and the independent validator use them.

  The two searches keep a visited set in the code; here they are recursions over an explicit
  stack, in the order in which the code pops its work, and they end on every plan.
\<close>

section \<open>Executable operations\<close>

fun executable_op :: "plan_node_kind \<Rightarrow> executable_op option" where
  "executable_op TextK = None"
| "executable_op (LoadK _) = Some LoadBindingX"
| "executable_op (StoreK _) = Some StoreX"
| "executable_op (CallK f mode _) = Some (InvokeX f mode)"
| "executable_op (RequestK _ k _) = Some (RequestX (request_label k))"
| "executable_op (GroupK mode _) = Some (GroupX mode)"
| "executable_op (ScheduleK _ Force _) = Some (ForceRequestX ''force'')"
| "executable_op (ScheduleK _ k _) = Some (ScheduleX (schedule_label k))"
| "executable_op (ExecK _ env _ backend) =
     (case execution backend of
        Shim \<Rightarrow> Some (EvalBackendX (canonical backend) env)
      | _ \<Rightarrow> Some (InlineBackendX (canonical backend)))"

definition is_executable :: "plan_node_kind \<Rightarrow> bool" where
  "is_executable k \<longleftrightarrow> executable_op k \<noteq> None"

lemma is_executable_iff [simp]: "is_executable k \<longleftrightarrow> k \<noteq> TextK"
  by (cases k rule: executable_op.cases) (auto simp: is_executable_def split: execution_mode.splits)

section \<open>Source sequence\<close>

definition sequence_sources :: "execution_plan \<Rightarrow> nat \<Rightarrow> nat list" where
  "sequence_sources pl t =
     map edge_from (filter (\<lambda>e. edge_kind e = Sequence \<and> edge_to e = t) (edges pl))"

definition structural_sources :: "execution_plan \<Rightarrow> nat \<Rightarrow> nat list" where
  "structural_sources pl t =
     map edge_from (filter (\<lambda>e. edge_kind e = Structural \<and> edge_to e = t) (edges pl))"

definition untried :: "execution_plan \<Rightarrow> nat list \<Rightarrow> nat" where
  "untried pl visited = card (edge_to ` set (edges pl) - set visited)"

lemma untried_Cons_le: "untried pl (x # visited) \<le> untried pl visited"
  unfolding untried_def by (intro card_mono) auto

lemma untried_Cons_less:
  assumes "x \<in> edge_to ` set (edges pl)" "x \<notin> set visited"
  shows "untried pl (x # visited) < untried pl visited"
  unfolding untried_def using assms by (intro psubset_card_mono) auto

text \<open>The head of \<open>work\<close> is the end of the code's pending vector.\<close>

function predecessor_walk ::
  "execution_plan \<Rightarrow> nat list \<Rightarrow> nat list \<Rightarrow> nat list \<Rightarrow> plan_error + nat list" where
  "predecessor_walk pl [] visited executable = Inr executable"
| "predecessor_walk pl (source # work) visited executable =
     (if source \<in> set visited then predecessor_walk pl work visited executable
      else case kind_at pl source of
        Inl e \<Rightarrow> Inl e
      | Inr k \<Rightarrow>
          if is_executable k
          then predecessor_walk pl work (source # visited) (bt_insert source executable)
          else predecessor_walk pl (rev (sequence_sources pl source) @ work) (source # visited)
                 executable)"
  by pat_completeness auto

lemma sequence_sources_target: "sequence_sources pl t \<noteq> [] \<Longrightarrow> t \<in> edge_to ` set (edges pl)"
  by (auto simp: sequence_sources_def filter_empty_conv)

lemma structural_sources_target: "structural_sources pl t \<noteq> [] \<Longrightarrow> t \<in> edge_to ` set (edges pl)"
  by (auto simp: structural_sources_def filter_empty_conv)

lemma untried_lex:
  assumes "x \<notin> set visited" "new \<noteq> [] \<Longrightarrow> x \<in> edge_to ` set (edges pl)"
  shows "untried pl (x # visited) < untried pl visited \<or>
         untried pl (x # visited) = untried pl visited \<and> length (new @ rest) < length (x # rest)"
  using assms untried_Cons_less untried_Cons_le [of pl x visited]
  by (cases "new = []") (auto simp: le_less)

lemma untried_lex_Cons:
  "untried pl (x # visited) < untried pl visited \<or>
   untried pl (x # visited) = untried pl visited \<and> length rest < length (x # rest)"
  using untried_Cons_le [of pl x visited] by (auto simp: le_less)

termination predecessor_walk
proof (relation "measures [\<lambda>(pl, work, visited, _). untried pl visited,
                           \<lambda>(pl, work, visited, _). length work]")
  fix pl and source :: nat and work visited executable :: "nat list" and k
  assume "source \<notin> set visited" "\<not> is_executable k"
  then show "((pl, rev (sequence_sources pl source) @ work, source # visited, executable),
      (pl, source # work, visited, executable))
      \<in> measures [\<lambda>(pl, work, visited, _). untried pl visited,
                  \<lambda>(pl, work, visited, _). length work]"
    using untried_lex [of source visited "rev (sequence_sources pl source)" pl work]
      sequence_sources_target [of pl source] by auto
next
  fix pl and source :: nat and work visited executable :: "nat list" and k
  show "((pl, work, source # visited, bt_insert source executable),
      (pl, source # work, visited, executable))
      \<in> measures [\<lambda>(pl, work, visited, _). untried pl visited,
                  \<lambda>(pl, work, visited, _). length work]"
    using untried_lex_Cons [of pl source visited work] by auto
qed simp_all

definition executable_sequence_predecessors :: "execution_plan \<Rightarrow> nat \<Rightarrow> plan_error + nat list" where
  "executable_sequence_predecessors pl target =
     predecessor_walk pl (rev (sequence_sources pl target)) [] []"

section \<open>Relaxation\<close>

text \<open>\<open>Iterator::any\<close> with a predicate that may panic.\<close>

fun try_any :: "('a \<Rightarrow> 'e + bool) \<Rightarrow> 'a list \<Rightarrow> 'e + bool" where
  "try_any f [] = Inr False"
| "try_any f (x # xs) =
     (case f x of Inl e \<Rightarrow> Inl e | Inr True \<Rightarrow> Inr True | Inr False \<Rightarrow> try_any f xs)"

definition direct_members_of_concurrent_group ::
  "execution_plan \<Rightarrow> nat \<Rightarrow> nat \<Rightarrow> plan_error + bool" where
  "direct_members_of_concurrent_group pl left right =
     try_any (\<lambda>parent. and_then (kind_at pl parent) (\<lambda>k.
                Inr (is_group k \<and> parent \<in> set (structural_parents pl right))))
       (structural_parents pl left)"

definition is_structural_o :: "plan_node_kind \<Rightarrow> bool" where
  "is_structural_o k =
     (case k of ExecK _ _ _ backend \<Rightarrow> execution backend = InlineAst \<and> canonical backend = ''O''
      | _ \<Rightarrow> False)"

definition inside_left_to_right_region :: "execution_plan \<Rightarrow> nat \<Rightarrow> plan_error + bool" where
  "inside_left_to_right_region pl i =
     try_any (\<lambda>p. and_then (kind_at pl p) (\<lambda>k. Inr (is_structural_o k))) (structural_parents pl i)"

definition verified_read_only :: "effect_summary \<Rightarrow> bool" where
  "verified_read_only s \<longleftrightarrow>
     es_confidence s = Verified \<and> \<not> es_unknown s \<and> es_actor_state s = None \<and> es_writes s = [] \<and>
     \<not> es_network s \<and> \<not> es_spawn s \<and> \<not> es_clock s"

definition trusted_renderer :: "plan_node_kind \<Rightarrow> bool" where
  "trusted_renderer k =
     (case k of
        ExecK _ _ _ backend \<Rightarrow>
          pure backend \<and> execution backend = InlineValue \<and> is_inline_renderer (canonical backend)
      | _ \<Rightarrow> False)"

text \<open>
  \<open>verified_reorderable_inline\<close> is a depth-first conjunction: one failing node makes the whole
  answer false, so the recursion is a loop over the children still to be checked, in the same
  order. \<open>enter_renderer\<close> is the part of the function before the children.
\<close>

definition enter_renderer :: "execution_plan \<Rightarrow> nat \<Rightarrow> nat list \<Rightarrow> plan_error + nat list option" where
  "enter_renderer pl i visited =
     (if i \<in> set visited then Inr None
      else and_then (kind_at pl i) (\<lambda>k.
           Inr (if trusted_renderer k then Some (structural_sources pl i) else None)))"

function renderer_walk ::
  "execution_plan \<Rightarrow> (nat \<Rightarrow> effect_summary option) \<Rightarrow> nat list \<Rightarrow> nat list \<Rightarrow> plan_error + bool" where
  "renderer_walk pl summaries [] visited = Inr True"
| "renderer_walk pl summaries (child # work) visited =
     (case kind_at pl child of
        Inl e \<Rightarrow> Inl e
      | Inr TextK \<Rightarrow> renderer_walk pl summaries work visited
      | Inr (ExecK _ _ _ _) \<Rightarrow>
          (case summaries child of
             None \<Rightarrow> Inr False
           | Some s \<Rightarrow>
               if \<not> is_verified_pure_infallible s then Inr False
               else (case enter_renderer pl child visited of
                       Inl e \<Rightarrow> Inl e
                     | Inr None \<Rightarrow> Inr False
                     | Inr (Some children) \<Rightarrow>
                         renderer_walk pl summaries (children @ work) (child # visited)))
      | Inr _ \<Rightarrow> Inr False)"
  by pat_completeness auto

lemma enter_renderer_SomeD:
  "enter_renderer pl i visited = Inr (Some children) \<Longrightarrow>
     i \<notin> set visited \<and> children = structural_sources pl i"
  by (auto simp: enter_renderer_def result_simps split: if_splits)

termination renderer_walk
proof (relation "measures [\<lambda>(pl, _, work, visited). untried pl visited,
                           \<lambda>(pl, _, work, visited). length work]")
  fix pl and summaries :: "nat \<Rightarrow> effect_summary option" and child :: nat
    and work visited children :: "nat list" and opt
  assume "enter_renderer pl child visited = Inr opt" "opt = Some children"
  then show "((pl, summaries, children @ work, child # visited), (pl, summaries, child # work, visited))
      \<in> measures [\<lambda>(pl, _, work, visited). untried pl visited,
                  \<lambda>(pl, _, work, visited). length work]"
    using untried_lex [of child visited children pl work] enter_renderer_SomeD [of pl child visited children]
      structural_sources_target [of pl child] by auto
qed simp_all

definition verified_reorderable_inline ::
  "execution_plan \<Rightarrow> nat \<Rightarrow> (nat \<Rightarrow> effect_summary option) \<Rightarrow> plan_error + bool" where
  "verified_reorderable_inline pl i summaries =
     and_then (enter_renderer pl i []) (\<lambda>r.
     case r of None \<Rightarrow> Inr False | Some children \<Rightarrow> renderer_walk pl summaries children [i])"

text \<open>\<open>&&\<close> and \<open>||\<close> on values that may panic.\<close>

definition and_also :: "'e + bool \<Rightarrow> 'e + bool \<Rightarrow> 'e + bool" where
  "and_also a b = and_then a (\<lambda>x. if x then b else Inr False)"

definition or_else :: "'e + bool \<Rightarrow> 'e + bool \<Rightarrow> 'e + bool" where
  "or_else a b = and_then a (\<lambda>x. if x then Inr True else b)"

definition distinct_members :: "(nat \<times> nat) option \<Rightarrow> (nat \<times> nat) option \<Rightarrow> bool" where
  "distinct_members l r =
     (case (l, r) of
        (Some (lg, lm), Some (rg, rm)) \<Rightarrow> lg = rg \<and> lm \<noteq> rm
      | _ \<Rightarrow> False)"

definition is_load :: "plan_node_kind \<Rightarrow> bool" where
  "is_load k = (case k of LoadK _ \<Rightarrow> True | _ \<Rightarrow> False)"

definition loads_relax ::
  "execution_plan \<Rightarrow> nat \<Rightarrow> nat \<Rightarrow> effect_summary \<Rightarrow> effect_summary \<Rightarrow> plan_error + bool" where
  "loads_relax pl predecessor successor left right =
     and_then (kind_at pl predecessor) (\<lambda>kp.
     and_also (Inr (is_load kp)) (
     and_then (kind_at pl successor) (\<lambda>ks.
     Inr (is_load ks \<and> verified_read_only left \<and> verified_read_only right))))"

definition sequence_can_relax ::
  "execution_plan \<Rightarrow> nat \<Rightarrow> nat \<Rightarrow> (nat \<Rightarrow> effect_summary option) \<Rightarrow> plan_error + bool" where
  "sequence_can_relax pl predecessor successor summaries =
     or_else (direct_members_of_concurrent_group pl predecessor successor) (
     and_then (autonomous_member pl predecessor) (\<lambda>lm.
     and_then (autonomous_member pl successor) (\<lambda>rm.
     if distinct_members lm rm then Inr True
     else case (summaries predecessor, summaries successor) of
       (Some left, Some right) \<Rightarrow>
         and_then (or_else (inside_left_to_right_region pl predecessor)
                           (inside_left_to_right_region pl successor)) (\<lambda>inside.
         if inside then Inr False
         else or_else (loads_relax pl predecessor successor left right) (
              if is_verified_pure_infallible left \<and> is_verified_pure_infallible right
              then and_also (verified_reorderable_inline pl predecessor summaries)
                            (verified_reorderable_inline pl successor summaries)
              else Inr False))
     | _ \<Rightarrow> Inr False)))"

section \<open>Totality\<close>

text \<open>On a plan whose edges stay inside the node vector no rule panics.\<close>

definition plan_in_bounds :: "execution_plan \<Rightarrow> bool" where
  "plan_in_bounds pl \<longleftrightarrow>
     list_all (\<lambda>e. edge_from e < length (nodes pl) \<and> edge_to e < length (nodes pl)) (edges pl)"

lemma in_bounds_sources:
  assumes "plan_in_bounds pl"
  shows "x \<in> set (sequence_sources pl t) \<Longrightarrow> x < length (nodes pl)"
    and "x \<in> set (structural_sources pl t) \<Longrightarrow> x < length (nodes pl)"
    and "x \<in> set (structural_parents pl t) \<Longrightarrow> x < length (nodes pl)"
  using assms
  by (auto simp: plan_in_bounds_def list_all_iff sequence_sources_def structural_sources_def
      structural_parents_def)

lemma kind_at_bound [simp]: "i < length (nodes pl) \<Longrightarrow> kind_at pl i = Inr (node_kind (nodes pl ! i))"
  by (simp add: kind_at_def)

lemma predecessor_walk_total:
  assumes "plan_in_bounds pl" "\<forall>x \<in> set work. x < length (nodes pl)"
  shows "\<exists>r. predecessor_walk pl work visited executable = Inr r"
  using assms in_bounds_sources(1) [OF assms(1)]
  by (induction pl work visited executable rule: predecessor_walk.induct)
    (auto split: sum.splits if_splits, blast)

lemma predecessors_total:
  "plan_in_bounds pl \<Longrightarrow> \<exists>r. executable_sequence_predecessors pl t = Inr r"
  using predecessor_walk_total in_bounds_sources(1) by (simp add: executable_sequence_predecessors_def)

lemma try_any_total:
  "(\<And>x. x \<in> set xs \<Longrightarrow> \<exists>b. f x = Inr b) \<Longrightarrow> \<exists>b. try_any f xs = Inr b"
  by (induction xs) (auto split: sum.splits bool.splits, force+)

lemma member_walk_total:
  "plan_in_bounds pl \<Longrightarrow> \<exists>m. member_walk pl visited i = Inr m"
proof (induction "unvisited pl visited" arbitrary: visited i rule: less_induct)
  case less
  show ?case
  proof (cases "i \<in> set visited \<or> length (structural_parents pl i) \<noteq> 1")
    case True
    then show ?thesis by (subst member_walk.simps) (auto split: list.splits)
  next
    case False
    then obtain p where p: "structural_parents pl i = [p]" "i \<notin> set visited"
      by (auto simp: length_Suc_conv)
    then have "p < length (nodes pl)"
      using in_bounds_sources(3) [OF less.prems, of p i] by simp
    then have pk: "parent_kind pl i p (node_kind (nodes pl ! p))"
      using p by (simp add: parent_kind_def)
    show ?thesis
      using member_walk_step [OF pk p(2)] less.hyps [OF parent_decreases [OF pk p(2)] less.prems]
      by auto
  qed
qed

lemma policy_walk_total:
  "plan_in_bounds pl \<Longrightarrow> \<exists>b. policy_walk pl visited i = Inr b"
proof (induction "unvisited pl visited" arbitrary: visited i rule: less_induct)
  case less
  show ?case
  proof (cases "i \<in> set visited \<or> length (structural_parents pl i) \<noteq> 1")
    case True
    then show ?thesis by (subst policy_walk.simps) (auto split: list.splits)
  next
    case False
    then obtain p where p: "structural_parents pl i = [p]" "i \<notin> set visited"
      by (auto simp: length_Suc_conv)
    then have "p < length (nodes pl)"
      using in_bounds_sources(3) [OF less.prems, of p i] by simp
    then have pk: "parent_kind pl i p (node_kind (nodes pl ! p))"
      using p by (simp add: parent_kind_def)
    show ?thesis
      using policy_walk_step [OF pk p(2)] less.hyps [OF parent_decreases [OF pk p(2)] less.prems]
      by auto
  qed
qed

lemma autonomous_member_total:
  assumes "plan_in_bounds pl"
  shows "\<exists>m. autonomous_member pl i = Inr m"
proof -
  obtain m where m: "member_walk pl [] i = Inr m" using member_walk_total [OF assms] by blast
  show ?thesis
  proof (cases m)
    case (Some gm)
    obtain a where "policy_walk pl [] (fst gm) = Inr a" using policy_walk_total [OF assms] by blast
    with m Some show ?thesis
      by (cases gm) (simp add: autonomous_member_def nearest_policy_schedule_is_autonomous_def)
  qed (simp add: autonomous_member_def m)
qed

lemma ephemeral_group_total:
  "plan_in_bounds pl \<Longrightarrow> \<exists>m. autonomous_ephemeral_group pl i x = Inr m"
  using autonomous_member_total [of pl i] by (cases x) auto

lemma enter_renderer_total: "i < length (nodes pl) \<Longrightarrow> \<exists>r. enter_renderer pl i visited = Inr r"
  by (simp add: enter_renderer_def)

lemma renderer_walk_total:
  assumes "plan_in_bounds pl" "\<forall>x \<in> set work. x < length (nodes pl)"
  shows "\<exists>b. renderer_walk pl summaries work visited = Inr b"
  using assms
proof (induction pl summaries work visited rule: renderer_walk.induct)
  case (2 pl summaries child work visited)
  have c: "child < length (nodes pl)" using "2.prems"(2) by simp
  show ?case
  proof (cases "node_kind (nodes pl ! child)")
    case TextK
    with 2 c show ?thesis by simp
  next
    case (ExecK l env attr b)
    obtain r where r: "enter_renderer pl child visited = Inr r"
      using enter_renderer_total [OF c] by blast
    show ?thesis
    proof (cases "\<exists>s children. summaries child = Some s \<and> is_verified_pure_infallible s \<and> r = Some children")
      case True
      then obtain s children where s: "summaries child = Some s" "is_verified_pure_infallible s"
        "r = Some children" by blast
      have "\<forall>x \<in> set (children @ work). x < length (nodes pl)"
        using enter_renderer_SomeD [of pl child visited children] r s(3) "2.prems"
          in_bounds_sources(2) [OF "2.prems"(1)] by auto
      then have "\<exists>b. renderer_walk pl summaries (children @ work) (child # visited) = Inr b"
        using "2.IH"(2) [OF _ _ s(1) _ r s(3)] ExecK c s(2) "2.prems"(1) by simp
      then show ?thesis using ExecK c s r by simp
    next
      case False
      then show ?thesis using ExecK c r by (auto split: option.splits)
    qed
  qed (use c in auto)
qed auto

lemma reorderable_total:
  assumes "plan_in_bounds pl" "i < length (nodes pl)"
  shows "\<exists>b. verified_reorderable_inline pl i summaries = Inr b"
  using assms renderer_walk_total [OF assms(1)] in_bounds_sources(2) [OF assms(1)]
  by (auto simp: verified_reorderable_inline_def enter_renderer_def)

lemma parents_any_total:
  assumes "plan_in_bounds pl"
  shows "\<exists>b. try_any (\<lambda>p. and_then (kind_at pl p) (\<lambda>k. Inr (f p k))) (structural_parents pl i) = Inr b"
  by (rule try_any_total) (simp add: in_bounds_sources(3) [OF assms])

lemma sequence_can_relax_total:
  assumes "plan_in_bounds pl" "i < length (nodes pl)" "j < length (nodes pl)"
  shows "\<exists>b. sequence_can_relax pl i j summaries = Inr b"
proof -
  obtain a where a: "direct_members_of_concurrent_group pl i j = Inr a"
    using parents_any_total [OF assms(1), of "\<lambda>q k. is_group k \<and> q \<in> set (structural_parents pl j)" i]
    unfolding direct_members_of_concurrent_group_def by blast
  obtain b c where bc: "inside_left_to_right_region pl i = Inr b" "inside_left_to_right_region pl j = Inr c"
    using parents_any_total [OF assms(1), of "\<lambda>_. is_structural_o"]
    unfolding inside_left_to_right_region_def by blast
  obtain lm rm where m: "autonomous_member pl i = Inr lm" "autonomous_member pl j = Inr rm"
    using autonomous_member_total [OF assms(1)] by blast
  obtain p q where pq: "verified_reorderable_inline pl i summaries = Inr p"
    "verified_reorderable_inline pl j summaries = Inr q"
    using reorderable_total [OF assms(1)] assms(2,3) by blast
  show ?thesis
    using assms(2,3)
    by (auto simp: sequence_can_relax_def or_else_def and_also_def a bc m pq loads_relax_def
        split: option.splits)
qed

end
