(* ===== verification/HGraph_Validate.thy ===== *)
theory HGraph_Validate
  imports Sequencing
begin

text \<open>
  The graph validator (\<open>hgraph/graph.rs\<close>, \<open>validate_execution_graph\<close> and the checks it runs):
  node kinds, operation shapes and semantics, resource version chains, sequence bookkeeping, the
  source-plan replay with its reader/writer frontiers, and acyclicity of the operation graph.
\<close>

section \<open>Helpers\<close>

definition sat_succ :: "nat \<Rightarrow> nat" where
  "sat_succ v = (if v = 2 ^ 64 - 1 then v else v + 1)"

lemma sat_succ_code [code]: "sat_succ v = (if int v = 18446744073709551615 then v else v + 1)"
  by (auto simp: sat_succ_def)

definition resource_versions :: "hgraph \<Rightarrow> nat list \<Rightarrow> resource_key \<Rightarrow> nat list" where
  "resource_versions g ns r =
     List.map_filter (\<lambda>i. case hg_node g i of
         Some n \<Rightarrow> (case hn_kind n of
             ResourceStateH c v \<Rightarrow> if c = r then Some v else None
           | _ \<Rightarrow> None)
       | None \<Rightarrow> None) ns"

definition resource_keys :: "hgraph \<Rightarrow> nat list \<Rightarrow> footprint" where
  "resource_keys g ns =
     bt_from (List.map_filter (\<lambda>i. case hg_node g i of
         Some n \<Rightarrow> (case hn_kind n of ResourceStateH c _ \<Rightarrow> Some c | _ \<Rightarrow> None)
       | None \<Rightarrow> None) ns)"

definition require_read_write :: "effect_summary \<Rightarrow> resource_key \<Rightarrow> hgraph_error + unit" where
  "require_read_write s r =
     ensure (r \<in> set (es_reads s) \<and> r \<in> set (es_writes s))
       (HErr ''operation must conservatively read and write'')"

fun is_concurrent_branch :: "resource_key \<Rightarrow> bool" where
  "is_concurrent_branch (ConcurrentProjectBranch _) = True"
| "is_concurrent_branch _ = False"

definition require_hosted_project_operation :: "effect_summary \<Rightarrow> bool \<Rightarrow> hgraph_error + unit" where
  "require_hosted_project_operation s must_spawn =
     and_then (ensure (es_unknown s \<and> \<not> es_deterministic s \<and> es_fallibility s = MayFail \<and>
                       es_spawn s = must_spawn)
                 (HErr ''hosted project operation must remain unknown'')) (\<lambda>_.
     case find is_concurrent_branch (es_reads s) of
       Some r \<Rightarrow> require_read_write s r
     | None \<Rightarrow> require_read_write s HostWorld)"

text \<open>Whether an operation overlaps freely because of an explicit autonomous group.\<close>

definition is_autonomous_ephemeral :: "hgraph \<Rightarrow> exec_info \<Rightarrow> hgraph_error + bool" where
  "is_autonomous_ephemeral g info =
     (case (hg_source_plan g, map_of (hg_ir_map g) (ei_value_output info)) of
        (Some pl, Some ir) \<Rightarrow>
          and_then (map_err PlanE (autonomous_ephemeral_group pl (ei_plan_node info) ir)) (\<lambda>m.
          Inr (m \<noteq> None))
      | _ \<Rightarrow> Inr False)"

section \<open>Node kinds\<close>

definition check_assessment :: "hnode \<Rightarrow> hgraph_error + unit" where
  "check_assessment n =
     (case hn_assessment n of
        None \<Rightarrow> Inr ()
      | Some a \<Rightarrow>
          and_then (map_err FidelityE (validate_assessment a)) (\<lambda>_.
          and_then (map_err FidelityE (try_possible_fidelity a)) (\<lambda>projected.
          ensure (hn_fidelity n = Some projected)
            (HErr ''legacy fidelity projection inconsistent with its V2 assessment''))))"

definition check_synthetic :: "hgraph \<Rightarrow> nat \<Rightarrow> hnode \<Rightarrow> hgraph_error + unit" where
  "check_synthetic g i n =
     (if is_value_node n then Inr ()
      else and_then (ensure (hn_value n = None \<and> hn_domain n = 0 \<and> hn_rep n = 0 \<and>
                             hn_actor n = None \<and> hn_assessment n = None \<and> hn_fidelity n = None)
                       (HErr ''synthetic node carries ordinary value/type metadata'')) (\<lambda>_.
           case hn_kind n of
             CompletionH p \<Rightarrow> ensure (completion_node g p = Some i)
                                (HErr ''completion node is not registered'')
           | _ \<Rightarrow> Inr ()))"

definition check_initial_state :: "hnode \<Rightarrow> hgraph_error + unit" where
  "check_initial_state n =
     (case hn_kind n of
        ResourceStateH _ v \<Rightarrow>
          if v = 0 then ensure (hn_producer n = None \<and> hn_state n = Materialized)
                          (HErr ''initial resource-state node must be materialized with no producer'')
          else Inr ()
      | _ \<Rightarrow> Inr ())"

definition check_producer :: "hgraph \<Rightarrow> nat \<Rightarrow> hnode \<Rightarrow> hgraph_error + unit" where
  "check_producer g i n =
     (case hn_producer n of
        None \<Rightarrow> Inr ()
      | Some p \<Rightarrow>
          and_then (ok_or (exec_edge g p) (HErr ''node names missing executable producer edge'')) (\<lambda>e.
          ensure (i \<in> set (ports_with OutputP e))
            (HErr ''producer edge does not expose the node as an output'')))"

definition check_consumers :: "hgraph \<Rightarrow> nat \<Rightarrow> hnode \<Rightarrow> hgraph_error + unit" where
  "check_consumers g i n =
     and_then (try_fold (\<lambda>seen c.
        if c \<in> set seen then Inl (HErr ''node repeats executable consumer edge'')
        else and_then (ok_or (exec_edge g c)
                         (HErr ''node names missing executable consumer edge'')) (\<lambda>e.
             and_then (ensure (i \<in> set (ports_with InputP e))
                         (HErr ''consumer edge does not expose the node as an input'')) (\<lambda>_.
             Inr (c # seen)))) [] (hn_consumers n)) (\<lambda>_. Inr ())"

definition validate_node_kinds :: "hgraph \<Rightarrow> hgraph_error + unit" where
  "validate_node_kinds g =
     and_then (for_each (\<lambda>(i, n).
        and_then (check_assessment n) (\<lambda>_.
        and_then (check_synthetic g i n) (\<lambda>_.
        and_then (check_initial_state n) (\<lambda>_.
        and_then (check_producer g i n) (\<lambda>_.
        check_consumers g i n))))) (hg_nodes g)) (\<lambda>_.
     and_then (for_each (\<lambda>(i, _).
        and_then (ok_or (hg_node g i) (HErr ''IR provenance references missing graph node'')) (\<lambda>n.
        ensure (is_value_node n) (HErr ''IR provenance is attached to synthetic node'')))
        (hg_ir_map g)) (\<lambda>_.
     for_each (\<lambda>r.
        and_then (ok_or (hg_node g r) (HErr ''root node does not exist'')) (\<lambda>n.
        ensure (is_value_node n) (HErr ''root node is not an ordinary Value node'')))
        (hg_root_nodes g)))"

section \<open>Operation shapes\<close>

definition validate_operation_resource_read :: "hgraph \<Rightarrow> exec_info \<Rightarrow> resource_key \<Rightarrow> hgraph_error + unit" where
  "validate_operation_resource_read g info r =
     ensure (length (resource_versions g (ei_inputs info) r) = 1 \<and>
             resource_versions g (ei_outputs info) r = [])
       (HErr ''operation requires exactly one read-state input and no output'')"

definition validate_operation_resource_write :: "hgraph \<Rightarrow> exec_info \<Rightarrow> resource_key \<Rightarrow> hgraph_error + unit" where
  "validate_operation_resource_write g info r =
     (let ins = resource_versions g (ei_inputs info) r;
          outs = resource_versions g (ei_outputs info) r
      in and_then (ensure (length ins = 1 \<and> length outs = 1)
                     (HErr ''operation requires exactly one state input/output'')) (\<lambda>_.
         ensure (outs ! 0 = sat_succ (ins ! 0)) (HErr ''state must advance by one version'')))"

definition check_host_evaluator :: "hgraph \<Rightarrow> exec_info \<Rightarrow> effect_summary \<Rightarrow> bool \<Rightarrow> hgraph_error + unit" where
  "check_host_evaluator g info s exempt =
     for_each (\<lambda>r. and_then (require_read_write s r) (\<lambda>_.
                    if exempt then Inr () else validate_operation_resource_write g info r))
       [HostWorld, EvaluatorState]"

definition check_unknown_summary :: "hedge \<Rightarrow> effect_summary \<Rightarrow> hgraph_error + unit" where
  "check_unknown_summary e s =
     (if es_unknown s \<and>
         \<not> ((case he_op e of
               ExecuteH MaterializeProjectX \<Rightarrow> True
             | ExecuteH (RunRouteX _) \<Rightarrow> True
             | _ \<Rightarrow> False) \<and>
            list_ex (\<lambda>r. is_concurrent_branch r \<and> r \<in> set (es_writes s)) (es_reads s))
      then require_read_write s HostWorld else Inr ())"

definition check_eval_backend ::
  "hgraph \<Rightarrow> exec_info \<Rightarrow> string \<Rightarrow> u32 \<Rightarrow> effect_summary \<Rightarrow> hgraph_error + unit" where
  "check_eval_backend g info lang env s =
     and_then (ensure (es_unknown s \<and> \<not> es_deterministic s \<and> es_fallibility s = MayFail)
                 (HErr ''EvalBackend operation must remain unknown, nondeterministic, and fallible''))
       (\<lambda>_.
     and_then (is_autonomous_ephemeral g info) (\<lambda>autonomous.
     and_then (check_host_evaluator g info s autonomous) (\<lambda>_.
     if is_persistent (from_encoded env) then
       (let actor = \<lparr>canonical_language = lang, environment = env\<rparr> in
        and_then (ensure (es_actor_state s = Some actor)
                    (HErr ''persistent EvalBackend operation requires actor state'')) (\<lambda>_.
        validate_operation_resource_write g info (ActorState actor)))
     else Inr ())))"

definition validate_operation_semantics ::
  "hgraph \<Rightarrow> exec_info \<Rightarrow> hedge \<Rightarrow> effect_summary \<Rightarrow> hgraph_error + unit" where
  "validate_operation_semantics g info e s =
     and_then (check_unknown_summary e s) (\<lambda>_.
     case he_op e of
       ConstraintH _ \<Rightarrow> Inl (HErr ''operation does not carry executable semantics'')
     | ExecuteH op \<Rightarrow>
         (case op of
            EvalBackendX lang env \<Rightarrow> check_eval_backend g info lang env s
          | InvokeX _ _ \<Rightarrow> check_host_evaluator g info s False
          | RequestX _ \<Rightarrow> check_host_evaluator g info s False
          | ForceRequestX _ \<Rightarrow> check_host_evaluator g info s False
          | ScheduleX _ \<Rightarrow> check_host_evaluator g info s False
          | MaterializeProjectX \<Rightarrow> require_hosted_project_operation s False
          | RunRouteX _ \<Rightarrow> require_hosted_project_operation s True
          | BuildRouteX _ \<Rightarrow> ensure (is_verified_pure_infallible s)
                              (HErr ''BuildRoute operation must be verified logical preparation'')
          | SelectRouteX policy \<Rightarrow>
              ensure (policy \<noteq> [] \<and> \<not> es_unknown s \<and> es_fallibility s = MayFail \<and>
                      es_actor_state s = None \<and> es_reads s = [] \<and> es_writes s = [] \<and> \<not> es_spawn s)
                (HErr ''SelectRoute operation has invalid logical policy effects'')
          | CompareRouteResultsX \<Rightarrow>
              ensure (\<not> es_unknown s \<and> es_deterministic s \<and> es_fallibility s = MayFail \<and>
                      es_actor_state s = None \<and> es_reads s = [] \<and> es_writes s = [] \<and> \<not> es_spawn s)
                (HErr ''CompareRouteResults operation has invalid logical comparison effects'')
          | _ \<Rightarrow> Inr ()))"

definition check_ports :: "exec_info \<Rightarrow> hedge \<Rightarrow> hgraph_error + unit" where
  "check_ports info e =
     and_then (ensure (distinct (ei_inputs info) \<and> distinct (ei_outputs info))
                 (HErr ''operation repeats an input or output node'')) (\<lambda>_.
     and_then (ensure (set (ei_inputs info) \<inter> set (ei_outputs info) = {})
                 (HErr ''operation uses node as both input and output'')) (\<lambda>_.
     ensure (ports_with InputP e = ei_inputs info \<and> ports_with OutputP e = ei_outputs info)
       (HErr ''operation ExecInfo ports disagree with executable edge'')))"

definition check_input :: "hgraph \<Rightarrow> exec_info \<Rightarrow> nat \<Rightarrow> hgraph_error + unit" where
  "check_input g info i =
     and_then (ok_or (hg_node g i) (HErr ''operation consumes missing input node'')) (\<lambda>n.
     and_then (ensure (hn_state n = Materialized \<or> hn_producer n \<noteq> None)
                 (HErr ''input node is neither initially materialized nor produced'')) (\<lambda>_.
     ensure (ei_edge info \<in> set (hn_consumers n)) (HErr ''input node lacks consumer provenance'')))"

definition is_completion_of :: "hgraph \<Rightarrow> nat \<Rightarrow> nat \<Rightarrow> bool" where
  "is_completion_of g plan_node i =
     (case hg_node g i of None \<Rightarrow> False | Some n \<Rightarrow> hn_kind n = CompletionH plan_node)"

definition check_completion :: "hgraph \<Rightarrow> nat \<Rightarrow> exec_info \<Rightarrow> hgraph_error + unit" where
  "check_completion g plan_node info =
     (let completions = filter (is_completion_of g plan_node) (ei_outputs info) in
      and_then (ensure (length completions = 1)
                  (HErr ''operation must have exactly one matching Completion output'')) (\<lambda>_.
      ensure (completion_node g plan_node = Some (completions ! 0))
        (HErr ''operation completion map does not name output node'')))"

definition check_output ::
  "hgraph \<Rightarrow> exec_info \<Rightarrow> (nat \<times> nat) list \<Rightarrow> nat \<Rightarrow> hgraph_error + (nat \<times> nat) list" where
  "check_output g info produced_by i =
     and_then (ok_or (hg_node g i) (HErr ''operation produces missing output node'')) (\<lambda>n.
     and_then (ensure (hn_producer n = Some (ei_edge info))
                 (HErr ''output node has inconsistent producer'')) (\<lambda>_.
     and_then (ensure (hn_state n = Unresolved)
                 (HErr ''output node must be unresolved before execution'')) (\<lambda>_.
     and_then (ensure (map_of produced_by i \<in> {None, Some (ei_edge info)})
                 (HErr ''node has multiple executable producers'')) (\<lambda>_.
     Inr (AList.update i (ei_edge info) produced_by)))))"

definition check_accesses :: "hgraph \<Rightarrow> exec_info \<Rightarrow> effect_summary \<Rightarrow> hgraph_error + unit" where
  "check_accesses g info s =
     (case scheduling_accesses s of (reads, writes) \<Rightarrow>
      and_then (is_autonomous_ephemeral g info) (\<lambda>autonomous.
      let required = (if autonomous then [] else bt_extend reads writes);
          written = (if autonomous then [] else writes)
      in and_then (ensure (resource_keys g (ei_inputs info) = required \<and>
                           resource_keys g (ei_outputs info) = written)
                     (HErr ''operation resource inputs/outputs differ from admitted accesses'')) (\<lambda>_.
         for_each (\<lambda>r. if r \<in> set written then validate_operation_resource_write g info r
                       else validate_operation_resource_read g info r) required)))"

definition check_operation ::
  "hgraph \<Rightarrow> (nat \<times> nat) list \<times> nat list \<Rightarrow> nat \<times> exec_info \<Rightarrow>
     hgraph_error + (nat \<times> nat) list \<times> nat list" where
  "check_operation g st op =
     (case st of (produced_by, mapped_edges) \<Rightarrow> case op of (plan_node, info) \<Rightarrow>
      and_then (ensure (ei_plan_node info = plan_node)
                  (HErr ''operation map key disagrees with ExecInfo plan node'')) (\<lambda>_.
      and_then (ok_or (exec_edge g (ei_edge info))
                  (HErr ''operation references missing executable edge'')) (\<lambda>e.
      and_then (ensure (ei_edge info \<notin> set mapped_edges)
                  (HErr ''executable edge is mapped to more than one plan operation'')) (\<lambda>_.
      and_then (ensure (is_execute e) (HErr ''operation edge is not executable'')) (\<lambda>_.
      and_then (check_ports info e) (\<lambda>_.
      and_then (for_each (check_input g info) (ei_inputs info)) (\<lambda>_.
      and_then (ensure (ei_value_output info \<in> set (ei_outputs info))
                  (HErr ''distinguished value output is absent from outputs'')) (\<lambda>_.
      and_then (ensure (filter (is_value_id g) (ei_outputs info) = [ei_value_output info])
                  (HErr ''operation must have exactly the distinguished Value output'')) (\<lambda>_.
      and_then (check_completion g plan_node info) (\<lambda>_.
      and_then (try_fold (check_output g info) produced_by (ei_outputs info)) (\<lambda>produced_by'.
      and_then (ok_or (effect_summary_of g plan_node)
                  (HErr ''operation has no semantic effect summary'')) (\<lambda>s.
      and_then (validate_operation_semantics g info e s) (\<lambda>_.
      and_then (check_accesses g info s) (\<lambda>_.
      Inr (produced_by', ei_edge info # mapped_edges)))))))))))))))"

definition validate_operation_shapes :: "hgraph \<Rightarrow> hgraph_error + unit" where
  "validate_operation_shapes g =
     and_then (try_fold (check_operation g) ([], []) (hg_op_map g)) (\<lambda>(_, mapped_edges).
     and_then (for_each (\<lambda>(i, _). ensure (i \<in> set mapped_edges)
                           (HErr ''executable edge has no plan-operation mapping''))
                 (hg_exec_edges g)) (\<lambda>_.
     and_then (for_each (\<lambda>(p, _). ensure (op_for g p \<noteq> None)
                           (HErr ''completion node is registered for non-executable plan node''))
                 (hg_completion_nodes g)) (\<lambda>_.
     for_each (\<lambda>(p, _). ensure (op_for g p \<noteq> None)
                 (HErr ''effect summary is registered for non-executable plan node''))
       (hg_effect_summaries g))))"

section \<open>Resource chains\<close>

definition info_of_edge :: "hgraph \<Rightarrow> nat \<Rightarrow> exec_info option" where
  "info_of_edge g e = map_of (map (\<lambda>(_, i). (ei_edge i, i)) (hg_op_map g)) e"

definition check_chain_node ::
  "hgraph \<Rightarrow> (resource_key \<times> nat) list \<Rightarrow> nat \<times> hnode \<Rightarrow> hgraph_error + (resource_key \<times> nat) list" where
  "check_chain_node g versions entry =
     (case hn_kind (snd entry) of
        ResourceStateH r v \<Rightarrow>
          and_then (ensure ((r, v) \<notin> set versions) (HErr ''resource version has duplicate nodes'')) (\<lambda>_.
          if v = 0 then Inr ((r, v) # versions)
          else
          and_then (ok_or (hn_producer (snd entry)) (HErr ''resource version has no producer'')) (\<lambda>p.
          and_then (ok_or (info_of_edge g p)
                      (HErr ''resource version has unregistered producer edge'')) (\<lambda>info.
          let prior = resource_versions g (ei_inputs info) r in
          and_then (ensure (length prior = 1 \<and> prior ! 0 + 1 = v)
                      (HErr ''resource output version does not consume exactly the prior version'')) (\<lambda>_.
          Inr ((r, v) # versions)))))
      | _ \<Rightarrow> Inr versions)"

definition chain_is_contiguous :: "(resource_key \<times> nat) list \<Rightarrow> resource_key \<Rightarrow> bool" where
  "chain_is_contiguous versions r =
     (let vs = map snd (filter (\<lambda>(c, _). c = r) versions) in
      list_all (\<lambda>v. v \<in> set vs) [0..<Suc (Max (set vs))])"

definition validate_resource_chains :: "hgraph \<Rightarrow> hgraph_error + unit" where
  "validate_resource_chains g =
     and_then (try_fold (check_chain_node g) [] (hg_nodes g)) (\<lambda>versions.
     for_each (\<lambda>r. ensure (chain_is_contiguous versions r)
                 (HErr ''resource state chain skips version'')) (bt_from (map fst versions)))"

section \<open>Sequence bookkeeping\<close>

definition check_sequence :: "hgraph \<Rightarrow> sequence_dependency \<Rightarrow> hgraph_error + unit" where
  "check_sequence g d =
     and_then (ok_or (op_for g (sd_predecessor d))
                 (HErr ''sequence predecessor has no executable operation'')) (\<lambda>predecessor.
     and_then (ok_or (op_for g (sd_successor d))
                 (HErr ''sequence successor has no executable operation'')) (\<lambda>successor.
     and_then (ok_or (hg_node g (sd_completion d))
                 (HErr ''sequence names missing completion node'')) (\<lambda>n.
     ensure (hn_kind n = CompletionH (sd_predecessor d) \<and>
             hn_producer n = Some (ei_edge predecessor) \<and>
             sd_completion d \<in> set (ei_outputs predecessor) \<and>
             sd_completion d \<in> set (ei_inputs successor))
       (HErr ''sequence is not implemented by predecessor completion node''))))"

definition validate_sequence_dependencies :: "hgraph \<Rightarrow> hgraph_error + unit" where
  "validate_sequence_dependencies g = for_each (check_sequence g) (hg_sequence_dependencies g)"

section \<open>Source plan\<close>

definition collect_value_node ::
  "hgraph \<Rightarrow> execution_plan \<Rightarrow> (nat \<times> nat) list \<Rightarrow> nat \<times> hnode \<Rightarrow> hgraph_error + (nat \<times> nat) list" where
  "collect_value_node g pl acc entry =
     (case entry of (i, n) \<Rightarrow>
      if \<not> is_value_node n then Inr acc
      else
      and_then (ok_or (hn_plan_node n)
                  (HErr ''ordinary Value node has no source-plan identity'')) (\<lambda>p.
      and_then (ensure (p < length (nodes pl))
                  (HErr ''ordinary Value node names out-of-bounds plan node'')) (\<lambda>_.
      and_then (ensure (map_of acc p = None)
                  (HErr ''plan node has multiple ordinary Value nodes'')) (\<lambda>_.
      and_then (ensure (map_of (hg_ir_map g) i \<noteq> None)
                  (HErr ''ordinary Value node has no OIR provenance'')) (\<lambda>_.
      Inr (AList.update p i acc))))))"

definition index_map :: "('k \<times> 'v) list \<Rightarrow> 'k \<Rightarrow> hgraph_error + 'v" where
  "index_map m k = ok_or (map_of m k) HPanic"

definition expected_value_inputs ::
  "execution_plan \<Rightarrow> (nat \<times> nat) list \<Rightarrow> nat \<Rightarrow> hgraph_error + nat list" where
  "expected_value_inputs pl value_for_plan i =
     and_then (try_map (\<lambda>e. index_map value_for_plan (edge_from e))
                 (filter (\<lambda>e. edge_to e = i \<and> (edge_kind e = Structural \<or> edge_kind e = Data))
                    (edges pl))) (\<lambda>vs. Inr (bt_from vs))"

definition actual_value_inputs :: "hgraph \<Rightarrow> exec_info \<Rightarrow> hgraph_error + nat list" where
  "actual_value_inputs g info =
     and_then (try_map (\<lambda>i. and_then (index_map (hg_nodes g) i) (\<lambda>n. Inr (i, is_value_node n)))
                 (ei_inputs info)) (\<lambda>vs. Inr (bt_from (map fst (filter snd vs))))"

definition check_literal :: "hgraph \<Rightarrow> plan_node \<Rightarrow> nat \<Rightarrow> hgraph_error + unit" where
  "check_literal g pn v =
     and_then (ensure (node_kind pn = TextK) (HErr ''plan node has no executable lowering'')) (\<lambda>_.
     and_then (index_map (hg_nodes g) v) (\<lambda>n.
     ensure (hn_state n = Materialized \<and> hn_producer n = None \<and> op_for g (node_id pn) = None)
       (HErr ''literal plan node must be an initially materialized, producer-free value'')))"

definition check_plan_node ::
  "hgraph \<Rightarrow> execution_plan \<Rightarrow> (nat \<times> nat) list \<Rightarrow> plan_node \<Rightarrow> hgraph_error + unit" where
  "check_plan_node g pl value_for_plan pn =
     and_then (index_map value_for_plan (node_id pn)) (\<lambda>v.
     case executable_op (node_kind pn) of
       None \<Rightarrow> check_literal g pn v
     | Some expected_op \<Rightarrow>
         and_then (ok_or (op_for g (node_id pn))
                     (HErr ''executable source-plan node has no operation'')) (\<lambda>info.
         and_then (ensure (ei_value_output info = v)
                     (HErr ''operation produces another Value node'')) (\<lambda>_.
         and_then (index_map (hg_exec_edges g) (ei_edge info)) (\<lambda>e.
         and_then (ensure (he_op e = ExecuteH expected_op)
                     (HErr ''operation semantics do not match source plan'')) (\<lambda>_.
         and_then (map_err EffectE (effect_summary_for_plan_node (node_id pn) (node_kind pn))) (\<lambda>derived.
         and_then (index_map (hg_effect_summaries g) (node_id pn)) (\<lambda>actual.
         and_then (ensure (actual = derived)
                     (HErr ''effect summary does not match independently derived source semantics'')) (\<lambda>_.
         and_then (expected_value_inputs pl value_for_plan (node_id pn)) (\<lambda>expected.
         and_then (actual_value_inputs g info) (\<lambda>found.
         ensure (found = expected)
           (HErr ''ordinary inputs do not exactly implement source-plan inputs'')))))))))))"

definition check_sequence_pair ::
  "hgraph \<Rightarrow> execution_plan \<Rightarrow> nat \<Rightarrow> (nat \<times> nat) list \<Rightarrow> nat \<Rightarrow> hgraph_error + (nat \<times> nat) list" where
  "check_sequence_pair g pl target acc predecessor =
     and_then (map_err PlanE (sequence_can_relax pl predecessor target (effect_summary_of g))) (\<lambda>relax.
     if relax then Inr acc
     else
     and_then (ok_or (completion_node g predecessor)
                 (HErr ''source sequence has no predecessor completion'')) (\<lambda>c.
     and_then (index_map (hg_op_map g) target) (\<lambda>info.
     and_then (ensure (c \<in> set (ei_inputs info))
                 (HErr ''source sequence is missing completion input'')) (\<lambda>_.
     Inr (bt_insert (predecessor, target) acc)))))"

definition check_target_sequences ::
  "hgraph \<Rightarrow> execution_plan \<Rightarrow> (nat \<times> nat) list \<Rightarrow> nat \<Rightarrow> hgraph_error + (nat \<times> nat) list" where
  "check_target_sequences g pl acc target =
     and_then (map_err PlanE (kind_at pl target)) (\<lambda>k.
     if executable_op k = None then Inr acc
     else
     and_then (map_err PlanE (executable_sequence_predecessors pl target)) (\<lambda>ps.
     try_fold (check_sequence_pair g pl target) acc ps))"

subsection \<open>Reader/writer frontiers\<close>

record expected_frontier =
  ef_last_write :: "nat option"
  ef_open_reads :: "nat list"
  ef_version :: nat

definition default_frontier :: expected_frontier where
  "default_frontier = \<lparr>ef_last_write = None, ef_open_reads = [], ef_version = 0\<rparr>"

type_synonym frontiers = "(resource_key \<times> expected_frontier) list"

definition frontier_of :: "frontiers \<Rightarrow> resource_key \<Rightarrow> expected_frontier" where
  "frontier_of fs r = (case map_of fs r of None \<Rightarrow> default_frontier | Some f \<Rightarrow> f)"

definition collect_initial ::
  "(resource_key \<times> nat) list \<Rightarrow> nat \<times> hnode \<Rightarrow> hgraph_error + (resource_key \<times> nat) list" where
  "collect_initial acc entry =
     (case hn_kind (snd entry) of
        ResourceStateH r v \<Rightarrow>
          if v \<noteq> 0 then Inr acc
          else and_then (ensure (map_of acc r = None)
                           (HErr ''resource has more than one initial state'')) (\<lambda>_.
               Inr (AList.update r (fst entry) acc))
      | _ \<Rightarrow> Inr acc)"

definition state_outputs :: "hgraph \<Rightarrow> exec_info \<Rightarrow> resource_key \<Rightarrow> hgraph_error + (nat \<times> nat) list" where
  "state_outputs g info r =
     and_then (try_map (\<lambda>i. and_then (index_map (hg_nodes g) i) (\<lambda>n. Inr (i, hn_kind n)))
                 (ei_outputs info)) (\<lambda>ks.
     Inr (List.map_filter (\<lambda>(i, k). case k of
            ResourceStateH c v \<Rightarrow> if c = r then Some (i, v) else None
          | _ \<Rightarrow> None) ks))"

definition frontier_access ::
  "hgraph \<Rightarrow> (resource_key \<times> nat) list \<Rightarrow> exec_info \<Rightarrow> nat \<Rightarrow> footprint \<Rightarrow> frontiers \<Rightarrow> resource_key \<Rightarrow>
     hgraph_error + frontiers" where
  "frontier_access g initial info completion writes fs r =
     (let f = frontier_of fs r in
      and_then (case ef_last_write f of
                  Some n \<Rightarrow> Inr n
                | None \<Rightarrow> ok_or (map_of initial r) (HErr ''resource has no initial state'')) (\<lambda>expected.
      and_then (ensure (expected \<in> set (ei_inputs info))
                  (HErr ''operation does not consume the current writer state node'')) (\<lambda>_.
      if r \<in> set writes then
        and_then (for_each (\<lambda>reader. ensure (reader \<in> set (ei_inputs info))
                     (HErr ''write omits open reader completion node'')) (ef_open_reads f)) (\<lambda>_.
        and_then (state_outputs g info r) (\<lambda>outs.
        and_then (ensure (length outs = 1 \<and> snd (outs ! 0) = ef_version f + 1)
                    (HErr ''write does not produce the next version'')) (\<lambda>_.
        Inr (AList.update r
               \<lparr>ef_last_write = Some (fst (outs ! 0)), ef_open_reads = [],
                ef_version = ef_version f + 1\<rparr> fs))))
      else Inr (AList.update r (f\<lparr>ef_open_reads := bt_insert completion (ef_open_reads f)\<rparr>) fs))))"

definition frontier_node ::
  "hgraph \<Rightarrow> execution_plan \<Rightarrow> (resource_key \<times> nat) list \<Rightarrow> frontiers \<Rightarrow> nat \<Rightarrow> hgraph_error + frontiers" where
  "frontier_node g pl initial fs i =
     (case op_for g i of
        None \<Rightarrow> Inr fs
      | Some info \<Rightarrow>
          and_then (map_err PlanE (kind_at pl i)) (\<lambda>k.
          and_then (map_err EffectE (effect_summary_for_plan_node i k)) (\<lambda>s.
          and_then (ok_or (map_of (hg_ir_map g) (ei_value_output info))
                      (HErr ''operation has no recorded OIR value node'')) (\<lambda>ir.
          and_then (map_err PlanE (autonomous_ephemeral_group pl i ir)) (\<lambda>m.
          if m \<noteq> None then Inr fs
          else
          (case scheduling_accesses s of (reads, writes) \<Rightarrow>
          and_then (ok_or (completion_node g i) (HErr ''operation has no completion node'')) (\<lambda>c.
          try_fold (frontier_access g initial info c writes) fs (bt_extend reads writes))))))))"

definition validate_source_resource_frontiers :: "hgraph \<Rightarrow> execution_plan \<Rightarrow> hgraph_error + unit" where
  "validate_source_resource_frontiers g pl =
     and_then (try_fold collect_initial [] (hg_nodes g)) (\<lambda>initial.
     and_then (map_err PlanE (topological_order pl)) (\<lambda>order.
     and_then (try_fold (frontier_node g pl initial) [] order) (\<lambda>_. Inr ())))"

definition validate_source_plan_dependencies :: "hgraph \<Rightarrow> hgraph_error + unit" where
  "validate_source_plan_dependencies g =
     (case hg_source_plan g of
        None \<Rightarrow> Inr ()
      | Some pl \<Rightarrow>
          and_then (map_err PlanE (validate pl (length (roots pl)))) (\<lambda>_.
          and_then (try_fold (collect_value_node g pl) [] (hg_nodes g)) (\<lambda>value_for_plan.
          and_then (ensure (length value_for_plan = length (nodes pl) \<and>
                            length (hg_ir_map g) = length (nodes pl))
                      (HErr ''source plan and projection sizes differ'')) (\<lambda>_.
          and_then (try_map (index_map value_for_plan) (roots pl)) (\<lambda>expected_roots.
          and_then (ensure (hg_root_nodes g = expected_roots)
                      (HErr ''HGraph roots do not match source-plan roots'')) (\<lambda>_.
          and_then (for_each (check_plan_node g pl value_for_plan) (nodes pl)) (\<lambda>_.
          and_then (try_fold (check_target_sequences g pl) [] (map node_id (nodes pl))) (\<lambda>expected.
          let actual = bt_from (map (\<lambda>d. (sd_predecessor d, sd_successor d))
                                 (hg_sequence_dependencies g)) in
          and_then (ensure (length actual = length (hg_sequence_dependencies g))
                      (HErr ''source sequence dependency bookkeeping contains duplicates'')) (\<lambda>_.
          and_then (ensure (actual = expected)
                      (HErr ''preserved sequence dependencies do not match source-plan requirements''))
            (\<lambda>_. validate_source_resource_frontiers g pl))))))))))"

section \<open>Acyclicity\<close>

text \<open>The operations a handle waits for: the registered producers of its inputs.\<close>

definition plan_of_edge :: "hgraph \<Rightarrow> nat \<Rightarrow> nat option" where
  "plan_of_edge g e = map_of (map (\<lambda>(_, i). (ei_edge i, ei_plan_node i)) (hg_op_map g)) e"

definition op_dependencies :: "hgraph \<Rightarrow> exec_info \<Rightarrow> hgraph_error + nat list" where
  "op_dependencies g info =
     try_fold (\<lambda>deps input.
        case Option.bind (hg_node g input) hn_producer of
          None \<Rightarrow> Inr deps
        | Some producer \<Rightarrow>
            and_then (ok_or (plan_of_edge g producer)
                        (HErr ''input has producer edge with no operation'')) (\<lambda>p.
            Inr (bt_insert p deps))) [] (ei_inputs info)"

text \<open>
  In-degrees are a map over the operations; the successor lists hold, for a predecessor, the
  operations waiting for it in ascending order.
\<close>

definition count_dependency ::
  "nat \<Rightarrow> nat \<Rightarrow> (nat \<times> nat) list \<times> (nat \<times> nat list) list \<Rightarrow>
     hgraph_error + (nat \<times> nat) list \<times> (nat \<times> nat list) list" where
  "count_dependency target predecessor st =
     (case st of (indegree, successors) \<Rightarrow>
      let succs = (case map_of successors predecessor of None \<Rightarrow> [] | Some ss \<Rightarrow> ss) in
      and_then (ok_or (map_of indegree target) HPanic) (\<lambda>d.
      Inr (AList.update target (d + 1) indegree,
           AList.update predecessor (bt_insert target succs) successors)))"

definition count_operation ::
  "hgraph \<Rightarrow> (nat \<times> nat) list \<times> (nat \<times> nat list) list \<Rightarrow> nat \<times> exec_info \<Rightarrow>
     hgraph_error + (nat \<times> nat) list \<times> (nat \<times> nat list) list" where
  "count_operation g st entry =
     and_then (op_dependencies g (snd entry)) (\<lambda>deps.
     try_fold (\<lambda>s p. count_dependency (ei_plan_node (snd entry)) p s) st deps)"

fun relax_successors ::
  "nat list \<Rightarrow> (nat \<times> nat) list \<Rightarrow> nat list \<Rightarrow> hgraph_error + (nat \<times> nat) list \<times> nat list" where
  "relax_successors [] indegree ready = Inr (indegree, ready)"
| "relax_successors (s # ss) indegree ready =
     (case map_of indegree s of
        None \<Rightarrow> Inl HPanic
      | Some 0 \<Rightarrow> Inl HPanic
      | Some (Suc d) \<Rightarrow>
          relax_successors ss (AList.update s d indegree) (if d = 0 then bt_insert s ready else ready))"

lemma sum_update:
  assumes "map_of xs k = Some old"
  shows "sum_list (map snd (AList.update k v xs)) + old = sum_list (map snd xs) + (v :: nat)"
  using assms by (induction xs) auto

lemma relax_successors_measure:
  "relax_successors ss indegree ready = Inr (indegree', ready') \<Longrightarrow>
     sum_list (map snd indegree') + length ready' \<le> sum_list (map snd indegree) + length ready"
proof (induction ss indegree ready rule: relax_successors.induct)
  case (2 s ss indegree ready)
  then obtain d where d: "map_of indegree s = Some (Suc d)"
    by (auto split: option.splits nat.splits)
  then have "sum_list (map snd indegree') + length ready'
      \<le> sum_list (map snd (AList.update s d indegree)) + length (if d = 0 then bt_insert s ready else ready)"
    using 2 by simp
  moreover have "sum_list (map snd (AList.update s d indegree)) + 1 = sum_list (map snd indegree)"
    using sum_update [OF d, of d] by simp
  ultimately show ?case using length_bt_insert [of s ready] by (auto split: if_splits)
qed simp

function ready_loop ::
  "(nat \<times> nat list) list \<Rightarrow> (nat \<times> nat) list \<Rightarrow> nat list \<Rightarrow> nat \<Rightarrow> hgraph_error + nat" where
  "ready_loop successors indegree [] scheduled = Inr scheduled"
| "ready_loop successors indegree (p # ready) scheduled =
     (case relax_successors (case map_of successors p of None \<Rightarrow> [] | Some ss \<Rightarrow> ss) indegree ready of
        Inl e \<Rightarrow> Inl e
      | Inr (indegree', ready') \<Rightarrow> ready_loop successors indegree' ready' (scheduled + 1))"
  by pat_completeness auto
termination
  by (relation "measure (\<lambda>(_, indegree, ready, _). sum_list (map snd indegree) + length ready)")
    (auto dest: relax_successors_measure)

definition validate_executable_acyclicity :: "hgraph \<Rightarrow> hgraph_error + unit" where
  "validate_executable_acyclicity g =
     and_then (try_fold (count_operation g) (map (\<lambda>(k, _). (k, 0)) (hg_op_map g), []) (hg_op_map g))
       (\<lambda>(indegree, successors).
     and_then (ready_loop successors indegree
                 (bt_from (map fst (filter (\<lambda>(_, d). d = 0) indegree))) 0) (\<lambda>scheduled.
     ensure (scheduled = length (hg_op_map g))
       (HErr ''executable dependency graph contains a cycle'')))"

section \<open>The validators\<close>

definition validate_execution_graph :: "hgraph \<Rightarrow> hgraph_error + unit" where
  "validate_execution_graph g =
     and_then (validate_node_kinds g) (\<lambda>_.
     and_then (validate_operation_shapes g) (\<lambda>_.
     and_then (validate_resource_chains g) (\<lambda>_.
     and_then (validate_sequence_dependencies g) (\<lambda>_.
     and_then (validate_source_plan_dependencies g) (\<lambda>_.
     validate_executable_acyclicity g)))))"

definition evidence_ok :: "hgraph \<Rightarrow> nat \<Rightarrow> exec_info \<Rightarrow> admission_fact \<Rightarrow> hgraph_error + unit" where
  "evidence_ok g i info f =
     and_then (ok_or (map_of (hg_admission_evidence_nodes g) (i, f))
                 (HErr ''operation lacks admission evidence'')) (\<lambda>node.
     and_then (ok_or (hg_node g node) (HErr ''admission evidence node does not exist'')) (\<lambda>n.
     ensure (hn_kind n = AdmissionEvidenceH i f \<and> hn_state n = Materialized \<and>
             hn_producer n = None \<and> hn_consumers n = [ei_edge info] \<and> node \<in> set (ei_inputs info))
       (HErr ''operation has invalid admission evidence node'')))"

definition validate_admitted_execution_graph :: "hgraph \<Rightarrow> hgraph_error + unit" where
  "validate_admitted_execution_graph g =
     and_then (validate_execution_graph g) (\<lambda>_.
     and_then (ensure (length (hg_admission_evidence_nodes g) =
                       length (hg_op_map g) * length ALL_FACTS)
                 (HErr ''admitted graph has an unexpected number of evidence nodes'')) (\<lambda>_.
     and_then (for_each (\<lambda>(i, _).
        and_then (index_map (hg_op_map g) i) (\<lambda>info. for_each (evidence_ok g i info) ALL_FACTS))
        (hg_op_map g)) (\<lambda>_.
     for_each (\<lambda>(i, n). case hn_kind n of
          AdmissionEvidenceH p f \<Rightarrow>
            ensure (map_of (hg_admission_evidence_nodes g) (p, f) = Some i)
              (HErr ''unregistered admission evidence node'')
        | _ \<Rightarrow> Inr ()) (hg_nodes g))))"

definition validate_execution_plan :: "hgraph \<Rightarrow> execution_plan \<Rightarrow> hgraph_error + unit" where
  "validate_execution_plan g pl =
     and_then (validate_execution_graph g) (\<lambda>_.
     ensure (hg_source_plan g = Some pl)
       (HErr ''execution plan does not match the HGraph source plan''))"

definition value_for_plan_node :: "hgraph \<Rightarrow> nat \<Rightarrow> nat option" where
  "value_for_plan_node g p =
     find_map (\<lambda>(i, n). if is_value_node n \<and> hn_plan_node n = Some p then Some i else None) (hg_nodes g)"

definition validate_execution_source ::
  "hgraph \<Rightarrow> oir_program \<Rightarrow> execution_plan \<Rightarrow> hgraph_error + unit" where
  "validate_execution_source g program pl =
     and_then (validate_execution_plan g pl) (\<lambda>_.
     let flat = flatten_for_plan program in
     and_then (ensure (length flat = length (nodes pl))
                 (HErr ''coordinator OIR and source plan differ in size'')) (\<lambda>_.
     for_each (\<lambda>(index, ir).
        and_then (ok_or (value_for_plan_node g index)
                    (HErr ''coordinator plan node has no HGraph value provenance'')) (\<lambda>v.
        and_then (ok_or (map_of (hg_ir_map g) v)
                    (HErr ''HGraph value node has no OIR provenance'')) (\<lambda>recorded.
        ensure (recorded = ir)
          (HErr ''coordinator OIR node does not match HGraph source provenance''))))
       (enumerate 0 flat)))"

end
