(* ===== verification/HGraph_Lower.thy ===== *)
theory HGraph_Lower
  imports HGraph_Validate
begin

text \<open>
  Lowering of a program and its execution plan to the execution hypergraph
  (\<open>hgraph/from_oir.rs\<close>): value nodes in plan order, the constraint edges of the type solver,
  effect summaries and completion tokens, and one executable edge per non-literal plan node in
  topological order, with versioned resource states threaded through \<open>StateLowering\<close>.
\<close>

section \<open>Resource state threading\<close>

record resource_frontier =
  rf_node :: nat
  rf_version :: nat
  rf_open_reads :: "nat list"

type_synonym state_lowering = "(resource_key \<times> resource_frontier) list"

definition lower_frontier ::
  "resource_key \<Rightarrow> state_lowering \<times> hgraph \<Rightarrow> resource_frontier \<times> state_lowering \<times> hgraph" where
  "lower_frontier r st =
     (case st of (fs, g) \<Rightarrow>
      case map_of fs r of
        Some f \<Rightarrow> (f, fs, g)
      | None \<Rightarrow>
          (case hg_add_node (resource_state_node r 0) g of
             (node, g') \<Rightarrow>
               let f = \<lparr>rf_node = node, rf_version = 0, rf_open_reads = []\<rparr>
               in (f, AList.update r f fs, g')))"

definition lower_read ::
  "resource_key \<Rightarrow> nat \<Rightarrow> state_lowering \<times> hgraph \<Rightarrow> nat \<times> state_lowering \<times> hgraph" where
  "lower_read r completion st =
     (case lower_frontier r st of
        (f, fs, g) \<Rightarrow>
          (rf_node f,
           AList.update r (f\<lparr>rf_open_reads := bt_insert completion (rf_open_reads f)\<rparr>) fs, g))"

definition lower_write ::
  "resource_key \<Rightarrow> nat \<Rightarrow> state_lowering \<times> hgraph \<Rightarrow> (nat \<times> nat list \<times> nat) \<times> state_lowering \<times> hgraph" where
  "lower_write r producer st =
     (case lower_frontier r st of
        (f, fs, g) \<Rightarrow>
          (case hg_add_node (resource_state_node r (rf_version f + 1)) g of
             (successor, g1) \<Rightarrow>
               ((rf_node f, rf_open_reads f, successor),
                AList.update r
                  \<lparr>rf_node = successor, rf_version = rf_version f + 1, rf_open_reads = []\<rparr> fs,
                modify_node successor (\<lambda>n. n\<lparr>hn_plan_node := Some producer\<rparr>) g1)))"

definition lower_access ::
  "nat \<Rightarrow> nat \<Rightarrow> footprint \<Rightarrow> resource_key \<Rightarrow>
     nat list \<times> nat list \<times> state_lowering \<times> hgraph \<Rightarrow> nat list \<times> nat list \<times> state_lowering \<times> hgraph" where
  "lower_access producer completion writes r acc =
     (case acc of (inputs, outputs, st) \<Rightarrow>
      if r \<in> set writes then
        (case lower_write r producer st of
           ((prior, open_reads, successor), st') \<Rightarrow>
             (inputs @ [prior] @ open_reads, outputs @ [successor], st'))
      else
        (case lower_read r completion st of (prior, st') \<Rightarrow> (inputs @ [prior], outputs, st')))"

definition add_resource_state_transitions ::
  "effect_summary \<Rightarrow> nat \<Rightarrow> nat \<Rightarrow>
     nat list \<times> nat list \<times> state_lowering \<times> hgraph \<Rightarrow> nat list \<times> nat list \<times> state_lowering \<times> hgraph" where
  "add_resource_state_transitions s producer completion acc =
     (case scheduling_accesses s of (reads, writes) \<Rightarrow>
      fold (lower_access producer completion writes) (bt_extend reads writes) acc)"

section \<open>Operations\<close>

text \<open>\<open>Vec::retain\<close> with a seen-set: the first occurrence of every element.\<close>

fun retain_first :: "'a list \<Rightarrow> 'a list \<Rightarrow> 'a list" where
  "retain_first seen [] = []"
| "retain_first seen (x # xs) =
     (if x \<in> set seen then retain_first seen xs else x # retain_first (x # seen) xs)"

definition deduplicate_nodes :: "nat list \<Rightarrow> nat list" where
  "deduplicate_nodes ns = retain_first [] ns"

definition operation_value_inputs ::
  "execution_plan \<Rightarrow> (nat \<times> nat) list \<Rightarrow> nat \<Rightarrow> hgraph_error + nat list" where
  "operation_value_inputs pl node_map parent =
     (let sources = retain_first [] (map edge_from
            (filter (\<lambda>e. (edge_kind e = Structural \<or> edge_kind e = Data) \<and> edge_to e = parent) (edges pl)))
      in try_map (index_map node_map) (sort sources))"

definition structural_inputs ::
  "execution_plan \<Rightarrow> (nat \<times> nat) list \<Rightarrow> nat \<Rightarrow> hgraph_error + nat list" where
  "structural_inputs pl node_map parent =
     try_map (index_map node_map) (sort (structural_sources pl parent))"

section \<open>Constraint edges\<close>

definition add_constraint :: "op_kind \<Rightarrow> port list \<Rightarrow> hgraph \<Rightarrow> hgraph" where
  "add_constraint k ps g = snd (hg_add_edge (constraint_edge k ps) g)"

definition add_control_relation :: "op_kind \<Rightarrow> nat list \<Rightarrow> nat \<Rightarrow> hgraph \<Rightarrow> hgraph" where
  "add_control_relation k inputs output g =
     add_constraint k (map input_port inputs @ [output_port output]) g"

fun group_op :: "group_mode \<Rightarrow> op_kind" where
  "group_op BatchG = BatchOp"
| "group_op AllG = AllOp"
| "group_op AnyG = AnyOp"
| "group_op RaceG = RaceOp"

definition backend_output_constraints :: "backend_interface \<Rightarrow> (flags \<times> flags) option" where
  "backend_output_constraints b =
     (if \<not> pure b then None
      else if is_inline_renderer (canonical b) then Some (DOM_STRING, REP_STR) else None)"

definition plan_edge_relation :: "execution_plan \<Rightarrow> plan_edge \<Rightarrow> plan_error + op_kind" where
  "plan_edge_relation pl e =
     (case edge_kind e of
        Structural \<Rightarrow> Inr StructuralBarrier
      | Sequence \<Rightarrow> Inr SequenceOp
      | Data \<Rightarrow> and_then (kind_at pl (edge_to e)) (\<lambda>k. Inr (if is_load k then DataFlow else SequenceOp)))"

definition add_plan_edge ::
  "execution_plan \<Rightarrow> (nat \<times> nat) list \<Rightarrow> hgraph \<Rightarrow> plan_edge \<Rightarrow> hgraph_error + hgraph" where
  "add_plan_edge pl node_map g e =
     and_then (map_err PlanE (plan_edge_relation pl e)) (\<lambda>k.
     and_then (index_map node_map (edge_from e)) (\<lambda>f.
     and_then (index_map node_map (edge_to e)) (\<lambda>t.
     Inr (add_constraint k [input_port f, output_port t] g))))"

definition add_cache_relation :: "plan_node_kind \<Rightarrow> nat list \<Rightarrow> nat \<Rightarrow> hgraph \<Rightarrow> hgraph" where
  "add_cache_relation k inputs output g =
     (case eval_cache_policy k of
        None \<Rightarrow> g
      | Some policy \<Rightarrow> add_control_relation (CacheMemo (cacheable policy)) inputs output g)"

fun add_node_semantics :: "plan_node_kind \<Rightarrow> nat list \<Rightarrow> nat \<Rightarrow> hgraph \<Rightarrow> hgraph" where
  "add_node_semantics (ExecK l env attr backend) inputs output g =
     (let g1 = (case backend_output_constraints backend of
                  None \<Rightarrow> g
                | Some (d, r) \<Rightarrow> add_constraint (AbiFixed d r) [output_port output] g);
          g2 = fold (\<lambda>input. add_constraint (BackendCrossing ''O'' (canonical backend))
                       [input_port input, output_port output]) inputs g1
      in case eval_cache_policy (ExecK l env attr backend) of
           None \<Rightarrow> g2
         | Some policy \<Rightarrow>
             add_control_relation (CacheMemo (cacheable policy)) inputs output
               (add_control_relation (RequestOp ''eval'') inputs output g2))"
| "add_node_semantics (RequestK n k a) inputs output g =
     add_cache_relation (RequestK n k a) inputs output
       (add_control_relation (RequestOp (request_label k)) inputs output g)"
| "add_node_semantics (GroupK mode _) inputs output g =
     add_control_relation (group_op mode) inputs output g"
| "add_node_semantics (ScheduleK _ k _) inputs output g =
     add_control_relation (ScheduleOp (schedule_label k)) inputs output g"
| "add_node_semantics _ inputs output g = g"

definition add_plan_semantics ::
  "execution_plan \<Rightarrow> (nat \<times> nat) list \<Rightarrow> hgraph \<Rightarrow> hgraph_error + hgraph" where
  "add_plan_semantics pl node_map g =
     try_fold (\<lambda>g pn.
        and_then (index_map node_map (node_id pn)) (\<lambda>output.
        and_then (structural_inputs pl node_map (node_id pn)) (\<lambda>inputs.
        Inr (add_node_semantics (node_kind pn) inputs output g)))) g (nodes pl)"

section \<open>Executable edges\<close>

definition prepare_operation ::
  "hgraph \<times> (nat \<times> effect_summary) list \<Rightarrow> plan_node \<Rightarrow>
     hgraph_error + hgraph \<times> (nat \<times> effect_summary) list" where
  "prepare_operation st pn =
     (case st of (g, summaries) \<Rightarrow>
      if executable_op (node_kind pn) = None then Inr (g, summaries)
      else
      and_then (map_err EffectE (effect_summary_for_plan_node (node_id pn) (node_kind pn))) (\<lambda>s.
      and_then (add_completion_node (node_id pn) (set_effect_summary (node_id pn) s g)) (\<lambda>(_, g').
      Inr (g', AList.update (node_id pn) s summaries))))"

definition preserved_sequences ::
  "execution_plan \<Rightarrow> (nat \<times> effect_summary) list \<Rightarrow> nat \<Rightarrow> plan_error + nat list" where
  "preserved_sequences pl summaries i =
     and_then (executable_sequence_predecessors pl i) (\<lambda>ps.
     and_then (try_map (\<lambda>p. and_then (sequence_can_relax pl p i (map_of summaries)) (\<lambda>r. Inr (p, r))) ps)
       (\<lambda>rs. Inr (map fst (filter (\<lambda>(_, r). \<not> r) rs))))"

definition record_sequences :: "nat \<Rightarrow> nat list \<Rightarrow> hgraph \<Rightarrow> hgraph_error + hgraph" where
  "record_sequences i preserved g =
     try_fold (\<lambda>g p. and_then (ok_or (completion_node g p) HPanic) (\<lambda>c.
                       record_sequence_dependency p i c g)) g preserved"

definition lower_executable ::
  "execution_plan \<Rightarrow> (nat \<times> nat) list \<Rightarrow> oir list \<Rightarrow> (nat \<times> effect_summary) list \<Rightarrow>
     executable_op \<Rightarrow> nat \<Rightarrow> nat \<Rightarrow> state_lowering \<times> hgraph \<Rightarrow> hgraph_error + state_lowering \<times> hgraph" where
  "lower_executable pl node_map oir_nodes summaries op ordinal i st =
     (case st of (fs, g) \<Rightarrow>
      and_then (ok_or (map_of summaries i) (HErr ''missing effect summary'')) (\<lambda>s.
      and_then (index_map node_map i) (\<lambda>value_output.
      and_then (ok_or (completion_node g i) (HErr ''missing completion node'')) (\<lambda>completion.
      and_then (operation_value_inputs pl node_map i) (\<lambda>values.
      and_then (map_err PlanE (preserved_sequences pl summaries i)) (\<lambda>preserved.
      and_then (try_map (\<lambda>p. ok_or (completion_node g p)
                   (HErr ''sequence predecessor has no completion node'')) preserved) (\<lambda>controls.
      and_then (ensure (i < length oir_nodes) HPanic) (\<lambda>_.
      and_then (map_err PlanE (autonomous_ephemeral_group pl i (oir_nodes ! i))) (\<lambda>m.
      let acc = (values @ controls, [value_output, completion], fs, g);
          acc' = (if m = None then add_resource_state_transitions s i completion acc else acc)
      in case acc' of (inputs, outputs, fs', g') \<Rightarrow>
      and_then (add_exec_edge i op (deduplicate_nodes inputs) (deduplicate_nodes outputs)
                  value_output ordinal g') (\<lambda>(_, g'').
      and_then (record_sequences i preserved g'') (\<lambda>h. Inr (fs', h))))))))))))"

definition lower_operation ::
  "execution_plan \<Rightarrow> (nat \<times> nat) list \<Rightarrow> oir list \<Rightarrow> (nat \<times> effect_summary) list \<Rightarrow>
     state_lowering \<times> hgraph \<Rightarrow> nat \<times> nat \<Rightarrow> hgraph_error + state_lowering \<times> hgraph" where
  "lower_operation pl node_map oir_nodes summaries st entry =
     (case entry of (ordinal, i) \<Rightarrow>
      and_then (map_err PlanE (kind_at pl i)) (\<lambda>k.
      case executable_op k of
        None \<Rightarrow> Inr st
      | Some op \<Rightarrow> lower_executable pl node_map oir_nodes summaries op ordinal i st))"

definition add_execute_edges ::
  "execution_plan \<Rightarrow> (nat \<times> nat) list \<Rightarrow> oir list \<Rightarrow> hgraph \<Rightarrow> hgraph_error + hgraph" where
  "add_execute_edges pl node_map oir_nodes g =
     and_then (try_fold prepare_operation (g, []) (nodes pl)) (\<lambda>(g1, summaries).
     and_then (map_err PlanE (topological_order pl)) (\<lambda>order.
     and_then (try_fold (lower_operation pl node_map oir_nodes summaries) ([], g1)
                 (enumerate 0 order)) (\<lambda>(_, g2). Inr g2)))"

section \<open>Programs\<close>

fun hnode_for_oir :: "oir \<Rightarrow> hnode" where
  "hnode_for_oir (Text t) =
     (let n = node_with_value (str_value t) in
      if t = [] then n else n\<lparr>hn_domain := DOM_STRING, hn_rep := REP_STR\<rparr>)"
| "hnode_for_oir _ = fresh_node"

definition add_value_node ::
  "oir list \<Rightarrow> hgraph \<times> (nat \<times> nat) list \<Rightarrow> plan_node \<Rightarrow> hgraph_error + hgraph \<times> (nat \<times> nat) list" where
  "add_value_node oir_nodes st pn =
     (case st of (g, node_map) \<Rightarrow>
      and_then (ensure (node_id pn < length oir_nodes) HPanic) (\<lambda>_.
      let ir = oir_nodes ! node_id pn in
      case hg_add_node (hnode_for_oir ir) g of
        (node, g1) \<Rightarrow>
          Inr (record_ir node ir (modify_node node (\<lambda>n. n\<lparr>hn_plan_node := Some (node_id pn)\<rparr>) g1),
               AList.update (node_id pn) node node_map)))"

definition build_program_with_plan :: "oir_program \<Rightarrow> execution_plan \<Rightarrow> hgraph_error + hgraph" where
  "build_program_with_plan program pl =
     and_then (map_err PlanE (validate pl (length (prog_nodes program)))) (\<lambda>_.
     let canonical_plan = plan program in
     and_then (ensure (nodes pl = nodes canonical_plan)
                 (HErr ''execution plan node semantics do not match the OIR program'')) (\<lambda>_.
     and_then (ensure (roots pl = roots canonical_plan)
                 (HErr ''execution plan roots do not match the OIR program'')) (\<lambda>_.
     let oir_nodes = flatten_for_plan program in
     and_then (ensure (length oir_nodes = length (nodes pl))
                 (HErr ''OIR flatten and execution plan differ in size'')) (\<lambda>_.
     and_then (try_fold (add_value_node oir_nodes) (set_source_plan pl empty_hgraph, []) (nodes pl))
       (\<lambda>(g1, node_map).
     and_then (try_fold (\<lambda>g r. and_then (index_map node_map r) (\<lambda>n. Inr (push_root n g))) g1 (roots pl))
       (\<lambda>g2.
     and_then (try_fold (add_plan_edge pl node_map) g2 (edges pl)) (\<lambda>g3.
     and_then (add_plan_semantics pl node_map g3) (\<lambda>g4.
     and_then (add_execute_edges pl node_map oir_nodes g4) (\<lambda>g5.
     and_then (validate_execution_graph g5) (\<lambda>_. Inr g5))))))))))"

definition build_program :: "oir_program \<Rightarrow> hgraph_error + hgraph" where
  "build_program program =
     (case build_program_with_plan program (plan program) of
        Inl _ \<Rightarrow> Inl HPanic
      | Inr g \<Rightarrow> Inr g)"

end
