(* ===== verification/Graph_Facts.thy ===== *)
theory Graph_Facts
  imports HGraph_Validate
begin

text \<open>
  What a successful run of the graph validator says about the graph, in the form the scheduling
  proofs use: the registered operations with their ports, producers and completion tokens, and
  the dependency relation over them.
\<close>

section \<open>Representation\<close>

text \<open>The maps of the graph are hash maps: no key occurs twice in their listing.\<close>

definition maps_ok :: "hgraph \<Rightarrow> bool" where
  "maps_ok g \<longleftrightarrow> distinct (map fst (hg_nodes g)) \<and> distinct (map fst (hg_exec_edges g)) \<and>
     distinct (map fst (hg_op_map g))"

lemma op_for_iff: "maps_ok g \<Longrightarrow> op_for g p = Some info \<longleftrightarrow> (p, info) \<in> set (hg_op_map g)"
  by (simp add: op_for_def maps_ok_def)

lemma hg_node_iff: "maps_ok g \<Longrightarrow> hg_node g i = Some n \<longleftrightarrow> (i, n) \<in> set (hg_nodes g)"
  by (simp add: hg_node_def maps_ok_def)

section \<open>Registered operations\<close>

definition producer_of :: "hgraph \<Rightarrow> nat \<Rightarrow> nat option" where
  "producer_of g i = Option.bind (hg_node g i) hn_producer"

definition operation_ok :: "hgraph \<Rightarrow> nat \<times> exec_info \<Rightarrow> bool" where
  "operation_ok g op =
     (case op of (p, info) \<Rightarrow>
      ei_plan_node info = p \<and> set (ei_inputs info) \<inter> set (ei_outputs info) = {} \<and>
      distinct (ei_outputs info) \<and> ei_value_output info \<in> set (ei_outputs info) \<and>
      is_value_id g (ei_value_output info) \<and>
      (\<exists>e. exec_edge g (ei_edge info) = Some e \<and> ports_with OutputP e = ei_outputs info) \<and>
      (\<forall>i \<in> set (ei_outputs info). producer_of g i = Some (ei_edge info)) \<and>
      (\<exists>c. completion_node g p = Some c \<and> c \<in> set (ei_outputs info)) \<and>
      (\<exists>s. effect_summary_of g p = Some s \<and> check_accesses g info s = Inr ()))"

lemma check_output_producer:
  "check_output g info m i = Inr m' \<Longrightarrow> producer_of g i = Some (ei_edge info)"
  by (auto simp: check_output_def producer_of_def result_simps)

lemma check_outputs_producer:
  assumes "try_fold (check_output g info) m outs = Inr m'"
  shows "\<forall>i \<in> set outs. producer_of g i = Some (ei_edge info)"
  by (rule try_fold_invariant [OF assms, where P = "\<lambda>pre _. \<forall>i \<in> set pre. producer_of g i = Some (ei_edge info)"])
    (auto dest: check_output_producer)

lemma check_completion_output:
  assumes "check_completion g p info = Inr ()"
  shows "\<exists>c. completion_node g p = Some c \<and> c \<in> set (ei_outputs info)"
proof -
  from assms obtain c where "filter (is_completion_of g p) (ei_outputs info) = [c]"
      "completion_node g p = Some c"
    by (auto simp: check_completion_def Let_def result_simps length_Suc_conv)
  then show ?thesis by (metis filter_is_subset list.set_intros(1) subsetD)
qed

lemma check_operation_D:
  assumes "check_operation g (m, es) op = Inr st"
  shows "operation_ok g op" and "ei_edge (snd op) \<notin> set es" and "snd st = ei_edge (snd op) # es"
proof -
  obtain p info where op: "op = (p, info)" by (cases op)
  from assms obtain e m' s where
    "ei_plan_node info = p" "exec_edge g (ei_edge info) = Some e" "check_ports info e = Inr ()"
    "ei_value_output info \<in> set (ei_outputs info)"
    and val: "filter (is_value_id g) (ei_outputs info) = [ei_value_output info]" and es: "ei_edge info \<notin> set es"
    "check_completion g p info = Inr ()"
    "try_fold (check_output g info) m (ei_outputs info) = Inr m'"
    "effect_summary_of g p = Some s" "check_accesses g info s = Inr ()"
    "st = (m', ei_edge info # es)"
    by (auto simp: check_operation_def op result_simps)
  moreover have "is_value_id g (ei_value_output info)"
    using val by (metis (full_types) filter_eq_Cons_iff)
  ultimately show "operation_ok g op" "ei_edge (snd op) \<notin> set es" "snd st = ei_edge (snd op) # es"
    using check_completion_output [of g p info] check_outputs_producer [of g info m "ei_outputs info" m']
    by (auto simp: operation_ok_def op check_ports_def result_simps)
qed

lemma operations_checked:
  assumes "try_fold (check_operation g) ([], []) ops = Inr st"
  shows "(\<forall>op \<in> set ops. operation_ok g op) \<and> distinct (map (ei_edge \<circ> snd) ops) \<and>
         set (snd st) = (ei_edge \<circ> snd) ` set ops"
proof (rule try_fold_invariant [OF assms, where P = "\<lambda>pre st. (\<forall>op \<in> set pre. operation_ok g op) \<and>
      distinct (map (ei_edge \<circ> snd) pre) \<and> set (snd st) = (ei_edge \<circ> snd) ` set pre"], goal_cases)
  case (2 pre op t t')
  obtain m es where t: "t = (m, es)" by (cases t)
  show ?case using 2 check_operation_D [OF 2(2) [unfolded t]] by (auto simp: t)
qed simp

lemma shapes_D:
  assumes "validate_operation_shapes g = Inr ()"
  shows "\<forall>op \<in> set (hg_op_map g). operation_ok g op"
    and "distinct (map (ei_edge \<circ> snd) (hg_op_map g))"
    and "fst ` set (hg_exec_edges g) \<subseteq> (ei_edge \<circ> snd) ` set (hg_op_map g)"
proof -
  from assms obtain st where "try_fold (check_operation g) ([], []) (hg_op_map g) = Inr st"
      "\<forall>x \<in> set (hg_exec_edges g). fst x \<in> set (snd st)"
    by (auto simp: validate_operation_shapes_def result_simps case_prod_beta)
  with operations_checked [OF this(1)] show "\<forall>op \<in> set (hg_op_map g). operation_ok g op"
    "distinct (map (ei_edge \<circ> snd) (hg_op_map g))"
    "fst ` set (hg_exec_edges g) \<subseteq> (ei_edge \<circ> snd) ` set (hg_op_map g)"
    by auto
qed

section \<open>Dependencies\<close>

lemma plan_of_edge_info:
  assumes "\<forall>op \<in> set (hg_op_map g). operation_ok g op" "distinct (map (ei_edge \<circ> snd) (hg_op_map g))"
  shows "plan_of_edge g e = Some p \<longleftrightarrow> (\<exists>info. (p, info) \<in> set (hg_op_map g) \<and> ei_edge info = e)"
proof -
  have "map fst (map (\<lambda>(_, i). (ei_edge i, ei_plan_node i)) (hg_op_map g)) = map (ei_edge \<circ> snd) (hg_op_map g)"
    by auto
  then have "plan_of_edge g e = Some p \<longleftrightarrow> (e, p) \<in> set (map (\<lambda>(_, i). (ei_edge i, ei_plan_node i)) (hg_op_map g))"
    unfolding plan_of_edge_def using assms(2) by (simp only: map_of_eq_Some_iff)
  also have "\<dots> \<longleftrightarrow> (\<exists>info. (p, info) \<in> set (hg_op_map g) \<and> ei_edge info = e)"
    using assms(1) by (force simp: operation_ok_def)
  finally show ?thesis .
qed

text \<open>Operation \<open>p\<close> feeds operation \<open>q\<close> when an input of \<open>q\<close> is produced by the edge of \<open>p\<close>.\<close>

definition op_deps :: "hgraph \<Rightarrow> (nat \<times> nat) set" where
  "op_deps g = {(p, q). \<exists>info i e. (q, info) \<in> set (hg_op_map g) \<and> i \<in> set (ei_inputs info) \<and>
                  producer_of g i = Some e \<and> plan_of_edge g e = Some p}"

lemma op_depsI:
  assumes "\<forall>op \<in> set (hg_op_map g). operation_ok g op" "distinct (map (ei_edge \<circ> snd) (hg_op_map g))"
    and "(p, ip) \<in> set (hg_op_map g)" "(q, iq) \<in> set (hg_op_map g)"
    and "i \<in> set (ei_outputs ip)" "i \<in> set (ei_inputs iq)"
  shows "(p, q) \<in> op_deps g"
proof -
  have "producer_of g i = Some (ei_edge ip)" using assms(1,3,5) by (auto simp: operation_ok_def)
  moreover have "plan_of_edge g (ei_edge ip) = Some p"
    using assms(3) by (auto simp: plan_of_edge_info [OF assms(1,2)])
  ultimately show ?thesis using assms(4,6) by (auto simp: op_deps_def)
qed

lemma op_deps_range:
  assumes "\<forall>op \<in> set (hg_op_map g). operation_ok g op" "distinct (map (ei_edge \<circ> snd) (hg_op_map g))"
  shows "op_deps g \<subseteq> fst ` set (hg_op_map g) \<times> fst ` set (hg_op_map g)"
  by (force simp: op_deps_def plan_of_edge_info [OF assms])

lemma finite_op_deps:
  assumes "\<forall>op \<in> set (hg_op_map g). operation_ok g op" "distinct (map (ei_edge \<circ> snd) (hg_op_map g))"
  shows "finite (op_deps g)"
  by (rule finite_subset [OF op_deps_range [OF assms]]) simp

text \<open>Producers named by nodes are registered operations.\<close>

lemma node_kinds_producer:
  assumes "validate_node_kinds g = Inr ()" "maps_ok g" "producer_of g i = Some e"
  shows "e \<in> fst ` set (hg_exec_edges g)"
proof -
  obtain n where "(i, n) \<in> set (hg_nodes g)" "hn_producer n = Some e"
    using assms(3) hg_node_iff [OF assms(2)] by (auto simp: producer_of_def bind_eq_Some_conv)
  then have "\<exists>h. exec_edge g e = Some h"
    using assms(1) by (fastforce simp: validate_node_kinds_def check_producer_def result_simps)
  then show ?thesis by (auto simp: exec_edge_def dest: map_of_SomeD intro: image_eqI [rotated])
qed

lemma producers_registered:
  assumes "validate_node_kinds g = Inr ()" "validate_operation_shapes g = Inr ()" "maps_ok g"
    and "producer_of g i = Some e"
  shows "\<exists>p. plan_of_edge g e = Some p"
proof -
  obtain p info where "(p, info) \<in> set (hg_op_map g)" "ei_edge info = e"
    using node_kinds_producer [OF assms(1,3,4)] shapes_D(3) [OF assms(2)] by auto
  then have "plan_of_edge g e = Some p" by (auto simp: plan_of_edge_info [OF shapes_D(1,2) [OF assms(2)]])
  then show ?thesis ..
qed

lemma op_deps_D:
  assumes "validate_node_kinds g = Inr ()" "validate_operation_shapes g = Inr ()" "maps_ok g"
    and "(p, q) \<in> op_deps g"
  obtains ip iq i where "(p, ip) \<in> set (hg_op_map g)" "(q, iq) \<in> set (hg_op_map g)"
    "i \<in> set (ei_outputs ip)" "i \<in> set (ei_inputs iq)"
proof -
  obtain iq i e where q: "(q, iq) \<in> set (hg_op_map g)" "i \<in> set (ei_inputs iq)"
      "producer_of g i = Some e" "plan_of_edge g e = Some p"
    using assms(4) by (auto simp: op_deps_def)
  obtain ip where ip: "(p, ip) \<in> set (hg_op_map g)" "ei_edge ip = e"
    using q(4) plan_of_edge_info [OF shapes_D(1,2) [OF assms(2)]] by blast
  obtain n where n: "(i, n) \<in> set (hg_nodes g)" "hn_producer n = Some e"
    using q(3) hg_node_iff [OF assms(3)] by (auto simp: producer_of_def bind_eq_Some_conv)
  then have "check_producer g i n = Inr ()"
    using assms(1) by (fastforce simp: validate_node_kinds_def result_simps)
  then have "\<exists>h. exec_edge g e = Some h \<and> i \<in> set (ports_with OutputP h)"
    using n(2) by (simp add: check_producer_def result_simps)
  moreover have "operation_ok g (p, ip)" using shapes_D(1) [OF assms(2)] ip(1) by blast
  ultimately have "i \<in> set (ei_outputs ip)" using ip(2) by (auto simp: operation_ok_def)
  with q ip show thesis using that by blast
qed

lemma validated_D:
  assumes "validate_execution_graph g = Inr ()"
  shows "validate_node_kinds g = Inr ()" "validate_operation_shapes g = Inr ()"
    "validate_source_plan_dependencies g = Inr ()" "validate_executable_acyclicity g = Inr ()"
  using assms by (simp_all add: validate_execution_graph_def result_simps)

section \<open>The source plan\<close>

lemma source_plan_D:
  assumes "validate_source_plan_dependencies g = Inr ()" "hg_source_plan g = Some pl"
  obtains vp where "validate pl (length (roots pl)) = Inr ()"
    "try_fold (collect_value_node g pl) [] (hg_nodes g) = Inr vp"
    "\<forall>pn \<in> set (nodes pl). check_plan_node g pl vp pn = Inr ()"
    "validate_source_resource_frontiers g pl = Inr ()"
  using assms by (auto simp: validate_source_plan_dependencies_def Let_def result_simps)

lemma collected_values:
  assumes "try_fold (collect_value_node g pl) [] ns = Inr vp" "(v, n) \<in> set ns" "is_value_node n"
  shows "\<exists>p < length (nodes pl). map_of vp p = Some v"
proof -
  let ?P = "\<lambda>pre acc. \<forall>(v, n) \<in> set pre. is_value_node n \<longrightarrow> (\<exists>p < length (nodes pl). map_of acc p = Some v)"
  have "?P ns vp"
  proof (rule try_fold_invariant [OF assms(1), where P = ?P], goal_cases)
    case (2 pre entry acc acc')
    obtain v n where entry: "entry = (v, n)" by (cases entry)
    show ?case
    proof (cases "is_value_node n")
      case False
      then show ?thesis using 2 by (auto simp: entry collect_value_node_def)
    next
      case True
      then obtain p where p: "p < length (nodes pl)" "map_of acc p = None" "acc' = AList.update p v acc"
        using 2(2) by (auto simp: entry collect_value_node_def result_simps)
      have "map_of acc' q = Some w" if "map_of acc q = Some w" for q w
        using that p(2,3) by (auto simp: update_conv')
      then have "?P pre acc'" using 2(1) by blast
      moreover have "map_of acc' p = Some v" using p(3) by (simp add: update_conv')
      ultimately show ?thesis using p(1) by (auto simp: entry)
    qed
  qed simp
  then show ?thesis using assms(2,3) by blast
qed

text \<open>Every registered operation belongs to a plan node and carries that node's derived summary.\<close>

lemma operations_in_plan:
  assumes "validate_execution_graph g = Inr ()" "hg_source_plan g = Some pl" "maps_ok g"
    and "op_for g p = Some info"
  shows "p < length (nodes pl)"
    and "effect_summary_for_plan_node p (node_kind (nodes pl ! p)) = Inr s \<longleftrightarrow> effect_summary_of g p = Some s"
proof -
  note sh = shapes_D [OF validated_D(2) [OF assms(1)]]
  obtain vp where vp: "validate pl (length (roots pl)) = Inr ()"
      "try_fold (collect_value_node g pl) [] (hg_nodes g) = Inr vp"
      "\<forall>pn \<in> set (nodes pl). check_plan_node g pl vp pn = Inr ()"
    using validated_D(3) [OF assms(1)] assms(2) by (rule source_plan_D)
  have op: "(p, info) \<in> set (hg_op_map g)" using assms(3,4) op_for_iff by blast
  then have ok: "operation_ok g (p, info)" using sh(1) by blast
  then obtain n where n: "hg_node g (ei_value_output info) = Some n" "is_value_node n"
    by (auto simp: operation_ok_def is_value_id_def split: option.splits)
  moreover have "producer_of g (ei_value_output info) = Some (ei_edge info)"
    using ok by (auto simp: operation_ok_def)
  ultimately have "hn_producer n = Some (ei_edge info)" by (simp add: producer_of_def)
  moreover have "(ei_value_output info, n) \<in> set (hg_nodes g)"
    using n(1) hg_node_iff [OF assms(3)] by blast
  ultimately have n': "(ei_value_output info, n) \<in> set (hg_nodes g)" "hn_producer n = Some (ei_edge info)"
    by simp_all
  obtain p' where p': "p' < length (nodes pl)" "map_of vp p' = Some (ei_value_output info)"
    using collected_values [OF vp(2) n'(1) n(2)] by blast
  have id: "node_id (nodes pl ! q) = q" if "q < length (nodes pl)" for q
    using vp(1) that by (simp add: validate_ok_iff)
  have check: "check_plan_node g pl vp (nodes pl ! p') = Inr ()" using vp(3) p'(1) by simp
  show lt: "p < length (nodes pl)"
  proof (cases "executable_op (node_kind (nodes pl ! p'))")
    case None
    then have "hn_producer n = None"
      using check p' n(1) id [OF p'(1)]
      by (auto simp: check_plan_node_def check_literal_def index_map_def hg_node_def result_simps)
    then show ?thesis using n'(2) by simp
  next
    case (Some x)
    then obtain info' where i': "op_for g p' = Some info'" "ei_value_output info' = ei_value_output info"
      using check p' id [OF p'(1)] by (auto simp: check_plan_node_def index_map_def result_simps)
    then have "(p', info') \<in> set (hg_op_map g)" using op_for_iff [OF assms(3)] by blast
    moreover from this have "ei_edge info' = ei_edge info"
      using sh(1) ok i'(2) by (fastforce simp: operation_ok_def)
    ultimately have "(p', info') = (p, info)"
      using inj_onD [of "ei_edge \<circ> snd" "set (hg_op_map g)" "(p', info')" "(p, info)"] sh(2) op
      by (simp add: distinct_map)
    then show ?thesis using p'(1) by simp
  qed
  have lit: "op_for g p = None" if "executable_op (node_kind (nodes pl ! p)) = None"
    using vp(3) lt that id [OF lt]
    by (auto simp: check_plan_node_def check_literal_def result_simps dest!: bspec [of _ _ "nodes pl ! p"])
  have "check_plan_node g pl vp (nodes pl ! p) = Inr ()" using vp(3) lt by simp
  then have "\<exists>s. effect_summary_for_plan_node p (node_kind (nodes pl ! p)) = Inr s \<and> effect_summary_of g p = Some s"
    using lit assms(4) id [OF lt]
    by (auto simp: check_plan_node_def index_map_def effect_summary_of_def result_simps split: option.splits)
  then show "effect_summary_for_plan_node p (node_kind (nodes pl ! p)) = Inr s \<longleftrightarrow> effect_summary_of g p = Some s"
    by auto
qed

end
