(* ===== verification/Graph_Build.thy ===== *)
theory Graph_Build
  imports HGraph_Lower Graph_Facts
begin

text \<open>
  The mutators of the execution hypergraph (\<open>hgraph/graph.rs\<close>) as the steps of a transition
  relation, and the invariant of every graph they can build: identifiers are allocated once, each
  executable operation is registered with the edge that carries its ports, and every node has at
  most one producer, which lists it among its outputs.  The lowering of \<open>hgraph/from_oir.rs\<close> is
  then shown to be a run of these steps.
\<close>

section \<open>The mutators as a transition relation\<close>

text \<open>
  Callers hold \<open>HNode\<close> values from its constructors, which never set a producer, and write only
  annotations (plan node, type and fidelity fields) through \<open>node_mut\<close>.
\<close>

inductive graph_step :: "hgraph \<Rightarrow> hgraph \<Rightarrow> bool" where
  step_add_node: "hn_producer n = None \<Longrightarrow> graph_step g (snd (hg_add_node n g))"
| step_annotate: "\<forall>n. hn_kind (f n) = hn_kind n \<and> hn_producer (f n) = hn_producer n \<and> hn_id (f n) = hn_id n \<Longrightarrow>
    graph_step g (modify_node i f g)"
| step_add_edge: "graph_step g (snd (hg_add_edge e g))"
| step_exec: "add_exec_edge p op inputs outputs v ordinal g = Inr (i, g') \<Longrightarrow> graph_step g g'"
| step_summary: "graph_step g (set_effect_summary p s g)"
| step_set_completion: "set_completion_node p i g = Inr g' \<Longrightarrow> graph_step g g'"
| step_completion: "add_completion_node p g = Inr (i, g') \<Longrightarrow> graph_step g g'"
| step_evidence: "add_admission_evidence_input p fct g = Inr (i, g') \<Longrightarrow> graph_step g g'"
| step_sequence: "record_sequence_dependency p q c g = Inr g' \<Longrightarrow> graph_step g g'"
| step_bind: "graph_step g (hg_bind name i g)"
| step_ir: "graph_step g (record_ir i ir g)"
| step_root: "graph_step g (push_root i g)"

text \<open>The source plan is recorded once, in an otherwise empty graph, or not at all.\<close>

definition built :: "execution_plan option \<Rightarrow> hgraph \<Rightarrow> bool" where
  "built src g \<longleftrightarrow>
     graph_step\<^sup>*\<^sup>* (case src of None \<Rightarrow> empty_hgraph | Some pl \<Rightarrow> set_source_plan pl empty_hgraph) g"

section \<open>The invariant\<close>

text \<open>Identifiers: keys are unique, below the allocation counters, and stored in the entries.\<close>

definition ids_ok :: "hgraph \<Rightarrow> bool" where
  "ids_ok g \<longleftrightarrow> maps_ok g \<and> distinct (map fst (hg_edges g)) \<and>
     (\<forall>(i, n) \<in> set (hg_nodes g). i < hg_next_node g \<and> hn_id n = i) \<and>
     (\<forall>(i, e) \<in> set (hg_edges g) \<union> set (hg_exec_edges g). i < hg_next_edge g \<and> he_id e = i) \<and>
     fst ` set (hg_edges g) \<inter> fst ` set (hg_exec_edges g) = {}"

text \<open>What the dataflow part of the invariant reads of a node: its kind and its producer.\<close>

definition node_view :: "hgraph \<Rightarrow> nat \<Rightarrow> (hnode_kind \<times> nat option) option" where
  "node_view g i = map_option (\<lambda>n. (hn_kind n, hn_producer n)) (hg_node g i)"

definition op_flow ::
  "(nat \<Rightarrow> (hnode_kind \<times> nat option) option) \<Rightarrow> (nat \<Rightarrow> hedge option) \<Rightarrow> nat \<Rightarrow> exec_info \<Rightarrow> bool" where
  "op_flow V E p info \<longleftrightarrow> ei_plan_node info = p \<and>
     (\<exists>e. E (ei_edge info) = Some e \<and> is_execute e \<and>
        ports_with InputP e = ei_inputs info \<and> ports_with OutputP e = ei_outputs info) \<and>
     distinct (ei_inputs info @ ei_outputs info) \<and> set (ei_inputs info) \<subseteq> dom V \<and>
     (\<forall>i \<in> set (ei_outputs info). \<exists>k. V i = Some (k, Some (ei_edge info))) \<and>
     ei_value_output info \<in> set (ei_outputs info) \<and> (\<exists>r. V (ei_value_output info) = Some (ValueH, r))"

definition flow_ok ::
  "(nat \<Rightarrow> (hnode_kind \<times> nat option) option) \<Rightarrow> (nat \<Rightarrow> hedge option) \<Rightarrow> (nat \<Rightarrow> exec_info option) \<Rightarrow>
     (nat \<Rightarrow> nat option) \<Rightarrow> bool" where
  "flow_ok V E Op C \<longleftrightarrow>
     (\<forall>p info. Op p = Some info \<longrightarrow> op_flow V E p info) \<and>
     (\<forall>i k e. V i = Some (k, Some e) \<longrightarrow>
        (\<exists>p info. Op p = Some info \<and> ei_edge info = e \<and> i \<in> set (ei_outputs info))) \<and>
     (\<forall>p q a b. Op p = Some a \<longrightarrow> Op q = Some b \<longrightarrow> ei_edge a = ei_edge b \<longrightarrow> p = q) \<and>
     (\<forall>p c. C p = Some c \<longrightarrow> (\<exists>r. V c = Some (CompletionH p, r)))"

definition graph_inv :: "hgraph \<Rightarrow> bool" where
  "graph_inv g \<longleftrightarrow> ids_ok g \<and> flow_ok (node_view g) (exec_edge g) (op_for g) (completion_node g)"

section \<open>Association lists as hash maps\<close>

lemma map_entry_simps [simp]:
  "map fst (AList.map_entry k f xs) = map fst xs"
  "map_of (AList.map_entry k f xs) = (map_of xs)(k := map_option f (map_of xs k))"
  by (induction xs) (auto simp: fun_eq_iff)

lemma set_map_entry_D:
  "(i, y) \<in> set (AList.map_entry k f xs) \<Longrightarrow> (i, y) \<in> set xs \<or> i = k \<and> (\<exists>x. (k, x) \<in> set xs \<and> y = f x)"
  by (induction xs) (auto split: if_splits)

lemma set_update_D: "(i, y) \<in> set (AList.update k v xs) \<Longrightarrow> (i, y) \<in> set xs \<or> i = k \<and> y = v"
  by (induction xs) (auto split: if_splits)

lemma keys_update: "fst ` set (AList.update k v xs) = insert k (fst ` set xs)"
  by (simp add: dom_update)

lemma distinct_update_keys: "distinct (map fst xs) \<Longrightarrow> distinct (map fst (AList.update k v xs))"
  by (rule distinct_update)

lemma fst_set_map_entry: "fst ` set (AList.map_entry k f xs) = fst ` set xs"
  using map_entry_simps(1) [of k f xs] by (metis list.set_map)

section \<open>Frames\<close>

text \<open>\<open>modify_node\<close> and folds of it touch only the node table, one entry at a time.\<close>

lemma modify_node_frame [simp]:
  "hg_edges (modify_node i f g) = hg_edges g" "hg_exec_edges (modify_node i f g) = hg_exec_edges g"
  "hg_op_map (modify_node i f g) = hg_op_map g" "hg_completion_nodes (modify_node i f g) = hg_completion_nodes g"
  "hg_next_node (modify_node i f g) = hg_next_node g" "hg_next_edge (modify_node i f g) = hg_next_edge g"
  "hg_node (modify_node i f g) = (hg_node g)(i := map_option f (hg_node g i))"
  "map fst (hg_nodes (modify_node i f g)) = map fst (hg_nodes g)" "hg_source_plan (modify_node i f g) = hg_source_plan g"
  by (simp_all add: modify_node_def hg_node_def fun_eq_iff)

text \<open>The four views of the graph and the fields they do not read.\<close>

lemma node_view_frame [simp]:
  "node_view (g\<lparr>hg_edges := x0\<rparr>) = node_view g"
  "node_view (g\<lparr>hg_next_edge := x1\<rparr>) = node_view g"
  "node_view (g\<lparr>hg_exec_edges := x2\<rparr>) = node_view g"
  "node_view (g\<lparr>hg_op_map := x3\<rparr>) = node_view g"
  "node_view (g\<lparr>hg_effect_summaries := x4\<rparr>) = node_view g"
  "node_view (g\<lparr>hg_completion_nodes := x5\<rparr>) = node_view g"
  "node_view (g\<lparr>hg_sequence_dependencies := x6\<rparr>) = node_view g"
  "node_view (g\<lparr>hg_admission_evidence_nodes := x7\<rparr>) = node_view g"
  "node_view (g\<lparr>hg_bindings := x8\<rparr>) = node_view g"
  "node_view (g\<lparr>hg_ir_map := x9\<rparr>) = node_view g"
  "node_view (g\<lparr>hg_root_nodes := x10\<rparr>) = node_view g"
  "node_view (g\<lparr>hg_source_plan := x11\<rparr>) = node_view g"
  by (simp_all add: node_view_def hg_node_def fun_eq_iff)

lemma exec_edge_frame [simp]:
  "exec_edge (g\<lparr>hg_edges := x0\<rparr>) = exec_edge g"
  "exec_edge (g\<lparr>hg_next_edge := x1\<rparr>) = exec_edge g"
  "exec_edge (g\<lparr>hg_op_map := x3\<rparr>) = exec_edge g"
  "exec_edge (g\<lparr>hg_effect_summaries := x4\<rparr>) = exec_edge g"
  "exec_edge (g\<lparr>hg_completion_nodes := x5\<rparr>) = exec_edge g"
  "exec_edge (g\<lparr>hg_sequence_dependencies := x6\<rparr>) = exec_edge g"
  "exec_edge (g\<lparr>hg_admission_evidence_nodes := x7\<rparr>) = exec_edge g"
  "exec_edge (g\<lparr>hg_bindings := x8\<rparr>) = exec_edge g"
  "exec_edge (g\<lparr>hg_ir_map := x9\<rparr>) = exec_edge g"
  "exec_edge (g\<lparr>hg_root_nodes := x10\<rparr>) = exec_edge g"
  "exec_edge (g\<lparr>hg_source_plan := x11\<rparr>) = exec_edge g"
  by (simp_all add: exec_edge_def fun_eq_iff)

lemma op_for_frame [simp]:
  "op_for (g\<lparr>hg_edges := x0\<rparr>) = op_for g"
  "op_for (g\<lparr>hg_next_edge := x1\<rparr>) = op_for g"
  "op_for (g\<lparr>hg_exec_edges := x2\<rparr>) = op_for g"
  "op_for (g\<lparr>hg_effect_summaries := x4\<rparr>) = op_for g"
  "op_for (g\<lparr>hg_completion_nodes := x5\<rparr>) = op_for g"
  "op_for (g\<lparr>hg_sequence_dependencies := x6\<rparr>) = op_for g"
  "op_for (g\<lparr>hg_admission_evidence_nodes := x7\<rparr>) = op_for g"
  "op_for (g\<lparr>hg_bindings := x8\<rparr>) = op_for g"
  "op_for (g\<lparr>hg_ir_map := x9\<rparr>) = op_for g"
  "op_for (g\<lparr>hg_root_nodes := x10\<rparr>) = op_for g"
  "op_for (g\<lparr>hg_source_plan := x11\<rparr>) = op_for g"
  by (simp_all add: op_for_def fun_eq_iff)

lemma completion_node_frame [simp]:
  "completion_node (g\<lparr>hg_edges := x0\<rparr>) = completion_node g"
  "completion_node (g\<lparr>hg_next_edge := x1\<rparr>) = completion_node g"
  "completion_node (g\<lparr>hg_exec_edges := x2\<rparr>) = completion_node g"
  "completion_node (g\<lparr>hg_op_map := x3\<rparr>) = completion_node g"
  "completion_node (g\<lparr>hg_effect_summaries := x4\<rparr>) = completion_node g"
  "completion_node (g\<lparr>hg_sequence_dependencies := x6\<rparr>) = completion_node g"
  "completion_node (g\<lparr>hg_admission_evidence_nodes := x7\<rparr>) = completion_node g"
  "completion_node (g\<lparr>hg_bindings := x8\<rparr>) = completion_node g"
  "completion_node (g\<lparr>hg_ir_map := x9\<rparr>) = completion_node g"
  "completion_node (g\<lparr>hg_root_nodes := x10\<rparr>) = completion_node g"
  "completion_node (g\<lparr>hg_source_plan := x11\<rparr>) = completion_node g"
  by (simp_all add: completion_node_def fun_eq_iff)

lemma fold_modify_frame:
  "hg_edges (fold (\<lambda>x. modify_node (h x) (f x)) xs g) = hg_edges g"
  "hg_exec_edges (fold (\<lambda>x. modify_node (h x) (f x)) xs g) = hg_exec_edges g"
  "hg_op_map (fold (\<lambda>x. modify_node (h x) (f x)) xs g) = hg_op_map g"
  "hg_completion_nodes (fold (\<lambda>x. modify_node (h x) (f x)) xs g) = hg_completion_nodes g"
  "hg_next_node (fold (\<lambda>x. modify_node (h x) (f x)) xs g) = hg_next_node g"
  "hg_next_edge (fold (\<lambda>x. modify_node (h x) (f x)) xs g) = hg_next_edge g"
  "hg_source_plan (fold (\<lambda>x. modify_node (h x) (f x)) xs g) = hg_source_plan g"
  by (induction xs arbitrary: g) simp_all

text \<open>Writing a node back with its identity keeps the identifiers in order.\<close>

lemma ids_ok_modify:
  assumes "ids_ok g" "\<And>n. hn_id (f n) = hn_id n"
  shows "ids_ok (modify_node i f g)"
proof -
  have "\<forall>(j, n) \<in> set (hg_nodes (modify_node i f g)). j < hg_next_node g \<and> hn_id n = j"
    using assms by (auto simp: ids_ok_def modify_node_def dest!: set_map_entry_D)
  with assms(1) show ?thesis by (simp add: ids_ok_def maps_ok_def)
qed

lemma ids_ok_fold_modify:
  "ids_ok g \<Longrightarrow> (\<And>x n. hn_id (f x n) = hn_id n) \<Longrightarrow> ids_ok (fold (\<lambda>x. modify_node (h x) (f x)) xs g)"
  by (induction xs arbitrary: g) (simp_all add: ids_ok_modify)

lemma node_view_modify:
  "node_view (modify_node i f g) =
     (node_view g)(i := map_option (\<lambda>n. (hn_kind (f n), hn_producer (f n))) (hg_node g i))"
  by (auto simp: node_view_def fun_eq_iff option.map_comp comp_def)

lemma node_view_modify_same:
  assumes "\<And>n. hn_kind (f n) = hn_kind n \<and> hn_producer (f n) = hn_producer n"
  shows "node_view (modify_node i f g) = node_view g"
  using assms by (auto simp: node_view_modify node_view_def fun_eq_iff)

lemma node_view_fold_same:
  assumes "\<And>x n. hn_kind (f x n) = hn_kind n \<and> hn_producer (f x n) = hn_producer n"
  shows "node_view (fold (\<lambda>x. modify_node (h x) (f x)) xs g) = node_view g"
  by (induction xs arbitrary: g) (simp_all add: node_view_modify_same assms)

lemma node_view_fold_produce:
  assumes "\<And>n. hn_kind (f n) = hn_kind n \<and> hn_producer (f n) = Some e"
  shows "node_view (fold (\<lambda>x. modify_node x f) xs g) =
     (\<lambda>i. if i \<in> set xs then map_option (\<lambda>(k, _). (k, Some e)) (node_view g i) else node_view g i)"
proof (induction xs arbitrary: g)
  case (Cons x xs)
  show ?case
    by (auto simp: Cons node_view_modify fun_eq_iff node_view_def assms option.map_comp comp_def)
qed (simp add: fun_eq_iff)

section \<open>Every step keeps the dataflow\<close>

lemma flow_okD:
  assumes "flow_ok V E Op C"
  shows "Op p = Some info \<Longrightarrow> op_flow V E p info"
    and "V i = Some (k, Some e) \<Longrightarrow> \<exists>p info. Op p = Some info \<and> ei_edge info = e \<and> i \<in> set (ei_outputs info)"
    and "Op p = Some a \<Longrightarrow> Op q = Some b \<Longrightarrow> ei_edge a = ei_edge b \<Longrightarrow> p = q"
    and "C p = Some c \<Longrightarrow> \<exists>r. V c = Some (CompletionH p, r)"
  using assms unfolding flow_ok_def by blast+

lemma op_flow_mono:
  assumes "op_flow V E p info" "E' (ei_edge info) = E (ei_edge info)"
    and "set (ei_inputs info) \<subseteq> dom V'" "\<And>i. i \<in> set (ei_outputs info) \<Longrightarrow> V' i = V i"
  shows "op_flow V' E' p info"
  using assms unfolding op_flow_def by auto

lemma flow_ok_add_node:
  assumes "flow_ok V E Op C" "V i = None"
  shows "flow_ok (V(i \<mapsto> (k, None))) E Op C"
  unfolding flow_ok_def
proof (intro conjI allI impI)
  fix p info
  assume "Op p = Some info"
  then have f: "op_flow V E p info" by (rule flow_okD(1) [OF assms(1)])
  show "op_flow (V(i \<mapsto> (k, None))) E p info"
    by (rule op_flow_mono [OF f]) (use f assms(2) in \<open>auto simp: op_flow_def\<close>)
next
  fix j k' e
  assume "(V(i \<mapsto> (k, None))) j = Some (k', Some e)"
  then have "V j = Some (k', Some e)" by (simp split: if_splits)
  then show "\<exists>p info. Op p = Some info \<and> ei_edge info = e \<and> j \<in> set (ei_outputs info)"
    by (rule flow_okD(2) [OF assms(1)])
next
  fix p q a b
  assume "Op p = Some a" "Op q = Some b" "ei_edge a = ei_edge b"
  then show "p = q" by (rule flow_okD(3) [OF assms(1)])
next
  fix p c
  assume "C p = Some c"
  then obtain r where r: "V c = Some (CompletionH p, r)" using flow_okD(4) [OF assms(1)] by blast
  then have "c \<noteq> i" using assms(2) by auto
  with r show "\<exists>r. (V(i \<mapsto> (k, None))) c = Some (CompletionH p, r)" by simp
qed

lemma flow_ok_completion:
  assumes "flow_ok V E Op C" "V c = Some (CompletionH p, r)"
  shows "flow_ok V E Op (C(p \<mapsto> c))"
  using assms unfolding flow_ok_def by auto

definition produce :: "nat \<Rightarrow> nat list \<Rightarrow> (nat \<Rightarrow> (hnode_kind \<times> nat option) option) \<Rightarrow> nat \<Rightarrow> (hnode_kind \<times> nat option) option" where
  "produce e outs V i = (if i \<in> set outs then map_option (\<lambda>(k, _). (k, Some e)) (V i) else V i)"

lemma dom_produce [simp]: "dom (produce e outs V) = dom V"
  by (auto simp: produce_def dom_def)

lemma produce_Some:
  "V j = Some (k, r) \<Longrightarrow> produce e outs V j = Some (k, if j \<in> set outs then Some e else r)"
  "produce e outs V j = Some (k, r) \<Longrightarrow> j \<notin> set outs \<Longrightarrow> V j = Some (k, r)"
  by (auto simp: produce_def)

lemma flow_ok_exec:
  assumes ok: "flow_ok V E Op C" and fresh: "Op p = None" "E i = None"
    and ports: "distinct (ins @ outs)" "set ins \<subseteq> dom V" "\<forall>j \<in> set outs. \<exists>k. V j = Some (k, None)"
    and val: "v \<in> set outs" "V v = Some (ValueH, r)"
    and e: "is_execute e" "ports_with InputP e = ins" "ports_with OutputP e = outs"
    and info: "info = \<lparr>ei_edge = i, ei_value_output = v, ei_inputs = ins, ei_outputs = outs, ei_ordinal = k, ei_plan_node = p\<rparr>"
  shows "flow_ok (produce i outs V) (E(i \<mapsto> e)) (Op(p \<mapsto> info)) C"
proof -
  have edge: "ei_edge a \<noteq> i" if "Op q = Some a" for q a
    using flow_okD(1) [OF ok that] fresh(2) by (auto simp: op_flow_def)
  have outs: "\<exists>k. produce i outs V j = Some (k, Some i)" if "j \<in> set outs" for j
    using ports(3) that produce_Some(1) [of V j _ None i outs] by fastforce
  have new: "op_flow (produce i outs V) (E(i \<mapsto> e)) p info"
    using ports(1,2) val e outs produce_Some(1) [of V v ValueH r i outs, OF val(2)]
    by (simp add: info op_flow_def)
  have old: "op_flow (produce i outs V) (E(i \<mapsto> e)) q a" if q: "Op q = Some a" for q a
  proof (rule op_flow_mono [OF flow_okD(1) [OF ok q]])
    show "(E(i \<mapsto> e)) (ei_edge a) = E (ei_edge a)" using edge [OF q] by simp
    show "set (ei_inputs a) \<subseteq> dom (produce i outs V)"
      using flow_okD(1) [OF ok q] by (simp add: op_flow_def)
    fix j assume "j \<in> set (ei_outputs a)"
    then obtain k where "V j = Some (k, Some (ei_edge a))" using flow_okD(1) [OF ok q] by (auto simp: op_flow_def)
    then have "j \<notin> set outs" using ports(3) by auto
    then show "produce i outs V j = V j" by (simp add: produce_def)
  qed
  show ?thesis
    unfolding flow_ok_def
  proof (intro conjI allI impI)
    fix q a
    assume "(Op(p \<mapsto> info)) q = Some a"
    then show "op_flow (produce i outs V) (E(i \<mapsto> e)) q a" using new old by (auto split: if_splits)
  next
    fix j k' e'
    assume j: "produce i outs V j = Some (k', Some e')"
    show "\<exists>q a. (Op(p \<mapsto> info)) q = Some a \<and> ei_edge a = e' \<and> j \<in> set (ei_outputs a)"
    proof (cases "j \<in> set outs")
      case True
      with j outs [OF True] show ?thesis by (intro exI [of _ p] exI [of _ info]) (auto simp: info)
    next
      case False
      from flow_okD(2) [OF ok produce_Some(2) [of i outs V, OF j False]]
      obtain q a where q: "Op q = Some a" "ei_edge a = e'" "j \<in> set (ei_outputs a)" by blast
      then have "q \<noteq> p" using fresh(1) by auto
      with q show ?thesis by (intro exI [of _ q] exI [of _ a]) simp
    qed
  next
    fix q r a b
    assume "(Op(p \<mapsto> info)) q = Some a" "(Op(p \<mapsto> info)) r = Some b" "ei_edge a = ei_edge b"
    then show "q = r"
      using edge flow_okD(3) [OF ok] by (fastforce simp: info split: if_splits)
  next
    fix q c
    assume "C q = Some c"
    then show "\<exists>r. produce i outs V c = Some (CompletionH q, r)"
      using flow_okD(4) [OF ok] produce_Some(1) by blast
  qed
qed

lemma flow_ok_evidence:
  assumes ok: "flow_ok V E Op C" and op: "Op p = Some info" and e: "E (ei_edge info) = Some e"
    and fresh: "V j = None"
  shows "flow_ok (V(j \<mapsto> (k, None))) (E(ei_edge info \<mapsto> e\<lparr>he_ports := he_ports e @ [input_port j]\<rparr>))
           (Op(p \<mapsto> info\<lparr>ei_inputs := ei_inputs info @ [j]\<rparr>)) C"
proof -
  let ?V = "V(j \<mapsto> (k, None))"
  have ok': "flow_ok ?V E Op C" using ok fresh by (rule flow_ok_add_node)
  have f: "op_flow V E p info" by (rule flow_okD(1) [OF ok op])
  have j: "j \<notin> set (ei_inputs info)" "j \<notin> set (ei_outputs info)" using f fresh by (auto simp: op_flow_def)
  have new: "op_flow ?V (E(ei_edge info \<mapsto> e\<lparr>he_ports := he_ports e @ [input_port j]\<rparr>)) p
      (info\<lparr>ei_inputs := ei_inputs info @ [j]\<rparr>)"
    using f j e fresh by (auto simp: op_flow_def ports_with_def is_execute_def)
  have old: "op_flow ?V (E(ei_edge info \<mapsto> e')) q a" if "Op q = Some a" "q \<noteq> p" for q a e'
  proof (rule op_flow_mono [OF flow_okD(1) [OF ok' that(1)]])
    have "ei_edge a \<noteq> ei_edge info" using flow_okD(3) [OF ok that(1) op] that(2) by blast
    then show "(E(ei_edge info \<mapsto> e')) (ei_edge a) = E (ei_edge a)" by simp
  qed (use flow_okD(1) [OF ok' that(1)] in \<open>auto simp: op_flow_def\<close>)
  show ?thesis
    unfolding flow_ok_def
  proof (intro conjI allI impI)
    fix q a
    assume "(Op(p \<mapsto> info\<lparr>ei_inputs := ei_inputs info @ [j]\<rparr>)) q = Some a"
    then show "op_flow ?V (E(ei_edge info \<mapsto> e\<lparr>he_ports := he_ports e @ [input_port j]\<rparr>)) q a"
      using new old by (cases "q = p") auto
  next
    fix i k' e'
    assume "?V i = Some (k', Some e')"
    from flow_okD(2) [OF ok' this] obtain q a where q: "Op q = Some a" "ei_edge a = e'" "i \<in> set (ei_outputs a)" by blast
    show "\<exists>q a. (Op(p \<mapsto> info\<lparr>ei_inputs := ei_inputs info @ [j]\<rparr>)) q = Some a \<and> ei_edge a = e' \<and> i \<in> set (ei_outputs a)"
      using q op by (cases "q = p") (auto intro: exI [of _ q])
  next
    fix q r a b
    assume "(Op(p \<mapsto> info\<lparr>ei_inputs := ei_inputs info @ [j]\<rparr>)) q = Some a"
      "(Op(p \<mapsto> info\<lparr>ei_inputs := ei_inputs info @ [j]\<rparr>)) r = Some b" "ei_edge a = ei_edge b"
    then show "q = r" using flow_okD(3) [OF ok] op by (auto split: if_splits)
  next
    fix q c
    assume "C q = Some c"
    then show "\<exists>r. ?V c = Some (CompletionH q, r)" by (rule flow_okD(4) [OF ok'])
  qed
qed

section \<open>Every mutator keeps the invariant\<close>

lemma ids_okD:
  assumes "ids_ok g"
  shows "maps_ok g" "hg_node g i = Some n \<Longrightarrow> i < hg_next_node g"
    "exec_edge g e = Some h \<Longrightarrow> e < hg_next_edge g"
  using assms by (auto simp: ids_ok_def hg_node_def exec_edge_def dest!: map_of_SomeD)

lemma fresh_ids:
  assumes "ids_ok g"
  shows "hg_node g (hg_next_node g) = None" "node_view g (hg_next_node g) = None"
    "exec_edge g (hg_next_edge g) = None"
  using ids_okD(2,3) [OF assms] by (auto simp: node_view_def) (metis less_irrefl option.exhaust)+

lemma ids_ok_add_node:
  assumes "ids_ok g"
  shows "ids_ok (snd (hg_add_node n g))"
proof -
  let ?i = "hg_next_node g" and ?n = "n\<lparr>hn_id := hg_next_node g\<rparr>"
  have "\<forall>(j, m) \<in> set (AList.update ?i ?n (hg_nodes g)). j < Suc ?i \<and> hn_id m = j"
    using assms by (fastforce simp: ids_ok_def dest!: set_update_D)
  with assms show ?thesis
    by (simp add: hg_add_node_def Let_def ids_ok_def maps_ok_def distinct_update)
qed

lemma add_node_frame:
  "node_view (snd (hg_add_node n g)) = (node_view g)(hg_next_node g \<mapsto> (hn_kind n, hn_producer n))"
  "exec_edge (snd (hg_add_node n g)) = exec_edge g" "op_for (snd (hg_add_node n g)) = op_for g"
  "completion_node (snd (hg_add_node n g)) = completion_node g"
  "hg_completion_nodes (snd (hg_add_node n g)) = hg_completion_nodes g"
  "fst (hg_add_node n g) = hg_next_node g"
  by (auto simp: hg_add_node_def Let_def node_view_def hg_node_def exec_edge_def op_for_def
      completion_node_def fun_eq_iff update_conv')

lemma inv_add_node:
  "graph_inv g \<Longrightarrow> hn_producer n = None \<Longrightarrow> graph_inv (snd (hg_add_node n g))"
  by (simp add: graph_inv_def add_node_frame ids_ok_add_node flow_ok_add_node fresh_ids)

lemma inv_annotate:
  assumes "graph_inv g" "\<forall>n. hn_kind (f n) = hn_kind n \<and> hn_producer (f n) = hn_producer n \<and> hn_id (f n) = hn_id n"
  shows "graph_inv (modify_node i f g)"
proof -
  have "exec_edge (modify_node i f g) = exec_edge g" "op_for (modify_node i f g) = op_for g"
    "completion_node (modify_node i f g) = completion_node g"
    by (simp_all add: fun_eq_iff exec_edge_def op_for_def completion_node_def)
  moreover have "node_view (modify_node i f g) = node_view g"
    by (rule node_view_modify_same) (use assms(2) in blast)
  moreover have "ids_ok (modify_node i f g)"
    using assms by (auto simp: graph_inv_def intro: ids_ok_modify)
  ultimately show ?thesis using assms(1) by (simp add: graph_inv_def)
qed

text \<open>A fresh edge identifier is taken, and the new edge filed under it.\<close>

lemma ids_ok_next_edge: "ids_ok g \<Longrightarrow> ids_ok (g\<lparr>hg_next_edge := hg_next_edge g + 1\<rparr>)"
  unfolding ids_ok_def maps_ok_def by (auto simp: ball_Un intro!: less_SucI)

lemma ids_ok_file_edge:
  assumes "ids_ok g" "hg_next_edge g = Suc i" "exec_edge g i = None" "i \<notin> fst ` set (hg_edges g)" "he_id e = i"
  shows "ids_ok (g\<lparr>hg_edges := AList.update i e (hg_edges g)\<rparr>)"
    and "ids_ok (g\<lparr>hg_exec_edges := AList.update i e (hg_exec_edges g)\<rparr>)"
proof -
  have ok: "\<forall>(j, h) \<in> set (hg_edges g) \<union> set (hg_exec_edges g). j < Suc i \<and> he_id h = j"
    using assms(1,2) by (simp add: ids_ok_def)
  have "\<forall>(j, h) \<in> set (AList.update i e (hg_edges g)) \<union> set (hg_exec_edges g). j < Suc i \<and> he_id h = j"
    "\<forall>(j, h) \<in> set (hg_edges g) \<union> set (AList.update i e (hg_exec_edges g)). j < Suc i \<and> he_id h = j"
    using ok assms(5) by (auto dest!: set_update_D)
  moreover have "i \<notin> fst ` set (hg_exec_edges g)" using assms(3) by (simp add: exec_edge_def map_of_eq_None_iff)
  ultimately show "ids_ok (g\<lparr>hg_edges := AList.update i e (hg_edges g)\<rparr>)"
    "ids_ok (g\<lparr>hg_exec_edges := AList.update i e (hg_exec_edges g)\<rparr>)"
    using assms(1,2,4) by (simp_all add: ids_ok_def maps_ok_def keys_update distinct_update)
qed

lemma fresh_edge_key: "ids_ok g \<Longrightarrow> hg_next_edge g \<notin> fst ` set (hg_edges g)"
  unfolding ids_ok_def by (auto simp: ball_Un)

lemma inv_add_edge:
  assumes "graph_inv g"
  shows "graph_inv (snd (hg_add_edge e g))"
proof -
  let ?i = "hg_next_edge g"
  let ?g1 = "g\<lparr>hg_next_edge := ?i + 1\<rparr>"
  let ?g2 = "fold (\<lambda>p. modify_node (port_node p) (push_incident ?i)) (he_ports e) ?g1"
  have ids: "ids_ok g" and flow: "flow_ok (node_view g) (exec_edge g) (op_for g) (completion_node g)"
    using assms by (simp_all add: graph_inv_def)
  have "ids_ok ?g2"
    by (intro ids_ok_fold_modify ids_ok_next_edge ids) (simp add: push_incident_def)
  moreover have frame: "exec_edge ?g2 = exec_edge g" "op_for ?g2 = op_for g" "completion_node ?g2 = completion_node g"
    "hg_edges ?g2 = hg_edges g" "hg_next_edge ?g2 = Suc ?i"
    by (simp_all add: fun_eq_iff exec_edge_def op_for_def completion_node_def fold_modify_frame)
  moreover have "node_view ?g2 = node_view ?g1"
    by (rule node_view_fold_same) (simp add: push_incident_def)
  then have "node_view ?g2 = node_view g" by simp
  ultimately show ?thesis
    using flow ids_ok_file_edge(1) [of ?g2 ?i "e\<lparr>he_id := ?i\<rparr>"] fresh_ids(3) [OF ids] fresh_edge_key [OF ids]
    by (simp add: hg_add_edge_def Let_def graph_inv_def)
qed

text \<open>What the checks of \<open>add_exec_edge\<close> establish.\<close>

lemma check_exec_inputs_D:
  assumes "check_exec_inputs g inputs = Inr seen"
  shows "set seen = set inputs \<and> distinct inputs \<and> (\<forall>i \<in> set inputs. hg_node g i \<noteq> None)"
  using assms unfolding check_exec_inputs_def
  by (rule try_fold_invariant [where P = "\<lambda>pre seen. set seen = set pre \<and> distinct pre \<and> (\<forall>i \<in> set pre. hg_node g i \<noteq> None)"])
    (auto split: if_splits)

lemma check_exec_outputs_D:
  assumes "check_exec_outputs g seen outputs = Inr s"
  shows "set s = set outputs \<and> distinct outputs \<and> set outputs \<inter> set seen = {} \<and>
    (\<forall>i \<in> set outputs. \<exists>n. hg_node g i = Some n \<and> hn_producer n = None)"
  using assms unfolding check_exec_outputs_def
  by (rule try_fold_invariant [where P = "\<lambda>pre s. set s = set pre \<and> distinct pre \<and> set pre \<inter> set seen = {} \<and>
      (\<forall>i \<in> set pre. \<exists>n. hg_node g i = Some n \<and> hn_producer n = None)"])
    (auto split: if_splits option.splits)

lemma check_value_output_D:
  "check_value_output g outputs v = Inr () \<Longrightarrow>
     v \<in> set outputs \<and> (\<exists>n. hg_node g v = Some n \<and> hn_kind n = ValueH)"
  by (auto simp: check_value_output_def result_simps is_value_node_def)

lemma exec_ports:
  "ports_with InputP ((execute_edge op (map input_port ins @ map output_port outs))\<lparr>he_id := i\<rparr>) = ins"
  "ports_with OutputP ((execute_edge op (map input_port ins @ map output_port outs))\<lparr>he_id := i\<rparr>) = outs"
  "is_execute ((execute_edge op ps)\<lparr>he_id := i\<rparr>)"
  by (simp_all add: ports_with_def execute_edge_def is_execute_def comp_def)

lemma inv_exec:
  assumes inv: "graph_inv g" and run: "add_exec_edge p op ins outs v ord g = Inr (i, g')"
  shows "graph_inv g'"
proof -
  let ?e = "(execute_edge op (map input_port ins @ map output_port outs))\<lparr>he_id := hg_next_edge g\<rparr>"
  let ?g1 = "g\<lparr>hg_next_edge := hg_next_edge g + 1\<rparr>"
  let ?g2 = "fold (\<lambda>n. modify_node n (push_consumer (hg_next_edge g) \<circ> push_incident (hg_next_edge g))) ins ?g1"
  let ?g3 = "fold (\<lambda>n. modify_node n (mark_output p (hg_next_edge g))) outs ?g2"
  let ?info = "\<lparr>ei_edge = hg_next_edge g, ei_value_output = v, ei_inputs = ins, ei_outputs = outs, ei_ordinal = ord, ei_plan_node = p\<rparr>"
  from run obtain a b where c: "op_for g p = None" "check_exec_inputs g ins = Inr a"
      "check_exec_outputs g a outs = Inr b" "check_value_output g outs v = Inr ()"
    and g': "g' = ?g3\<lparr>hg_exec_edges := AList.update (hg_next_edge g) ?e (hg_exec_edges ?g3),
        hg_op_map := AList.update p ?info (hg_op_map ?g3)\<rparr>"
    unfolding add_exec_edge_def by (auto simp: Let_def and_then_eq_Inr ensure_eq_Inr)
  have ids: "ids_ok g" and flow: "flow_ok (node_view g) (exec_edge g) (op_for g) (completion_node g)"
    using inv by (simp_all add: graph_inv_def)
  note I = check_exec_inputs_D [OF c(2)] and O' = check_exec_outputs_D [OF c(3)]
  have ports: "distinct (ins @ outs)" "set ins \<subseteq> dom (node_view g)" "\<forall>j \<in> set outs. \<exists>k. node_view g j = Some (k, None)"
    using I O' by (auto simp: node_view_def dom_def)
  obtain r where val: "v \<in> set outs" "node_view g v = Some (ValueH, r)"
    using check_value_output_D [OF c(4)] by (auto simp: node_view_def)
  have flow': "flow_ok (produce (hg_next_edge g) outs (node_view g)) ((exec_edge g)(hg_next_edge g \<mapsto> ?e))
      ((op_for g)(p \<mapsto> ?info)) (completion_node g)"
    by (rule flow_ok_exec [OF flow c(1) fresh_ids(3) [OF ids] ports val exec_ports(3,1,2)]) simp
  define h where "h = ?g3"
  have frame: "hg_exec_edges h = hg_exec_edges g" "hg_op_map h = hg_op_map g" "hg_edges h = hg_edges g"
    "hg_completion_nodes h = hg_completion_nodes g" "hg_next_edge h = Suc (hg_next_edge g)"
    by (simp_all add: h_def fold_modify_frame)
  have "node_view ?g2 = node_view ?g1"
    by (rule node_view_fold_same) (simp add: push_consumer_def push_incident_def)
  moreover have "node_view h = (\<lambda>i. if i \<in> set outs
      then map_option (\<lambda>(k, _). (k, Some (hg_next_edge g))) (node_view ?g2 i) else node_view ?g2 i)"
    unfolding h_def by (rule node_view_fold_produce) (simp add: mark_output_def push_incident_def Let_def)
  ultimately have view: "node_view h = produce (hg_next_edge g) outs (node_view g)"
    by (simp add: produce_def fun_eq_iff)
  have "ids_ok h" unfolding h_def
    by (intro ids_ok_fold_modify ids_ok_next_edge ids)
      (simp_all add: mark_output_def push_incident_def push_consumer_def Let_def)
  from ids_ok_file_edge(2) [OF this, of "hg_next_edge g" ?e]
  have "ids_ok (h\<lparr>hg_exec_edges := AList.update (hg_next_edge g) ?e (hg_exec_edges h)\<rparr>)"
    using fresh_ids(3) [OF ids] fresh_edge_key [OF ids] by (simp add: frame exec_edge_def)
  then have ids': "ids_ok g'"
    unfolding g' h_def [symmetric] by (simp add: ids_ok_def maps_ok_def distinct_update)
  have "exec_edge g' = (exec_edge g)(hg_next_edge g \<mapsto> ?e)" "op_for g' = (op_for g)(p \<mapsto> ?info)"
    "completion_node g' = completion_node g" "node_view g' = node_view h"
    unfolding g' h_def [symmetric]
    by (simp_all add: exec_edge_def op_for_def completion_node_def update_conv' frame fun_eq_iff)
  with ids' flow' show ?thesis by (simp add: graph_inv_def view)
qed

lemma inv_set_completion:
  assumes "graph_inv g" "set_completion_node p i g = Inr g'"
  shows "graph_inv g'"
proof -
  from assms(2) obtain n where n: "hg_node g i = Some n" "hn_kind n = CompletionH p"
      and g': "g' = g\<lparr>hg_completion_nodes := AList.update p i (hg_completion_nodes g)\<rparr>"
    by (auto simp: set_completion_node_def and_then_eq_Inr ok_or_eq_Inr ensure_eq_Inr)
  have "completion_node g' = (completion_node g)(p \<mapsto> i)"
    by (simp add: g' completion_node_def fun_eq_iff update_conv')
  moreover have "node_view g i = Some (CompletionH p, hn_producer n)" using n by (simp add: node_view_def)
  moreover have "ids_ok g' = ids_ok g" by (simp add: g' ids_ok_def maps_ok_def)
  ultimately show ?thesis using assms(1) flow_ok_completion by (simp add: graph_inv_def g')
qed

lemma inv_add_completion:
  assumes "graph_inv g" "add_completion_node p g = Inr (i, g')"
  shows "graph_inv g'"
proof -
  let ?g1 = "snd (hg_add_node (completion_hnode p) g)"
  have g': "g' = ?g1\<lparr>hg_completion_nodes := AList.update p (hg_next_node g) (hg_completion_nodes ?g1)\<rparr>"
    using assms(2) add_node_frame(6) [of "completion_hnode p" g]
    by (auto simp: add_completion_node_def split: if_splits prod.splits)
  have "hn_producer (completion_hnode p) = None" "hn_kind (completion_hnode p) = CompletionH p"
    by (simp_all add: completion_hnode_def synthetic_node_def fresh_node_def)
  then have inv: "graph_inv ?g1" and view: "node_view ?g1 (hg_next_node g) = Some (CompletionH p, None)"
    using inv_add_node [OF assms(1)] by (simp_all add: add_node_frame)
  have "completion_node g' = (completion_node ?g1)(p \<mapsto> hg_next_node g)"
    by (simp add: g' completion_node_def fun_eq_iff update_conv')
  moreover have "ids_ok g' = ids_ok ?g1" by (simp add: g' ids_ok_def maps_ok_def)
  ultimately show ?thesis using inv flow_ok_completion view by (simp add: graph_inv_def g')
qed

lemma ids_ok_map_entry:
  assumes "ids_ok g" "\<And>h. he_id (f h) = he_id h"
  shows "ids_ok (g\<lparr>hg_exec_edges := AList.map_entry i f (hg_exec_edges g)\<rparr>)"
proof -
  have "\<forall>(j, h) \<in> set (hg_edges g) \<union> set (AList.map_entry i f (hg_exec_edges g)). j < hg_next_edge g \<and> he_id h = j"
    using assms by (auto simp: ids_ok_def ball_Un dest!: set_map_entry_D)
  with assms(1) show ?thesis by (simp add: ids_ok_def maps_ok_def fst_set_map_entry)
qed

lemma inv_evidence:
  assumes inv: "graph_inv g" and run: "add_admission_evidence_input p fct g = Inr (i, g')"
  shows "graph_inv g'"
proof -
  let ?n = "admission_evidence_node p fct" and ?j = "hg_next_node g"
  obtain info where op: "op_for g p = Some info"
    using run by (auto simp: add_admission_evidence_input_def and_then_eq_Inr ok_or_eq_Inr)
  define g1 where "g1 = snd (hg_add_node ?n g)"
  define g2 where "g2 = modify_node ?j (push_incident (ei_edge info) \<circ> push_consumer (ei_edge info)) g1"
  have "hg_add_node ?n g = (?j, g1)" by (simp add: g1_def hg_add_node_def Let_def)
  with run op have g': "g' = g2\<lparr>hg_exec_edges := AList.map_entry (ei_edge info)
        (\<lambda>h. h\<lparr>he_ports := he_ports h @ [input_port ?j]\<rparr>) (hg_exec_edges g2),
      hg_op_map := AList.map_entry p (\<lambda>x. x\<lparr>ei_inputs := ei_inputs x @ [?j]\<rparr>) (hg_op_map g2),
      hg_admission_evidence_nodes := AList.update (p, fct) ?j (hg_admission_evidence_nodes g2)\<rparr>"
    by (auto simp: add_admission_evidence_input_def Let_def and_then_eq_Inr ensure_eq_Inr g2_def [symmetric]
        simp del: modify_node_frame)
  have ids: "ids_ok g" and flow: "flow_ok (node_view g) (exec_edge g) (op_for g) (completion_node g)"
    using inv by (simp_all add: graph_inv_def)
  have "op_flow (node_view g) (exec_edge g) p info" by (rule flow_okD(1) [OF flow op])
  then obtain e where e: "exec_edge g (ei_edge info) = Some e" by (auto simp: op_flow_def)
  have "node_view g2 = node_view g1"
    unfolding g2_def by (rule node_view_modify_same) (simp add: push_incident_def push_consumer_def)
  also have "\<dots> = (node_view g)(?j \<mapsto> (AdmissionEvidenceH p fct, None))"
    by (simp add: g1_def add_node_frame admission_evidence_node_def synthetic_node_def fresh_node_def)
  finally have view: "node_view g' = (node_view g)(?j \<mapsto> (AdmissionEvidenceH p fct, None))" by (simp add: g')
  have frame: "hg_exec_edges g2 = hg_exec_edges g" "hg_op_map g2 = hg_op_map g" "hg_completion_nodes g2 = hg_completion_nodes g"
    by (simp_all add: g1_def g2_def hg_add_node_def Let_def)
  have "ids_ok g2" unfolding g2_def g1_def
    by (intro ids_ok_modify ids_ok_add_node ids) (simp add: push_incident_def push_consumer_def)
  from ids_ok_map_entry [OF this, of "\<lambda>h. h\<lparr>he_ports := he_ports h @ [input_port ?j]\<rparr>" "ei_edge info"]
  have ids': "ids_ok g'" unfolding g' by (simp add: ids_ok_def maps_ok_def)
  have "exec_edge g' = (exec_edge g)(ei_edge info \<mapsto> e\<lparr>he_ports := he_ports e @ [input_port ?j]\<rparr>)"
    "op_for g' = (op_for g)(p \<mapsto> info\<lparr>ei_inputs := ei_inputs info @ [?j]\<rparr>)" "completion_node g' = completion_node g"
    using e op unfolding g' by (auto simp: fun_eq_iff exec_edge_def op_for_def completion_node_def frame)
  with ids' flow_ok_evidence [OF flow op e fresh_ids(2) [OF ids]] show ?thesis
    by (simp add: graph_inv_def view)
qed

lemma inv_other:
  "graph_inv g \<Longrightarrow> graph_inv (set_effect_summary p s g)" "graph_inv g \<Longrightarrow> graph_inv (hg_bind name i g)"
  "graph_inv g \<Longrightarrow> graph_inv (record_ir i ir g)" "graph_inv g \<Longrightarrow> graph_inv (push_root i g)"
  "graph_inv g \<Longrightarrow> graph_inv (set_source_plan pl g)"
  "graph_inv g \<Longrightarrow> graph_inv (g\<lparr>hg_sequence_dependencies := ds\<rparr>)"
  by (simp_all add: graph_inv_def ids_ok_def maps_ok_def set_effect_summary_def hg_bind_def record_ir_def
      push_root_def set_source_plan_def)

lemma inv_sequence:
  "graph_inv g \<Longrightarrow> record_sequence_dependency p q c g = Inr g' \<Longrightarrow> graph_inv g'"
  by (auto simp: record_sequence_dependency_def Let_def and_then_eq_Inr intro: inv_other(6))

lemma inv_step:
  assumes "graph_step g g'" "graph_inv g"
  shows "graph_inv g'"
  using assms
  by (induction rule: graph_step.induct)
    (auto intro: inv_add_node inv_annotate inv_add_edge inv_exec inv_set_completion inv_add_completion
      inv_evidence inv_sequence inv_other)

lemma inv_empty: "graph_inv empty_hgraph"
  by (simp add: graph_inv_def empty_hgraph_def ids_ok_def maps_ok_def flow_ok_def node_view_def hg_node_def
      exec_edge_def op_for_def completion_node_def)

lemma built_inv: "built src g \<Longrightarrow> graph_inv g"
  unfolding built_def
  by (induction rule: rtranclp_induct) (auto split: option.splits intro: inv_empty inv_step inv_other)

lemma step_source_plan: "graph_step g g' \<Longrightarrow> hg_source_plan g' = hg_source_plan g"
  by (induction rule: graph_step.induct)
    (auto simp: hg_add_node_def set_effect_summary_def set_completion_node_def hg_add_edge_def add_exec_edge_def
      add_completion_node_def add_admission_evidence_input_def record_sequence_dependency_def hg_bind_def
      record_ir_def push_root_def Let_def and_then_eq_Inr fold_modify_frame split: if_splits)

lemma built_source_plan: "built src g \<Longrightarrow> hg_source_plan g = src"
  unfolding built_def
  by (induction rule: rtranclp_induct)
    (auto simp: step_source_plan empty_hgraph_def set_source_plan_def split: option.splits)

section \<open>The lowering is a run of these steps\<close>

lemma built_step: "built src g \<Longrightarrow> graph_step g g' \<Longrightarrow> built src g'"
  unfolding built_def by (rule rtranclp.rtrancl_into_rtrancl)

lemma built_add_node: "hg_add_node n g = (i, g') \<Longrightarrow> built src g \<Longrightarrow> hn_producer n = None \<Longrightarrow> built src g'"
  using built_step [OF _ step_add_node [of n g]] by simp

lemma fresh_producers [simp]:
  "hn_producer (resource_state_node r v) = None" "hn_producer (completion_hnode p) = None"
  "hn_producer (hnode_for_oir ir) = None"
  by (simp_all add: resource_state_node_def completion_hnode_def synthetic_node_def fresh_node_def)
    (cases ir; simp add: Let_def node_with_value_def fresh_node_def)

lemma built_annotate: "built src g \<Longrightarrow> built src (modify_node i (\<lambda>n. n\<lparr>hn_plan_node := p\<rparr>) g)"
  by (erule built_step) (rule step_annotate, simp)

lemmas built_exec = built_step [OF _ step_exec]
lemmas built_summary = built_step [OF _ step_summary]
lemmas built_completion = built_step [OF _ step_completion]
lemmas built_sequence = built_step [OF _ step_sequence]
lemmas built_ir = built_step [OF _ step_ir]
lemmas built_root = built_step [OF _ step_root]
lemmas built_add_edge = built_step [OF _ step_add_edge]

lemma try_fold_built:
  assumes "try_fold f s xs = Inr s'" "B s" "\<And>t x t'. B t \<Longrightarrow> f t x = Inr t' \<Longrightarrow> B t'"
  shows "B s'"
  using try_fold_invariant [where P = "\<lambda>_ t. B t", OF assms(1,2)] assms(3) by blast

lemma fold_built: "B s \<Longrightarrow> (\<And>x t. B t \<Longrightarrow> B (f x t)) \<Longrightarrow> B (fold f xs s)"
  by (induction xs arbitrary: s) auto

lemma built_frontier:
  "built src (snd st) \<Longrightarrow> built src (snd (snd (lower_frontier r st)))"
  by (auto simp: lower_frontier_def Let_def split: prod.splits option.splits intro: built_add_node)

lemma built_read: "built src (snd st) \<Longrightarrow> built src (snd (snd (lower_read r c st)))"
  using built_frontier [of src st r] by (auto simp: lower_read_def split: prod.splits)

lemma built_write: "built src (snd st) \<Longrightarrow> built src (snd (snd (lower_write r p st)))"
  using built_frontier [of src st r]
  by (auto simp: lower_write_def split: prod.splits intro!: built_annotate intro: built_add_node)

lemma built_access:
  "built src (snd (snd (snd acc))) \<Longrightarrow> built src (snd (snd (snd (lower_access p c ws r acc))))"
  using built_read [of src "snd (snd acc)" r c] built_write [of src "snd (snd acc)" r p]
  by (auto simp: lower_access_def split: prod.splits)

lemma built_transitions:
  "built src (snd (snd (snd acc))) \<Longrightarrow> built src (snd (snd (snd (add_resource_state_transitions s p c acc))))"
  unfolding add_resource_state_transitions_def
  by (auto split: prod.splits intro!: fold_built [where B = "\<lambda>a. built src (snd (snd (snd a)))"] built_access)

lemma built_constraint: "built src g \<Longrightarrow> built src (add_constraint k ps g)"
  unfolding add_constraint_def by (rule built_add_edge)

lemma built_control: "built src g \<Longrightarrow> built src (add_control_relation k ins out g)"
  unfolding add_control_relation_def by (rule built_constraint)

lemma built_cache: "built src g \<Longrightarrow> built src (add_cache_relation k ins out g)"
  by (cases "eval_cache_policy k") (simp_all add: add_cache_relation_def built_control)

lemma built_crossings:
  "built src g \<Longrightarrow> built src (fold (\<lambda>i. add_constraint k [input_port i, output_port out]) ins g)"
  by (rule fold_built [where B = "built src"]) (auto intro: built_constraint)

lemma built_semantics: "built src g \<Longrightarrow> built src (add_node_semantics k ins out g)"
proof (induction k ins out g rule: add_node_semantics.induct)
  case (1 l env attr backend ins out g)
  let ?g1 = "case backend_output_constraints backend of None \<Rightarrow> g
      | Some (d, r) \<Rightarrow> add_constraint (AbiFixed d r) [output_port out] g"
  have "built src ?g1" using 1 by (auto split: option.splits intro: built_constraint)
  then have "built src (fold (\<lambda>i. add_constraint (BackendCrossing ''O'' (canonical backend)) [input_port i, output_port out]) ins ?g1)"
    by (rule built_crossings)
  then show ?case by (cases "eval_cache_policy (ExecK l env attr backend)") (simp_all add: Let_def built_control)
qed (simp_all add: built_control built_cache)

lemma built_record_sequences: "record_sequences i ps g = Inr g' \<Longrightarrow> built src g \<Longrightarrow> built src g'"
  unfolding record_sequences_def
  by (erule try_fold_built) (auto simp: and_then_eq_Inr ok_or_eq_Inr intro: built_sequence)

lemma built_prepare:
  "prepare_operation (g, ss) pn = Inr (g', ss') \<Longrightarrow> built src g \<Longrightarrow> built src g'"
  by (auto simp: prepare_operation_def and_then_eq_Inr split: if_splits intro: built_completion built_summary)

lemma built_executable:
  assumes "lower_executable pl nm oirs ss op ord i (fs, g) = Inr (fs', g')" "built src g"
  shows "built src g'"
proof -
  let ?acc = "\<lambda>m s c vals ctl v. if m = None then add_resource_state_transitions s i c (vals @ ctl, [v, c], fs, g)
      else (vals @ ctl, [v, c], fs, g)"
  from assms(1) obtain m s c vals ctl v ps where
    run: "(case ?acc (m :: nat option) s c vals ctl v of (ins, outs, fs1, g1) \<Rightarrow>
      and_then (add_exec_edge i op (deduplicate_nodes ins) (deduplicate_nodes outs) v ord g1) (\<lambda>(_, g2).
      and_then (record_sequences i ps g2) (\<lambda>h. Inr (fs1, h)))) = Inr (fs', g')"
    unfolding lower_executable_def by (auto simp: Let_def and_then_eq_Inr simp del: split_paired_Ex)
  obtain ins outs fs1 g1 where acc: "?acc m s c vals ctl v = (ins, outs, fs1, g1)" by (metis prod_cases4)
  with run obtain e g2 where
    run: "add_exec_edge i op (deduplicate_nodes ins) (deduplicate_nodes outs) v ord g1 = Inr (e, g2)"
      "record_sequences i ps g2 = Inr g'"
    by (auto simp: and_then_eq_Inr)
  have "built src g1"
    using acc assms(2) built_transitions [of src "(vals @ ctl, [v, c], fs, g)" s i c] by (auto split: if_splits)
  then have "built src g2" using run(1) by (rule built_exec)
  then show ?thesis by (rule built_record_sequences [OF run(2)])
qed

lemma built_operation:
  assumes "lower_operation pl nm oirs ss st e = Inr st'" "built src (snd st)"
  shows "built src (snd st')"
proof -
  obtain fs g fs' g' where st: "st = (fs, g)" "st' = (fs', g')" by (metis surj_pair)
  from assms show ?thesis
    by (auto simp: st lower_operation_def and_then_eq_Inr split: prod.splits option.splits intro: built_executable)
qed

lemma built_execute_edges:
  assumes "add_execute_edges pl nm oirs g = Inr g'" "built src g"
  shows "built src g'"
proof -
  from assms(1) obtain g1 ss order fs where
      prep: "try_fold prepare_operation (g, []) (nodes pl) = Inr (g1, ss)"
    and ops: "try_fold (lower_operation pl nm oirs ss) ([], g1) (enumerate 0 order) = Inr (fs, g')"
    by (auto simp: add_execute_edges_def and_then_eq_Inr split: prod.splits)
  have "built src (fst (g1, ss))"
    by (rule try_fold_built [where B = "\<lambda>s. built src (fst s)", OF prep]) (use assms(2) built_prepare in fastforce)+
  then have "built src (snd (fs, g'))"
    by (intro try_fold_built [where B = "\<lambda>s. built src (snd s)", OF ops]) (auto intro: built_operation)
  then show ?thesis by simp
qed

lemma built_value_node:
  assumes "add_value_node oirs (g, nm) pn = Inr (g', nm')" "built src g"
  shows "built src g'"
  using assms
  by (auto simp: add_value_node_def Let_def and_then_eq_Inr split: prod.splits
      intro!: built_ir built_annotate intro: built_add_node)

lemma lowering_steps:
  assumes "build_program_with_plan program pl = Inr g"
  shows "built (Some pl) g \<and> validate_execution_graph g = Inr () \<and> nodes pl = nodes (plan program)"
proof -
  let ?oirs = "flatten_for_plan program"
  from assms obtain g1 nm g2 g3 g4 where
      v: "try_fold (add_value_node ?oirs) (set_source_plan pl empty_hgraph, []) (nodes pl) = Inr (g1, nm)"
    and r: "try_fold (\<lambda>g r. and_then (index_map nm r) (\<lambda>n. Inr (push_root n g))) g1 (roots pl) = Inr g2"
    and e: "try_fold (add_plan_edge pl nm) g2 (edges pl) = Inr g3"
    and s: "add_plan_semantics pl nm g3 = Inr g4"
    and x: "add_execute_edges pl nm ?oirs g4 = Inr g"
    and ok: "validate_execution_graph g = Inr ()" "nodes pl = nodes (plan program)"
    unfolding build_program_with_plan_def by (auto simp: Let_def and_then_eq_Inr ensure_eq_Inr split: prod.splits)
  have "built (Some pl) (set_source_plan pl empty_hgraph)" by (simp add: built_def)
  then have "built (Some pl) (fst (g1, nm))"
    by (intro try_fold_built [where B = "\<lambda>s. built (Some pl) (fst s)", OF v]) (use built_value_node in fastforce)+
  then have "built (Some pl) g2"
    by (intro try_fold_built [where B = "built (Some pl)", OF r]) (auto simp: and_then_eq_Inr intro: built_root)
  then have "built (Some pl) g3"
    by (intro try_fold_built [where B = "built (Some pl)", OF e])
      (auto simp: add_plan_edge_def and_then_eq_Inr intro: built_constraint)
  then have "built (Some pl) g4"
    by (intro try_fold_built [where B = "built (Some pl)", OF s [unfolded add_plan_semantics_def]])
      (auto simp: and_then_eq_Inr intro: built_semantics)
  with x ok show ?thesis by (blast intro: built_execute_edges)
qed

end
