(* ===== verification/Kahn.thy ===== *)
theory Kahn
  imports O_Prelude
begin

text \<open>
  The set-level theory of Kahn's algorithm, shared by the schedulers that keep their in-degrees in
  different containers: over a finite set of keys \<open>K\<close> and dependencies \<open>E\<close>, \<open>waiting E D v\<close> counts
  the dependencies of \<open>v\<close> outside the emitted set \<open>D\<close>, \<open>startable K E D\<close> is what may be emitted
  next, and \<open>emission K E xs\<close> says that \<open>xs\<close> is a legal emission order.
\<close>

definition waiting :: "('a \<times> 'a) set \<Rightarrow> 'a set \<Rightarrow> 'a \<Rightarrow> nat" where
  "waiting E D v = card {u. (u, v) \<in> E \<and> u \<notin> D}"

definition startable :: "'a set \<Rightarrow> ('a \<times> 'a) set \<Rightarrow> 'a set \<Rightarrow> 'a set" where
  "startable K E D = {v \<in> K. v \<notin> D \<and> (\<forall>u. (u, v) \<in> E \<longrightarrow> u \<in> D)}"

inductive emission :: "'a set \<Rightarrow> ('a \<times> 'a) set \<Rightarrow> 'a list \<Rightarrow> bool" for K E where
  emission_Nil: "emission K E []"
| emission_snoc: "emission K E xs \<Longrightarrow> v \<in> startable K E (set xs) \<Longrightarrow> emission K E (xs @ [v])"

lemma finite_preds: "finite E \<Longrightarrow> finite {u. (u, v) \<in> E \<and> P u}"
  by (rule finite_subset [of _ "fst ` E"]) force+

lemma waiting_0_iff: "finite E \<Longrightarrow> waiting E D v = 0 \<longleftrightarrow> (\<forall>u. (u, v) \<in> E \<longrightarrow> u \<in> D)"
  using finite_preds [of E v "\<lambda>u. u \<notin> D"] by (auto simp: waiting_def)

lemma startable_waiting:
  "finite E \<Longrightarrow> startable K E D = {v \<in> K. v \<notin> D \<and> waiting E D v = 0}"
  by (simp add: startable_def waiting_0_iff)

lemma waiting_insert_dep:
  assumes "finite E" "(p, v) \<in> E" "p \<notin> D"
  shows "waiting E D v = Suc (waiting E (insert p D) v)"
proof -
  have "{u. (u, v) \<in> E \<and> u \<notin> D} = insert p {u. (u, v) \<in> E \<and> u \<notin> insert p D}"
    using assms by auto
  then show ?thesis
    using finite_preds [OF assms(1)] by (simp add: waiting_def)
qed

lemma waiting_insert_other: "(p, v) \<notin> E \<Longrightarrow> waiting E (insert p D) v = waiting E D v"
  unfolding waiting_def by (rule arg_cong [of _ _ card]) auto

lemma startable_insert:
  assumes "finite E" "p \<in> startable K E D"
  shows "startable K E (insert p D) =
           startable K E D - {p} \<union> {v \<in> K. v \<notin> insert p D \<and> (p, v) \<in> E \<and> waiting E (insert p D) v = 0}"
proof -
  have pD: "p \<notin> D" using assms(2) by (simp add: startable_def)
  have "v \<in> startable K E (insert p D) \<longleftrightarrow>
      v \<in> startable K E D - {p} \<or> (v \<in> K \<and> v \<notin> insert p D \<and> (p, v) \<in> E \<and> waiting E (insert p D) v = 0)" for v
  proof (cases "(p, v) \<in> E")
    case True
    then have "v \<notin> startable K E D" using pD by (auto simp: startable_def)
    with True show ?thesis by (auto simp: startable_waiting [OF assms(1)])
  next
    case False
    then show ?thesis
      using waiting_insert_other [OF False, of D] by (auto simp: startable_waiting [OF assms(1)])
  qed
  then show ?thesis by blast
qed

lemma emission_facts:
  assumes "emission K E xs"
  shows "distinct xs" and "set xs \<subseteq> K"
  using assms by (induction rule: emission.induct) (auto simp: startable_def)

lemma emission_preds:
  assumes "emission K E xs" "v \<in> set xs" "(u, v) \<in> E"
  shows "u \<in> set (takeWhile (\<lambda>x. x \<noteq> v) xs)"
  using assms
proof (induction rule: emission.induct)
  case (emission_snoc xs w)
  show ?case
  proof (cases "v \<in> set xs")
    case True
    then show ?thesis using emission_snoc by (simp add: takeWhile_append1)
  next
    case False
    then have vw: "v = w" using emission_snoc.prems(1) by simp
    have "\<forall>x \<in> set xs. x \<noteq> v" using False by blast
    then have "takeWhile (\<lambda>x. x \<noteq> v) (xs @ [w]) = xs" using vw by (simp add: takeWhile_append2)
    with vw emission_snoc show ?thesis by (auto simp: startable_def)
  qed
qed simp

text \<open>Emitting \<open>p\<close> can only enable successors of \<open>p\<close> that have not been emitted.\<close>

lemma emission_successor_fresh:
  assumes "emission K E xs" "p \<in> startable K E (set xs)" "(p, v) \<in> E"
  shows "v \<notin> insert p (set xs)"
proof
  assume v: "v \<in> insert p (set xs)"
  have "\<forall>u. (u, v) \<in> E \<longrightarrow> u \<in> set xs"
  proof (cases "v = p")
    case True
    then show ?thesis using assms(2) by (simp add: startable_def)
  next
    case False
    then have "v \<in> set xs" using v by simp
    then show ?thesis using emission_preds [OF assms(1)] set_takeWhileD by metis
  qed
  then show False using assms(2,3) by (auto simp: startable_def)
qed

lemma startable_emit:
  assumes "finite E" "emission K E xs" "p \<in> startable K E (set xs)"
  shows "startable K E (insert p (set xs)) =
           startable K E (set xs) - {p} \<union> {v \<in> K. (p, v) \<in> E \<and> waiting E (insert p (set xs)) v = 0}"
  using startable_insert [OF assms(1,3)] emission_successor_fresh [OF assms(2,3)] by blast

text \<open>An emission order of everything is a certificate of acyclicity.\<close>

definition position :: "'a list \<Rightarrow> 'a \<Rightarrow> nat" where
  "position xs v = length (takeWhile (\<lambda>x. x \<noteq> v) xs)"

lemma takeWhile_position:
  assumes "distinct xs" "u \<in> set (takeWhile (\<lambda>x. x \<noteq> v) xs)"
  shows "position xs u < position xs v"
  using assms by (induction xs) (auto simp: position_def split: if_splits)

lemma emission_position:
  "emission K E xs \<Longrightarrow> v \<in> set xs \<Longrightarrow> (u, v) \<in> E \<Longrightarrow> position xs u < position xs v"
  using emission_preds emission_facts(1) takeWhile_position by metis

lemma emission_trancl:
  assumes "emission K E xs" "K \<subseteq> set xs" "E \<subseteq> K \<times> K" "(u, v) \<in> E\<^sup>+"
  shows "position xs u < position xs v"
proof -
  have step: "position xs y < position xs z" if "(y, z) \<in> E" for y z
    using emission_position [OF assms(1) _ that] that assms(2,3) by auto
  from assms(4) show ?thesis
  proof (induction rule: trancl_induct)
    case (step y z)
    with \<open>\<And>y z. (y, z) \<in> E \<Longrightarrow> position xs y < position xs z\<close> [of y z] show ?case by simp
  qed (rule step)
qed

lemma emission_acyclic:
  assumes "emission K E xs" "K \<subseteq> set xs" "E \<subseteq> K \<times> K"
  shows "acyclic E"
  using emission_trancl [OF assms] by (auto simp: acyclic_def)

text \<open>When nothing is startable and the dependencies are acyclic, everything has been emitted.\<close>

lemma startable_nonempty:
  assumes "finite E" "acyclic E" "E \<subseteq> K \<times> K" "v \<in> K" "v \<notin> D"
  shows "startable K E D \<noteq> {}"
proof -
  have "wf E" using assms(1,2) by (rule finite_acyclic_wf)
  then obtain m where m: "m \<in> K - D" "\<And>u. (u, m) \<in> E \<Longrightarrow> u \<notin> K - D"
    using assms(4,5) by (metis Diff_iff wf_eq_minimal)
  then have "m \<in> startable K E D" using assms(3) by (auto simp: startable_def)
  then show ?thesis by blast
qed

lemma emission_complete:
  assumes "finite E" "acyclic E" "E \<subseteq> K \<times> K" "emission K E xs" "startable K E (set xs) = {}"
  shows "set xs = K"
  using startable_nonempty [OF assms(1-3)] assms(5) emission_facts(2) [OF assms(4)] by blast

text \<open>The number of emitted keys decides acyclicity.\<close>

lemma emission_count:
  assumes "finite E" "finite K" "E \<subseteq> K \<times> K" "emission K E xs" "startable K E (set xs) = {}"
  shows "length xs = card K \<longleftrightarrow> acyclic E"
proof
  assume "length xs = card K"
  then have "set xs = K"
    using emission_facts [OF assms(4)] assms(2) by (metis card_subset_eq distinct_card)
  then show "acyclic E" using emission_acyclic [OF assms(4) _ assms(3)] by simp
next
  assume "acyclic E"
  then show "length xs = card K"
    using emission_complete [OF assms(1) _ assms(3-5)] emission_facts(1) [OF assms(4)]
    by (metis distinct_card)
qed

end
