(* ===== verification/Op_Acyclic.thy ===== *)
theory Op_Acyclic
  imports Graph_Facts Kahn
begin

text \<open>
  Correctness of the acyclicity validator (\<open>validate_executable_acyclicity\<close> of
  \<open>hgraph/graph.rs\<close>): its Kahn loop over the registered operations accepts exactly the graphs
  whose producer relation has no cycle, and it never panics.
\<close>

section \<open>Dependencies of one operation\<close>

definition producers_known :: "hgraph \<Rightarrow> bool" where
  "producers_known g \<longleftrightarrow>
     (\<forall>i e. producer_of g i = Some e \<longrightarrow> (\<exists>p. plan_of_edge g e = Some p))"

definition dep_set :: "hgraph \<Rightarrow> nat list \<Rightarrow> nat set" where
  "dep_set g inputs =
     {p. \<exists>i \<in> set inputs. \<exists>e. producer_of g i = Some e \<and> plan_of_edge g e = Some p}"

definition add_producer :: "hgraph \<Rightarrow> nat list \<Rightarrow> nat \<Rightarrow> hgraph_error + nat list" where
  "add_producer g deps input =
     (case producer_of g input of
        None \<Rightarrow> Inr deps
      | Some producer \<Rightarrow>
          and_then (ok_or (plan_of_edge g producer)
                      (HErr ''input has producer edge with no operation'')) (\<lambda>p.
          Inr (bt_insert p deps)))"

lemma op_dependencies_fold: "op_dependencies g info = try_fold (add_producer g) [] (ei_inputs info)"
  unfolding op_dependencies_def add_producer_def producer_of_def by (rule refl)

lemma add_producers_exact:
  assumes "producers_known g" "ascending acc"
  shows "\<exists>deps. try_fold (add_producer g) acc inputs = Inr deps \<and> ascending deps \<and>
           set deps = set acc \<union> dep_set g inputs"
  using assms(2)
proof (induction inputs arbitrary: acc)
  case Nil
  then show ?case by (simp add: dep_set_def)
next
  case (Cons i inputs)
  show ?case
  proof (cases "producer_of g i")
    case None
    then show ?thesis using Cons by (simp add: add_producer_def dep_set_def)
  next
    case (Some e)
    then obtain p where p: "plan_of_edge g e = Some p" using assms(1) by (auto simp: producers_known_def)
    have "dep_set g (i # inputs) = insert p (dep_set g inputs)"
      using Some p by (auto simp: dep_set_def)
    with Some p Cons.IH [of "bt_insert p acc"] Cons.prems show ?thesis by (simp add: add_producer_def)
  qed
qed

lemma op_dependencies_exact:
  "producers_known g \<Longrightarrow>
     \<exists>deps. op_dependencies g info = Inr deps \<and> ascending deps \<and> set deps = dep_set g (ei_inputs info)"
  using add_producers_exact [of g "[]" "ei_inputs info"] by (simp add: op_dependencies_fold)

lemma op_deps_dep_set:
  "maps_ok g \<Longrightarrow> (q, info) \<in> set (hg_op_map g) \<Longrightarrow> (p, q) \<in> op_deps g \<longleftrightarrow> p \<in> dep_set g (ei_inputs info)"
  by (auto simp: op_deps_def dep_set_def simp flip: op_for_iff)

section \<open>Counting\<close>

definition succs_of :: "(nat \<times> nat list) list \<Rightarrow> nat \<Rightarrow> nat list" where
  "succs_of successors p = (case map_of successors p of None \<Rightarrow> [] | Some ss \<Rightarrow> ss)"

lemma succs_of_update: "succs_of (AList.update p ss successors) x = (if x = p then ss else succs_of successors x)"
  by (simp add: succs_of_def update_conv')

lemma succs_of_Nil [simp]: "succs_of [] p = []"
  by (simp add: succs_of_def)

lemma count_dependencies_exact:
  assumes "distinct deps" "map_of indegree q = Some d"
  shows "\<exists>indegree' successors'.
           try_fold (\<lambda>s p. count_dependency q p s) (indegree, successors) deps = Inr (indegree', successors') \<and>
           map_of indegree' = (map_of indegree)(q \<mapsto> d + length deps) \<and>
           map fst indegree' = map fst indegree \<and>
           (\<forall>p. succs_of successors' p =
                 (if p \<in> set deps then bt_insert q (succs_of successors p) else succs_of successors p))"
  using assms
proof (induction deps arbitrary: indegree successors d)
  case Nil
  then show ?case by (auto simp: map_upd_triv)
next
  case (Cons p deps)
  let ?i = "AList.update q (d + 1) indegree" and ?s = "AList.update p (bt_insert q (succs_of successors p)) successors"
  have step: "count_dependency q p (indegree, successors) = Inr (?i, ?s)"
    using Cons.prems(2) by (simp add: count_dependency_def succs_of_def Let_def)
  have "q \<in> fst ` set indegree" using Cons.prems(2) by (metis map_of_eq_None_iff option.distinct(1))
  then have keys: "map fst ?i = map fst indegree" by (simp add: update_keys)
  have "map_of ?i q = Some (d + 1)" "distinct deps" using Cons.prems(1) by (simp_all add: update_conv')
  then obtain indegree' successors' where r:
      "try_fold (\<lambda>s p. count_dependency q p s) (?i, ?s) deps = Inr (indegree', successors')"
      "map_of indegree' = (map_of ?i)(q \<mapsto> (d + 1) + length deps)" "map fst indegree' = map fst ?i"
      "\<forall>x. succs_of successors' x = (if x \<in> set deps then bt_insert q (succs_of ?s x) else succs_of ?s x)"
    using Cons.IH by blast
  have "map_of indegree' = (map_of indegree)(q \<mapsto> d + length (p # deps))"
    using r(2) by (simp add: update_conv')
  moreover have "succs_of successors' x =
      (if x \<in> set (p # deps) then bt_insert q (succs_of successors x) else succs_of successors x)" for x
    using r(4) [rule_format, of x] Cons.prems(1) by (auto simp: succs_of_update)
  ultimately show ?case using r(1,3) step keys by auto
qed

definition counted :: "hgraph \<Rightarrow> nat set \<Rightarrow> (nat \<times> nat) list \<Rightarrow> (nat \<times> nat list) list \<Rightarrow> bool" where
  "counted g done indegree successors \<longleftrightarrow>
     map fst indegree = map fst (hg_op_map g) \<and>
     (\<forall>q \<in> fst ` set (hg_op_map g).
        map_of indegree q = Some (if q \<in> done then waiting (op_deps g) {} q else 0)) \<and>
     (\<forall>p. ascending (succs_of successors p) \<and>
          set (succs_of successors p) = {q \<in> done. (p, q) \<in> op_deps g})"

lemma count_operation_exact:
  assumes "maps_ok g" "producers_known g" "\<forall>op \<in> set (hg_op_map g). operation_ok g op"
    and "op \<in> set (hg_op_map g)" "fst op \<notin> done" "counted g done indegree successors"
  shows "\<exists>indegree' successors'. count_operation g (indegree, successors) op = Inr (indegree', successors') \<and>
           counted g (insert (fst op) done) indegree' successors'"
proof -
  obtain q info where op: "op = (q, info)" by (cases op)
  have q: "(q, info) \<in> set (hg_op_map g)" "ei_plan_node info = q"
    using assms(3,4) by (auto simp: op operation_ok_def)
  obtain deps where deps: "op_dependencies g info = Inr deps" "ascending deps"
      "set deps = dep_set g (ei_inputs info)"
    using op_dependencies_exact [OF assms(2)] by blast
  have edges: "(p, q) \<in> op_deps g \<longleftrightarrow> p \<in> set deps" for p
    using op_deps_dep_set [OF assms(1) q(1)] deps(3) by simp
  then have len: "waiting (op_deps g) {} q = length deps"
    using ascending_distinct [OF deps(2)] by (simp add: waiting_def distinct_card)
  have "q \<in> fst ` set (hg_op_map g)" using q(1) by force
  then have "map_of indegree q = Some 0" using assms(5,6) by (auto simp: counted_def op)
  then obtain indegree' successors' where r:
      "try_fold (\<lambda>s p. count_dependency q p s) (indegree, successors) deps = Inr (indegree', successors')"
      "map_of indegree' = (map_of indegree)(q \<mapsto> 0 + length deps)" "map fst indegree' = map fst indegree"
      "\<forall>p. succs_of successors' p = (if p \<in> set deps then bt_insert q (succs_of successors p) else succs_of successors p)"
    using count_dependencies_exact [OF ascending_distinct [OF deps(2)]] by blast
  have "ascending (succs_of successors' p) \<and>
      set (succs_of successors' p) = {v \<in> insert q done. (p, v) \<in> op_deps g}" for p
    using assms(6) r(4) [rule_format, of p] edges [of p] by (auto simp: counted_def)
  then have "counted g (insert q done) indegree' successors'"
    using assms(6) r(2,3) len by (auto simp: counted_def)
  then show ?thesis using deps(1) r(1) q(2) by (auto simp: count_operation_def op)
qed

lemma counting_exact:
  assumes "maps_ok g" "producers_known g" "\<forall>op \<in> set (hg_op_map g). operation_ok g op"
  shows "\<exists>indegree successors.
           try_fold (count_operation g) (map (\<lambda>(k, _). (k, 0)) (hg_op_map g), []) (hg_op_map g) =
             Inr (indegree, successors) \<and>
           counted g (fst ` set (hg_op_map g)) indegree successors"
proof -
  let ?i0 = "map (\<lambda>(k, _). (k, 0)) (hg_op_map g)"
  have "distinct (map fst pre) \<Longrightarrow> set pre \<subseteq> set (hg_op_map g) \<Longrightarrow>
      \<exists>indegree successors. try_fold (count_operation g) (?i0, []) pre = Inr (indegree, successors) \<and>
        counted g (fst ` set pre) indegree successors" for pre
  proof (induction pre rule: rev_induct)
    case Nil
    have "map fst ?i0 = map fst (hg_op_map g)" by auto
    moreover have "q \<in> fst ` set ops \<Longrightarrow> map_of (map (\<lambda>(k, _). (k, 0 :: nat)) ops) q = Some 0"
      for q and ops :: "(nat \<times> exec_info) list"
      by (induction ops) auto
    ultimately show ?case by (auto simp: counted_def)
  next
    case (snoc op pre)
    then obtain indegree successors where
        "try_fold (count_operation g) (?i0, []) pre = Inr (indegree, successors)"
        "counted g (fst ` set pre) indegree successors"
      by auto
    moreover have "op \<in> set (hg_op_map g)" "fst op \<notin> fst ` set pre" using snoc.prems by auto
    ultimately show ?case
      using count_operation_exact [OF assms, of op "fst ` set pre" indegree successors]
      by (auto simp: try_fold_append)
  qed
  then show ?thesis using assms(1) by (simp add: maps_ok_def)
qed

section \<open>The ready loop\<close>

lemma relax_successors_exact:
  assumes "distinct ss" "\<forall>s \<in> set ss. \<exists>d. map_of indegree s = Some (Suc d)"
  shows "\<exists>indegree'. relax_successors ss indegree ready =
             Inr (indegree', fold bt_insert (filter (\<lambda>s. map_of indegree s = Some 1) ss) ready) \<and>
           map_of indegree' = (\<lambda>v. if v \<in> set ss then map_option (\<lambda>d. d - 1) (map_of indegree v)
                                   else map_of indegree v)"
  using assms
proof (induction ss arbitrary: indegree ready)
  case Nil
  then show ?case by simp
next
  case (Cons s ss)
  obtain d where d: "map_of indegree s = Some (Suc d)" using Cons.prems(2) by auto
  let ?i = "AList.update s d indegree"
  have view: "map_of ?i v = map_of indegree v" if "v \<in> set ss" for v
    using that Cons.prems(1) by (auto simp: update_conv')
  obtain indegree' where r: "relax_successors ss ?i (if d = 0 then bt_insert s ready else ready) =
        Inr (indegree', fold bt_insert (filter (\<lambda>v. map_of ?i v = Some 1) ss)
               (if d = 0 then bt_insert s ready else ready))"
      "map_of indegree' = (\<lambda>v. if v \<in> set ss then map_option (\<lambda>d. d - 1) (map_of ?i v) else map_of ?i v)"
    using Cons.IH [of ?i "if d = 0 then bt_insert s ready else ready"] Cons.prems view by auto
  have "filter (\<lambda>v. map_of ?i v = Some 1) ss = filter (\<lambda>v. map_of indegree v = Some 1) ss"
    using view by (intro filter_cong refl) simp
  moreover have "map_of indegree' = (\<lambda>v. if v \<in> set (s # ss) then map_option (\<lambda>d. d - 1) (map_of indegree v)
      else map_of indegree v)"
    using r(2) d Cons.prems(1) by (auto simp: update_conv')
  ultimately show ?case using r(1) d by (auto split: nat.splits)
qed

definition counted_graph :: "nat set \<Rightarrow> (nat \<times> nat) set \<Rightarrow> (nat \<times> nat list) list \<Rightarrow> bool" where
  "counted_graph K E successors \<longleftrightarrow> finite K \<and> E \<subseteq> K \<times> K \<and>
     (\<forall>p. ascending (succs_of successors p) \<and> set (succs_of successors p) = {q. (p, q) \<in> E})"

lemma counted_graph_D:
  assumes "counted_graph K E successors"
  shows "finite K" "finite E" "E \<subseteq> K \<times> K" "ascending (succs_of successors p)"
    "set (succs_of successors p) = {q. (p, q) \<in> E}"
  using assms finite_subset [of E "K \<times> K"] by (auto simp: counted_graph_def)

definition counts :: "nat set \<Rightarrow> (nat \<times> nat) set \<Rightarrow> (nat \<times> nat) list \<Rightarrow> nat set \<Rightarrow> bool" where
  "counts K E indegree D \<longleftrightarrow> (\<forall>v \<in> K. map_of indegree v = Some (waiting E D v))"

lemma relax_emit:
  assumes g: "counted_graph K E successors"
    and "emission K E xs" "p \<in> startable K E (set xs)" "counts K E indegree (set xs)"
    and "p \<notin> set ready" "ascending ready" "insert p (set ready) = startable K E (set xs)"
  shows "\<exists>indegree' ready'. relax_successors (succs_of successors p) indegree ready = Inr (indegree', ready') \<and>
           counts K E indegree' (set (xs @ [p])) \<and> ascending ready' \<and> set ready' = startable K E (set (xs @ [p]))"
proof -
  have pD: "p \<notin> set xs" using assms(3) by (simp add: startable_def)
  have dep: "waiting E (set xs) v = Suc (waiting E (insert p (set xs)) v)" if "(p, v) \<in> E" for v
    using waiting_insert_dep [OF counted_graph_D(2) [OF g] that pD] .
  have inK: "v \<in> K" if "(p, v) \<in> E" for v using counted_graph_D(3) [OF g] that by auto
  have ones: "map_of indegree v = Some (Suc (waiting E (insert p (set xs)) v))" if "(p, v) \<in> E" for v
    using that assms(4) dep inK by (simp add: counts_def)
  let ?new = "filter (\<lambda>s. map_of indegree s = Some 1) (succs_of successors p)"
  obtain indegree' where r: "relax_successors (succs_of successors p) indegree ready =
        Inr (indegree', fold bt_insert ?new ready)"
      "map_of indegree' = (\<lambda>v. if v \<in> set (succs_of successors p) then map_option (\<lambda>d. d - 1) (map_of indegree v)
         else map_of indegree v)"
    using relax_successors_exact [OF ascending_distinct [OF counted_graph_D(4) [OF g]], of p indegree ready] ones
    by (auto simp: counted_graph_D(5) [OF g])
  have "counts K E indegree' (set (xs @ [p]))"
    using assms(4) r(2) ones waiting_insert_other [of p _ E "set xs"]
    by (auto simp: counts_def counted_graph_D(5) [OF g])
  moreover have "set (fold bt_insert ?new ready) = startable K E (set (xs @ [p]))"
    using startable_emit [OF counted_graph_D(2) [OF g] assms(2,3)] assms(5,7) ones inK
    by (auto simp: counted_graph_D(5) [OF g])
  ultimately show ?thesis using r(1) assms(6) by auto
qed

lemma ready_loop_exact:
  assumes g: "counted_graph K E successors"
    and "emission K E xs" "counts K E indegree (set xs)" "ascending ready"
    and "set ready = startable K E (set xs)"
  shows "\<exists>ys. ready_loop successors indegree ready scheduled = Inr (scheduled + length ys) \<and>
           emission K E (xs @ ys) \<and> startable K E (set (xs @ ys)) = {}"
  using assms(2-)
proof (induction "card K - length xs" arbitrary: xs indegree ready scheduled rule: less_induct)
  case less
  show ?case
  proof (cases ready)
    case Nil
    then show ?thesis using less.prems by (intro exI [of _ "[]"]) simp
  next
    case (Cons p rest)
    have p: "p \<in> startable K E (set xs)" "p \<notin> set rest" "ascending rest"
        "insert p (set rest) = startable K E (set xs)"
      using less.prems(3,4) Cons by auto
    obtain indegree' ready' where r: "relax_successors (succs_of successors p) indegree rest = Inr (indegree', ready')"
        "counts K E indegree' (set (xs @ [p]))" "ascending ready'" "set ready' = startable K E (set (xs @ [p]))"
      using relax_emit [OF g less.prems(1) p(1) less.prems(2) p(2,3,4)] by blast
    have em: "emission K E (xs @ [p])" using less.prems(1) p(1) by (rule emission_snoc)
    have "length (xs @ [p]) \<le> card K"
      using emission_facts [OF em] counted_graph_D(1) [OF g] by (metis card_mono distinct_card)
    then have "card K - length (xs @ [p]) < card K - length xs" by simp
    then obtain ys where "ready_loop successors indegree' ready' (scheduled + 1) = Inr (scheduled + 1 + length ys)"
        "emission K E ((xs @ [p]) @ ys)" "startable K E (set ((xs @ [p]) @ ys)) = {}"
      using less.hyps [OF _ em r(2-4)] by blast
    then show ?thesis using r(1) Cons by (intro exI [of _ "p # ys"]) (simp add: succs_of_def)
  qed
qed

section \<open>The validator\<close>

lemma waiting_empty_startable:
  assumes "map fst indegree = map fst ops" "distinct (map fst ops)" "finite E"
    and "\<forall>q \<in> fst ` set ops. map_of indegree q = Some (waiting E {} q)"
  shows "set (bt_from (map fst (filter (\<lambda>(_, d). d = 0) indegree))) = startable (fst ` set ops) E {}"
proof -
  have "distinct (map fst indegree)" using assms(1,2) by simp
  then have entry: "(q, d) \<in> set indegree \<longleftrightarrow> map_of indegree q = Some d" for q d by simp
  have keys: "fst ` set indegree = fst ` set ops" using assms(1) by (metis list.set_map)
  have "q \<in> set (map fst (filter (\<lambda>(_, d). d = 0) indegree)) \<longleftrightarrow> q \<in> startable (fst ` set ops) E {}" for q
  proof -
    have "q \<in> set (map fst (filter (\<lambda>(_, d). d = 0) indegree)) \<longleftrightarrow> map_of indegree q = Some 0"
      by (force simp: entry [symmetric])
    also have "\<dots> \<longleftrightarrow> q \<in> fst ` set ops \<and> waiting E {} q = 0"
    proof (cases "q \<in> fst ` set ops")
      case True
      then show ?thesis using assms(4) by auto
    next
      case False
      then have "map_of indegree q = None" using keys by (simp add: map_of_eq_None_iff)
      with False show ?thesis by simp
    qed
    finally show ?thesis by (simp add: startable_waiting [OF assms(3)])
  qed
  then show ?thesis by (simp only: set_bt_from) blast
qed

lemma acyclicity_runs:
  assumes "maps_ok g" "producers_known g" "\<forall>op \<in> set (hg_op_map g). operation_ok g op"
    and "distinct (map (ei_edge \<circ> snd) (hg_op_map g))"
  shows "validate_executable_acyclicity g =
     ensure (acyclic (op_deps g)) (HErr ''executable dependency graph contains a cycle'')"
proof -
  let ?K = "fst ` set (hg_op_map g)" and ?E = "op_deps g"
  obtain indegree successors where c: "try_fold (count_operation g) (map (\<lambda>(k, _). (k, 0)) (hg_op_map g), [])
        (hg_op_map g) = Inr (indegree, successors)" "counted g ?K indegree successors"
    using counting_exact [OF assms(1-3)] by blast
  note range = op_deps_range [OF assms(3,4)] and fin = finite_op_deps [OF assms(3,4)]
  have "counted_graph ?K ?E successors"
    using c(2) range by (auto simp: counted_def counted_graph_def)
  moreover have "counts ?K ?E indegree (set [])"
    using c(2) by (simp add: counted_def counts_def)
  ultimately obtain ys where ys: "ready_loop successors indegree
        (bt_from (map fst (filter (\<lambda>(_, d). d = 0) indegree))) 0 = Inr (0 + length ys)"
      "emission ?K ?E ([] @ ys)" "startable ?K ?E (set ([] @ ys)) = {}"
    using ready_loop_exact [of ?K ?E successors "[]" indegree
        "bt_from (map fst (filter (\<lambda>(_, d). d = 0) indegree))" 0]
      waiting_empty_startable [of indegree "hg_op_map g" ?E] c(2) assms(1) fin
    by (auto simp: emission_Nil counted_def maps_ok_def)
  have "card ?K = length (hg_op_map g)"
    using assms(1) by (metis maps_ok_def distinct_card length_map list.set_map)
  then have "length ys = length (hg_op_map g) \<longleftrightarrow> acyclic ?E"
    using emission_count [OF fin _ range, of ys] ys(2,3) by simp
  then show ?thesis using c(1) ys(1) by (simp add: validate_executable_acyclicity_def)
qed

end
