(* ===== verification/Ready_Schedule.thy ===== *)
theory Ready_Schedule
  imports HGraph_Lower Kahn
begin

text \<open>
  The ready-operation scheduler (\<open>hgraph/schedule.rs\<close>): operations with the indices of the
  operations that can block them, derived from the producers of their inputs, and the
  conservative topological waves over them.
\<close>

section \<open>Ready operations\<close>

record ready_op =
  ro_plan_node :: nat
  ro_edge :: nat
  ro_value_output :: nat
  ro_inputs :: "nat list"
  ro_outputs :: "nat list"
  ro_ordinal :: nat
  ro_blocked_by :: "nat list"

definition input_policy :: "hgraph \<Rightarrow> ready_op \<Rightarrow> hgraph_error + ready_input_policy" where
  "input_policy g op =
     and_then (ok_or (op_for g (ro_plan_node op))
                 (HErr ''ready operation is absent from the supplied HGraph'')) (\<lambda>info.
     and_then (ensure (ei_edge info = ro_edge op \<and> ei_inputs info = ro_inputs op)
                 (HErr ''ready operation does not match the supplied HGraph edge or inputs'')) (\<lambda>_.
     info_input_policy g info))"

record ready_schedule =
  rs_ops :: "ready_op list"

definition register_outputs ::
  "(nat \<times> nat) list \<Rightarrow> nat \<times> exec_info \<Rightarrow> hgraph_error + (nat \<times> nat) list" where
  "register_outputs producer_op entry =
     try_fold (\<lambda>m output.
        if map_of m output \<noteq> None then Inl (HErr ''node has multiple operation producers'')
        else Inr (AList.update output (fst entry) m)) producer_op (ei_outputs (snd entry))"

definition blockers :: "(nat \<times> nat) list \<Rightarrow> nat \<Rightarrow> nat list \<Rightarrow> nat list" where
  "blockers producer_op index inputs =
     bt_from (filter (\<lambda>p. p \<noteq> index) (List.map_filter (map_of producer_op) inputs))"

definition ready_op_of :: "(nat \<times> nat) list \<Rightarrow> nat \<times> exec_info \<Rightarrow> ready_op" where
  "ready_op_of producer_op entry =
     (case entry of (index, info) \<Rightarrow>
      \<lparr>ro_plan_node = ei_plan_node info, ro_edge = ei_edge info,
       ro_value_output = ei_value_output info, ro_inputs = ei_inputs info,
       ro_outputs = ei_outputs info, ro_ordinal = ei_ordinal info,
       ro_blocked_by = blockers producer_op index (ei_inputs info)\<rparr>)"

definition derive :: "hgraph \<Rightarrow> hgraph_error + ready_schedule" where
  "derive g =
     and_then (validate_execution_graph g) (\<lambda>_.
     let infos = exec_ops_ordered g in
     and_then (try_fold register_outputs [] (enumerate 0 infos)) (\<lambda>producer_op.
     and_then (for_each (\<lambda>info. and_then (info_input_policy g info) (\<lambda>_. Inr ())) infos) (\<lambda>_.
     Inr \<lparr>rs_ops = map (ready_op_of producer_op) (enumerate 0 infos)\<rparr>)))"

section \<open>Waves\<close>

text \<open>In-degrees and successor lists are vectors indexed by operation.\<close>

definition count_blockers ::
  "nat list \<times> nat list list \<Rightarrow> nat \<times> ready_op \<Rightarrow> hgraph_error + nat list \<times> nat list list" where
  "count_blockers st entry =
     try_fold (\<lambda>(indegree, successors) dep.
        and_then (ensure (dep < length successors) HPanic) (\<lambda>_.
        Inr (indegree[fst entry := indegree ! fst entry + 1],
             successors[dep := successors ! dep @ [fst entry]]))) st (ro_blocked_by (snd entry))"

fun relax_ops :: "nat list \<Rightarrow> nat list \<Rightarrow> nat list \<Rightarrow> hgraph_error + nat list \<times> nat list" where
  "relax_ops [] indegree next = Inr (indegree, next)"
| "relax_ops (s # ss) indegree next =
     (if length indegree \<le> s \<or> indegree ! s = 0 then Inl HPanic
      else relax_ops ss (indegree[s := indegree ! s - 1])
             (if indegree ! s = 1 then next @ [s] else next))"

fun relax_wave :: "nat list list \<Rightarrow> nat list \<Rightarrow> nat list \<Rightarrow> nat list \<Rightarrow> hgraph_error + nat list \<times> nat list" where
  "relax_wave successors [] indegree next = Inr (indegree, next)"
| "relax_wave successors (p # wave) indegree next =
     (case relax_ops (successors ! p) indegree next of
        Inl e \<Rightarrow> Inl e
      | Inr (indegree', next') \<Rightarrow> relax_wave successors wave indegree' next')"

lemma relax_ops_measure:
  "relax_ops ss indegree next = Inr (indegree', next') \<Longrightarrow>
     sum_list indegree' + length next' \<le> sum_list indegree + length next"
proof (induction ss indegree "next" rule: relax_ops.induct)
  case (2 s ss indegree "next")
  then have "s < length indegree" "0 < indegree ! s" by (auto split: if_splits)
  then show ?case
    using 2 sum_list_decrement [of s indegree] by (auto split: if_splits)
qed simp

lemma relax_wave_measure:
  "relax_wave successors wave indegree next = Inr (indegree', next') \<Longrightarrow>
     sum_list indegree' + length next' \<le> sum_list indegree + length next"
proof (induction successors wave indegree "next" rule: relax_wave.induct)
  case (2 successors p wave indegree "next")
  then obtain i n where "relax_ops (successors ! p) indegree next = Inr (i, n)"
    by (auto split: sum.splits)
  then show ?case using 2 relax_ops_measure [of _ _ _ i n] by fastforce
qed simp

function wave_loop ::
  "(nat \<Rightarrow> nat \<times> nat) \<Rightarrow> nat list list \<Rightarrow> nat list \<Rightarrow> nat list \<Rightarrow> hgraph_error + nat list list" where
  "wave_loop order_key successors indegree ready =
     (if ready = [] then Inr []
      else (case relax_wave successors ready indegree [] of
              Inl e \<Rightarrow> Inl e
            | Inr (indegree', next) \<Rightarrow>
                (case wave_loop order_key successors indegree' (sort_key order_key next) of
                   Inl e \<Rightarrow> Inl e
                 | Inr ws \<Rightarrow> Inr (ready # ws))))"
  by pat_completeness auto
termination
proof (relation "measure (\<lambda>(_, _, indegree, ready). sum_list indegree + length ready)", goal_cases)
  case (2 order_key successors indegree ready r indegree' "next")
  then have "sum_list indegree' + length next \<le> sum_list indegree"
    using relax_wave_measure [of successors ready indegree "[]" indegree' "next"] by simp
  moreover have "0 < length ready" using 2 by simp
  ultimately have "sum_list indegree' + length next < sum_list indegree + length ready" by linarith
  then show ?case by simp
qed simp

declare wave_loop.simps [simp del]

definition order_key :: "ready_schedule \<Rightarrow> nat \<Rightarrow> nat \<times> nat" where
  "order_key s i = (ro_ordinal (rs_ops s ! i), i)"

definition wave_indices :: "ready_schedule \<Rightarrow> hgraph_error + nat list list" where
  "wave_indices s =
     (let n = length (rs_ops s) in
      and_then (try_fold count_blockers (replicate n 0, replicate n []) (enumerate 0 (rs_ops s)))
        (\<lambda>(indegree, successors).
      and_then (wave_loop (order_key s) successors indegree
                  (sort_key (order_key s) (filter (\<lambda>i. indegree ! i = 0) [0..<n]))) (\<lambda>ws.
      and_then (ensure (sum_list (map length ws) = n)
                  (HErr ''ready-operation graph contains a cycle'')) (\<lambda>_.
      Inr ws))))"

definition waves :: "ready_schedule \<Rightarrow> hgraph_error + nat list list" where
  "waves s =
     and_then (wave_indices s) (\<lambda>ws. Inr (map (map (\<lambda>i. ro_plan_node (rs_ops s ! i))) ws))"

definition launch_order :: "ready_schedule \<Rightarrow> hgraph_error + nat list" where
  "launch_order s = and_then (waves s) (\<lambda>ws. Inr (concat ws))"

end
