(* ===== verification/Waves.thy ===== *)
theory Waves
  imports Ready_Schedule
begin

text \<open>
  Correctness of the wave scheduler: over a schedule whose blockers are in range, the waves are
  exactly the levels of the blocking relation, and the scheduler fails exactly on a cycle.
\<close>

section \<open>The blocking relation\<close>

definition blocking :: "ready_schedule \<Rightarrow> (nat \<times> nat) set" where
  "blocking s = {(d, i). d < length (rs_ops s) \<and> i < length (rs_ops s) \<and>
                        d \<in> set (ro_blocked_by (rs_ops s ! i))}"

definition schedule_wf :: "ready_schedule \<Rightarrow> bool" where
  "schedule_wf s =
     list_all (\<lambda>op. distinct (ro_blocked_by op) \<and> list_all (\<lambda>d. d < length (rs_ops s)) (ro_blocked_by op))
       (rs_ops s)"

lemma schedule_wf_nth:
  assumes "schedule_wf s" "i < length (rs_ops s)"
  shows "distinct (ro_blocked_by (rs_ops s ! i))"
    and "\<forall>d \<in> set (ro_blocked_by (rs_ops s ! i)). d < length (rs_ops s)"
  using assms by (auto simp: schedule_wf_def list_all_length in_set_conv_nth)

lemma blocking_range: "blocking s \<subseteq> {..<length (rs_ops s)} \<times> {..<length (rs_ops s)}"
  by (auto simp: blocking_def)

lemma finite_blocking: "finite (blocking s)"
  by (rule finite_subset [OF blocking_range]) simp_all

lemma blocking_waiting:
  assumes "schedule_wf s" "i < length (rs_ops s)"
  shows "waiting (blocking s) {} i = length (ro_blocked_by (rs_ops s ! i))"
proof -
  have "{u. (u, i) \<in> blocking s \<and> u \<notin> {}} = set (ro_blocked_by (rs_ops s ! i))"
    using schedule_wf_nth(2) [OF assms] assms(2) by (auto simp: blocking_def)
  then show ?thesis
    using schedule_wf_nth(1) [OF assms] by (simp add: waiting_def distinct_card)
qed

section \<open>Counting\<close>

lemma count_deps_exact:
  assumes "distinct deps" "\<forall>d \<in> set deps. d < length successors" "i < length indegree"
  shows "try_fold (\<lambda>(indegree, successors) dep.
            and_then (ensure (dep < length successors) HPanic) (\<lambda>_.
            Inr (indegree[i := indegree ! i + 1], successors[dep := successors ! dep @ [i]])))
           (indegree, successors) deps =
         Inr (indegree[i := indegree ! i + length deps],
              map (\<lambda>d. if d \<in> set deps then successors ! d @ [i] else successors ! d) [0..<length successors])"
  using assms
proof (induction deps arbitrary: indegree successors)
  case Nil
  then show ?case by (simp add: map_nth)
next
  case (Cons d deps)
  show ?case
    using Cons by (auto simp: nth_list_update intro!: nth_equalityI)
qed

lemma count_blockers_exact:
  assumes "distinct (ro_blocked_by op)" "\<forall>d \<in> set (ro_blocked_by op). d < length successors"
    and "i < length indegree"
  shows "count_blockers (indegree, successors) (i, op) =
         Inr (indegree[i := indegree ! i + length (ro_blocked_by op)],
              map (\<lambda>d. if d \<in> set (ro_blocked_by op) then successors ! d @ [i] else successors ! d)
                [0..<length successors])"
  unfolding count_blockers_def fst_conv snd_conv using assms by (rule count_deps_exact)

lemma count_all_exact:
  assumes "schedule_wf s" "k \<le> length (rs_ops s)"
  shows "try_fold count_blockers (replicate (length (rs_ops s)) 0, replicate (length (rs_ops s)) [])
           (enumerate 0 (take k (rs_ops s))) =
         Inr (map (\<lambda>i. if i < k then length (ro_blocked_by (rs_ops s ! i)) else 0) [0..<length (rs_ops s)],
              map (\<lambda>d. filter (\<lambda>i. (d, i) \<in> blocking s) [0..<k]) [0..<length (rs_ops s)])"
  using assms(2)
proof (induction k)
  case 0
  then show ?case by (auto intro: nth_equalityI)
next
  case (Suc k)
  let ?n = "length (rs_ops s)" and ?bl = "ro_blocked_by (rs_ops s ! k)"
  have k: "k < ?n" using Suc.prems by simp
  have "enumerate 0 (take (Suc k) (rs_ops s)) = enumerate 0 (take k (rs_ops s)) @ [(k, rs_ops s ! k)]"
    using k by (simp add: take_Suc_conv_app_nth enumerate_append_eq)
  moreover have "count_blockers
      (map (\<lambda>i. if i < k then length (ro_blocked_by (rs_ops s ! i)) else 0) [0..<?n],
       map (\<lambda>d. filter (\<lambda>i. (d, i) \<in> blocking s) [0..<k]) [0..<?n]) (k, rs_ops s ! k) =
      Inr (map (\<lambda>i. if i < Suc k then length (ro_blocked_by (rs_ops s ! i)) else 0) [0..<?n],
        map (\<lambda>d. filter (\<lambda>i. (d, i) \<in> blocking s) [0..<Suc k]) [0..<?n])"
    using k schedule_wf_nth [OF assms(1) k]
    by (subst count_blockers_exact)
      (auto simp: blocking_def nth_list_update less_Suc_eq intro!: nth_equalityI)
  ultimately show ?case
    using Suc by (simp add: try_fold_append)
qed

lemma counting:
  assumes "schedule_wf s"
  shows "try_fold count_blockers (replicate (length (rs_ops s)) 0, replicate (length (rs_ops s)) [])
           (enumerate 0 (rs_ops s)) =
         Inr (map (waiting (blocking s) {}) [0..<length (rs_ops s)],
              map (\<lambda>d. filter (\<lambda>i. (d, i) \<in> blocking s) [0..<length (rs_ops s)]) [0..<length (rs_ops s)])"
  using count_all_exact [OF assms, of "length (rs_ops s)"]
  by (simp add: blocking_waiting [OF assms] cong: map_cong)

section \<open>One wave\<close>

lemma relax_ops_exact:
  assumes "distinct ss" "\<forall>s \<in> set ss. s < length indegree \<and> indegree ! s \<noteq> 0"
  shows "relax_ops ss indegree next =
         Inr (map (\<lambda>v. if v \<in> set ss then indegree ! v - 1 else indegree ! v) [0..<length indegree],
              next @ filter (\<lambda>s. indegree ! s = 1) ss)"
  using assms
proof (induction ss arbitrary: indegree "next")
  case Nil
  then show ?case by (simp add: map_nth)
next
  case (Cons s ss)
  let ?d = "indegree[s := indegree ! s - 1]"
  have s: "s < length indegree" "indegree ! s \<noteq> 0" using Cons.prems(2) by simp_all
  have eq: "filter (\<lambda>v. ?d ! v = 1) ss = filter (\<lambda>v. indegree ! v = 1) ss"
    using Cons.prems(1) by (intro filter_cong refl) (metis distinct.simps(2) nth_list_update_neq)
  have "relax_ops ss ?d nx = Inr (map (\<lambda>v. if v \<in> set ss then ?d ! v - 1 else ?d ! v) [0..<length ?d],
              nx @ filter (\<lambda>s. ?d ! s = 1) ss)" for nx
    using Cons.prems by (intro Cons.IH) (auto simp: nth_list_update)
  then show ?case
    using s Cons.prems(1) eq by (auto simp: nth_list_update intro!: nth_equalityI)
qed

locale leveled_graph =
  fixes n :: nat and E :: "(nat \<times> nat) set" and successors :: "nat list list"
  assumes range: "E \<subseteq> {..<n} \<times> {..<n}"
    and successors_exact: "p < n \<Longrightarrow> successors ! p = filter (\<lambda>i. (p, i) \<in> E) [0..<n]"
begin

abbreviation pending_counts :: "nat set \<Rightarrow> nat list" where
  "pending_counts D \<equiv> map (waiting E D) [0..<n]"

lemma finite_E: "finite E"
  by (rule finite_subset [OF range]) simp

lemma relax_one:
  assumes "p < n" "p \<notin> D"
  shows "relax_ops (successors ! p) (pending_counts D) next =
         Inr (pending_counts (insert p D),
              next @ filter (\<lambda>v. (p, v) \<in> E \<and> waiting E (insert p D) v = 0) [0..<n])"
proof -
  have dep: "waiting E D v = Suc (waiting E (insert p D) v)" if "(p, v) \<in> E" for v
    using waiting_insert_dep [OF finite_E that assms(2)] .
  have other: "waiting E (insert p D) v = waiting E D v" if "(p, v) \<notin> E" for v
    using waiting_insert_other [OF that] .
  have "relax_ops (successors ! p) (pending_counts D) next =
      Inr (map (\<lambda>v. if v \<in> set (successors ! p) then pending_counts D ! v - 1 else pending_counts D ! v)
             [0..<length (pending_counts D)],
           next @ filter (\<lambda>v. pending_counts D ! v = 1) (successors ! p))"
    using assms(1) dep by (intro relax_ops_exact) (auto simp: successors_exact)
  moreover have "filter (\<lambda>v. pending_counts D ! v = 1) (successors ! p) =
      filter (\<lambda>v. (p, v) \<in> E \<and> waiting E (insert p D) v = 0) [0..<n]"
    using assms(1) dep by (auto simp: successors_exact intro!: filter_cong)
  moreover have "map (\<lambda>v. if v \<in> set (successors ! p) then pending_counts D ! v - 1 else pending_counts D ! v)
      [0..<length (pending_counts D)] = pending_counts (insert p D)"
    using assms(1) dep other by (auto simp: successors_exact)
  ultimately show ?thesis by simp
qed

lemma relax_wave_exact:
  assumes "emission {..<n} E xs" "distinct (wave @ next)"
    and "set wave \<union> set next = startable {..<n} E (set xs)"
  shows "\<exists>next'. relax_wave successors wave (pending_counts (set xs)) next =
             Inr (pending_counts (set xs \<union> set wave), next') \<and>
           distinct next' \<and> set next' = startable {..<n} E (set xs \<union> set wave) \<and>
           emission {..<n} E (xs @ wave)"
  using assms
proof (induction wave arbitrary: xs "next")
  case Nil
  then show ?case by simp
next
  case (Cons p wave)
  let ?new = "filter (\<lambda>v. (p, v) \<in> E \<and> waiting E (insert p (set xs)) v = 0) [0..<n]"
  have p: "p \<in> startable {..<n} E (set xs)" using Cons.prems(3) by auto
  then have pn: "p < n" "p \<notin> set xs" by (auto simp: startable_def)
  have em: "emission {..<n} E (xs @ [p])" using Cons.prems(1) p by (rule emission_snoc)
  have fresh: "set ?new \<inter> startable {..<n} E (set xs) = {}"
    using pn by (auto simp: startable_def)
  have ins: "startable {..<n} E (set (xs @ [p])) = startable {..<n} E (set xs) - {p} \<union> set ?new"
    using startable_emit [OF finite_E Cons.prems(1) p] by auto
  have "distinct (wave @ (next @ ?new))"
    using Cons.prems(2,3) fresh by auto
  moreover have "set wave \<union> set (next @ ?new) = startable {..<n} E (set (xs @ [p]))"
    using Cons.prems(2,3) ins by auto
  ultimately obtain next' where "relax_wave successors wave (pending_counts (set (xs @ [p]))) (next @ ?new) =
      Inr (pending_counts (set (xs @ [p]) \<union> set wave), next')" "distinct next'"
      "set next' = startable {..<n} E (set (xs @ [p]) \<union> set wave)"
      "emission {..<n} E ((xs @ [p]) @ wave)"
    using Cons.IH [OF em] by blast
  then show ?case
    using relax_one [OF pn, of "next"] by simp
qed

text \<open>The levels of the graph above the emitted set \<open>D\<close>.\<close>

fun levels :: "(nat \<Rightarrow> nat \<times> nat) \<Rightarrow> nat set \<Rightarrow> nat list list \<Rightarrow> bool" where
  "levels key D [] = (startable {..<n} E D = {})"
| "levels key D (w # ws) =
     (w \<noteq> [] \<and> sorted (map key w) \<and> set w = startable {..<n} E D \<and> levels key (D \<union> set w) ws)"

lemma wave_loop_exact:
  assumes "emission {..<n} E xs" "distinct ready" "sorted (map key ready)"
    and "set ready = startable {..<n} E (set xs)"
  shows "\<exists>ws. wave_loop key successors (pending_counts (set xs)) ready = Inr ws \<and>
           levels key (set xs) ws \<and> emission {..<n} E (xs @ concat ws)"
  using assms
proof (induction "n - length xs" arbitrary: xs ready rule: less_induct)
  case less
  show ?case
  proof (cases "ready = []")
    case True
    then show ?thesis using less.prems by (simp add: wave_loop.simps [of _ _ _ "[]"])
  next
    case False
    obtain nx where nx: "relax_wave successors ready (pending_counts (set xs)) [] =
        Inr (pending_counts (set xs \<union> set ready), nx)" "distinct nx"
        "set nx = startable {..<n} E (set xs \<union> set ready)" "emission {..<n} E (xs @ ready)"
      using relax_wave_exact [OF less.prems(1), of ready "[]"] less.prems(2,4) by auto
    have "length (xs @ ready) \<le> n"
      using emission_facts [OF nx(4)] by (metis card_lessThan card_mono distinct_card finite_lessThan)
    then have "n - length (xs @ ready) < n - length xs" using False by (cases ready) auto
    then obtain ws where ws: "wave_loop key successors (pending_counts (set (xs @ ready))) (sort_key key nx) = Inr ws"
        "levels key (set (xs @ ready)) ws" "emission {..<n} E ((xs @ ready) @ concat ws)"
      using less.hyps [of "xs @ ready" "sort_key key nx"] nx by auto
    then have "wave_loop key successors (pending_counts (set xs)) ready = Inr (ready # ws)"
      using False nx(1) by (subst wave_loop.simps) simp
    with ws less.prems False show ?thesis by auto
  qed
qed

lemma levels_nth:
  "levels key D ws \<Longrightarrow> k < length ws \<Longrightarrow>
     ws ! k \<noteq> [] \<and> sorted (map key (ws ! k)) \<and>
     set (ws ! k) = startable {..<n} E (D \<union> set (concat (take k ws)))"
proof (induction ws arbitrary: D k)
  case (Cons w ws)
  then show ?case
    using Cons.IH [of "D \<union> set w" "k - 1"] by (cases k) (auto simp: Un_assoc)
qed simp

lemma levels_end: "levels key D ws \<Longrightarrow> startable {..<n} E (D \<union> set (concat ws)) = {}"
proof (induction ws arbitrary: D)
  case (Cons w ws)
  have "levels key (D \<union> set w) ws" using Cons.prems unfolding levels.simps by blast
  then have "startable {..<n} E ((D \<union> set w) \<union> set (concat ws)) = {}" by (rule Cons.IH)
  then show ?case by (simp only: concat.simps set_append Un_assoc)
qed simp

end

section \<open>Waves\<close>

interpretation lg: leveled_graph "length (rs_ops s)" "blocking s"
  "map (\<lambda>d. filter (\<lambda>i. (d, i) \<in> blocking s) [0..<length (rs_ops s)]) [0..<length (rs_ops s)]" for s
  using blocking_range by unfold_locales auto

lemma initial_startable:
  "finite E \<Longrightarrow> set (filter (\<lambda>i. waiting E {} i = 0) [0..<n]) = startable {..<n} E {}"
  by (auto simp: startable_waiting)

lemma wave_loop_runs:
  assumes "schedule_wf s"
  defines "n \<equiv> length (rs_ops s)"
  shows "\<exists>ws. wave_indices s = and_then (ensure (length (concat ws) = n)
                  (HErr ''ready-operation graph contains a cycle'')) (\<lambda>_. Inr ws) \<and>
           emission {..<n} (blocking s) (concat ws) \<and>
           startable {..<n} (blocking s) (set (concat ws)) = {} \<and>
           (\<forall>k < length ws. ws ! k \<noteq> [] \<and> sorted (map (order_key s) (ws ! k)) \<and>
              set (ws ! k) = startable {..<n} (blocking s) (set (concat (take k ws))))"
proof -
  let ?S = "map (\<lambda>d. filter (\<lambda>i. (d, i) \<in> blocking s) [0..<n]) [0..<n]"
  let ?r = "sort_key (order_key s) (filter (\<lambda>i. waiting (blocking s) {} i = 0) [0..<n])"
  have "set ?r = startable {..<n} (blocking s) (set [])"
    using initial_startable [OF finite_blocking [of s], of n] by simp
  then obtain ws where ws: "wave_loop (order_key s) ?S (map (waiting (blocking s) (set [])) [0..<n]) ?r = Inr ws"
      "lg.levels s (order_key s) (set []) ws" "emission {..<n} (blocking s) ([] @ concat ws)"
    using lg.wave_loop_exact [OF emission_Nil, of ?r "order_key s" s] unfolding n_def by auto
  have "filter (\<lambda>i. map (waiting (blocking s) {}) [0..<n] ! i = 0) [0..<n] =
      filter (\<lambda>i. waiting (blocking s) {} i = 0) [0..<n]"
    by (rule filter_cong) auto
  then have "wave_indices s = and_then (ensure (length (concat ws) = n)
      (HErr ''ready-operation graph contains a cycle'')) (\<lambda>_. Inr ws)"
    using ws(1) counting [OF assms(1)]
    by (simp add: wave_indices_def Let_def n_def length_concat)
  with ws lg.levels_nth [OF ws(2)] lg.levels_end [OF ws(2)] show ?thesis
    by (auto simp: n_def)
qed

lemma wave_indices_D:
  assumes "schedule_wf s" "wave_indices s = Inr ws"
  shows "emission {..<length (rs_ops s)} (blocking s) (concat ws)"
    and "k < length ws \<Longrightarrow>
           set (ws ! k) = startable {..<length (rs_ops s)} (blocking s) (set (concat (take k ws)))"
proof -
  obtain ws' where ws': "wave_indices s = and_then (ensure (length (concat ws') = length (rs_ops s))
        (HErr ''ready-operation graph contains a cycle'')) (\<lambda>_. Inr ws')"
      "emission {..<length (rs_ops s)} (blocking s) (concat ws')"
      "\<forall>k < length ws'. set (ws' ! k) = startable {..<length (rs_ops s)} (blocking s) (set (concat (take k ws')))"
    using wave_loop_runs [OF assms(1)] by blast
  then have "ws' = ws" using assms(2) by (cases "length (concat ws') = length (rs_ops s)") auto
  with ws' show "emission {..<length (rs_ops s)} (blocking s) (concat ws)"
    and "k < length ws \<Longrightarrow>
           set (ws ! k) = startable {..<length (rs_ops s)} (blocking s) (set (concat (take k ws)))"
    by simp_all
qed

text \<open>
  C7. The wave scheduler is exact. On a schedule whose blockers are in range and listed once, it
  fails, with the cycle error, exactly when the blocking relation is cyclic; otherwise every
  operation appears in exactly one wave, wave \<open>k\<close> is non-empty, sorted by stable ordinal, and
  consists of precisely the operations not yet scheduled whose blockers all lie in earlier waves.
\<close>

theorem waves_exact:
  assumes "schedule_wf s"
  shows "case wave_indices s of
           Inl e \<Rightarrow> e = HErr ''ready-operation graph contains a cycle'' \<and> \<not> acyclic (blocking s)
         | Inr ws \<Rightarrow> acyclic (blocking s) \<and> distinct (concat ws) \<and>
             set (concat ws) = {..<length (rs_ops s)} \<and>
             (\<forall>k < length ws. ws ! k \<noteq> [] \<and> sorted (map (order_key s) (ws ! k)) \<and>
                set (ws ! k) = {i \<in> {..<length (rs_ops s)}. i \<notin> set (concat (take k ws)) \<and>
                  (\<forall>d. (d, i) \<in> blocking s \<longrightarrow> d \<in> set (concat (take k ws)))})"
proof -
  let ?n = "length (rs_ops s)"
  obtain ws where ws: "wave_indices s = and_then (ensure (length (concat ws) = ?n)
        (HErr ''ready-operation graph contains a cycle'')) (\<lambda>_. Inr ws)"
      "emission {..<?n} (blocking s) (concat ws)"
      "startable {..<?n} (blocking s) (set (concat ws)) = {}"
      "\<forall>k < length ws. ws ! k \<noteq> [] \<and> sorted (map (order_key s) (ws ! k)) \<and>
         set (ws ! k) = startable {..<?n} (blocking s) (set (concat (take k ws)))"
    using wave_loop_runs [OF assms] by blast
  have count: "length (concat ws) = ?n \<longleftrightarrow> acyclic (blocking s)"
    using emission_count [OF finite_blocking _ blocking_range ws(2,3)] by simp
  show ?thesis
  proof (cases "acyclic (blocking s)")
    case True
    then have "set (concat ws) = {..<?n}"
      using emission_complete [OF finite_blocking _ blocking_range ws(2,3)] by simp
    with True count ws emission_facts(1) [OF ws(2)] show ?thesis by (simp add: startable_def)
  qed (use count ws(1) in simp)
qed

definition sample_diamond :: ready_schedule where
  "sample_diamond = \<lparr>rs_ops = map (\<lambda>(i, bs). \<lparr>ro_plan_node = i, ro_edge = i, ro_value_output = i,
     ro_inputs = [], ro_outputs = [i], ro_ordinal = 9 - i, ro_blocked_by = bs\<rparr>)
     [(0, []), (1, [0]), (2, [0]), (3, [1, 2])]\<rparr>"

theorem waves_exact_witness:
  "schedule_wf sample_diamond \<and> acyclic (blocking sample_diamond) \<and>
   wave_indices sample_diamond = Inr [[0], [2, 1], [3]]"
proof -
  have wf: "schedule_wf sample_diamond" by code_simp
  have run: "wave_indices sample_diamond = Inr [[0], [2, 1], [3]]" by code_simp
  from waves_exact [OF wf] run wf show ?thesis by simp
qed

end
