(* ===== verification/Ready_Laws.thy ===== *)
theory Ready_Laws
  imports Op_Acyclic Waves
begin

text \<open>
  The schedule derived from a validated graph: an operation is blocked by exactly the other
  operations that produce one of its inputs, so the blocking relation is the dependency relation
  the validator found acyclic, and every derived schedule can be launched to the end.
\<close>

section \<open>Producers\<close>

lemma register_outputs_exact:
  assumes "register_outputs m (k, info) = Inr m'"
  shows "map_of m' x = (if x \<in> set (ei_outputs info) then Some k else map_of m x)"
    and "x \<in> set (ei_outputs info) \<Longrightarrow> map_of m x = None"
proof -
  let ?P = "\<lambda>pre t. (\<forall>x. map_of t x = (if x \<in> set pre then Some k else map_of m x)) \<and>
    (\<forall>x \<in> set pre. map_of m x = None)"
  have "?P (ei_outputs info) m'"
  proof (rule try_fold_invariant [OF assms [unfolded register_outputs_def fst_conv snd_conv], where P = ?P], goal_cases)
    case (2 pre x t t')
    then have "map_of t x = None" "t' = AList.update x k t" by (auto split: if_splits)
    with 2(1) show ?case by (auto simp: update_conv')
  qed simp
  then show "map_of m' x = (if x \<in> set (ei_outputs info) then Some k else map_of m x)"
    and "x \<in> set (ei_outputs info) \<Longrightarrow> map_of m x = None" by auto
qed

lemma producers_exact:
  assumes "try_fold register_outputs [] (enumerate 0 infos) = Inr m"
  shows "map_of m x = Some k \<longleftrightarrow> k < length infos \<and> x \<in> set (ei_outputs (infos ! k))"
proof -
  let ?P = "\<lambda>pre t. \<forall>x k. map_of t x = Some k \<longleftrightarrow> (\<exists>info. (k, info) \<in> set pre \<and> x \<in> set (ei_outputs info))"
  have "?P (enumerate 0 infos) m"
  proof (rule try_fold_invariant [OF assms, where P = ?P], goal_cases)
    case (2 pre entry t t')
    obtain k info where entry: "entry = (k, info)" by (cases entry)
    show ?case
    proof (intro allI)
      fix x k'
      show "map_of t' x = Some k' \<longleftrightarrow> (\<exists>info. (k', info) \<in> set (pre @ [entry]) \<and> x \<in> set (ei_outputs info))"
        using 2(1) [rule_format, of x] register_outputs_exact [OF 2(2) [unfolded entry], of x]
        by (cases "x \<in> set (ei_outputs info)") (auto simp: entry)
    qed
  qed simp
  then show ?thesis by (auto simp: in_set_enumerate_eq)
qed

section \<open>Derived schedules\<close>

lemma derive_D:
  assumes "derive g = Inr s"
  obtains m where "validate_execution_graph g = Inr ()"
    "try_fold register_outputs [] (enumerate 0 (exec_ops_ordered g)) = Inr m"
    "rs_ops s = map (ready_op_of m) (enumerate 0 (exec_ops_ordered g))"
  using assms by (auto simp: derive_def Let_def result_simps)

lemma set_map_filter_Some: "set (List.map_filter f xs) = {y. \<exists>x \<in> set xs. f x = Some y}"
  by (force simp: List.map_filter_def)

lemma derived_op:
  assumes "derive g = Inr s"
  shows "length (rs_ops s) = length (exec_ops_ordered g)"
    and "i < length (exec_ops_ordered g) \<Longrightarrow> ro_plan_node (rs_ops s ! i) = ei_plan_node (exec_ops_ordered g ! i)"
    and "i < length (exec_ops_ordered g) \<Longrightarrow> ascending (ro_blocked_by (rs_ops s ! i))"
    and "i < length (exec_ops_ordered g) \<Longrightarrow> set (ro_blocked_by (rs_ops s ! i)) =
           {d. d < length (exec_ops_ordered g) \<and> d \<noteq> i \<and>
               set (ei_outputs (exec_ops_ordered g ! d)) \<inter> set (ei_inputs (exec_ops_ordered g ! i)) \<noteq> {}}"
proof -
  obtain m where m: "try_fold register_outputs [] (enumerate 0 (exec_ops_ordered g)) = Inr m"
      and ops: "rs_ops s = map (ready_op_of m) (enumerate 0 (exec_ops_ordered g))"
    using assms by (rule derive_D)
  show "length (rs_ops s) = length (exec_ops_ordered g)" by (simp add: ops)
  assume i: "i < length (exec_ops_ordered g)"
  then have op: "rs_ops s ! i = ready_op_of m (i, exec_ops_ordered g ! i)"
    by (simp add: ops nth_enumerate_eq)
  then show "ro_plan_node (rs_ops s ! i) = ei_plan_node (exec_ops_ordered g ! i)"
    "ascending (ro_blocked_by (rs_ops s ! i))" by (simp_all add: ready_op_of_def blockers_def)
  show "set (ro_blocked_by (rs_ops s ! i)) = {d. d < length (exec_ops_ordered g) \<and> d \<noteq> i \<and>
      set (ei_outputs (exec_ops_ordered g ! d)) \<inter> set (ei_inputs (exec_ops_ordered g ! i)) \<noteq> {}}"
    by (auto simp: op ready_op_of_def blockers_def set_map_filter_Some producers_exact [OF m])
qed

lemma derived_wf: "derive g = Inr s \<Longrightarrow> schedule_wf s"
  using derived_op [of g s] ascending_distinct by (fastforce simp: schedule_wf_def list_all_length list_all_iff)

lemma derived_blocking:
  assumes "derive g = Inr s"
  shows "(d, i) \<in> blocking s \<longleftrightarrow> d < length (exec_ops_ordered g) \<and> i < length (exec_ops_ordered g) \<and> d \<noteq> i \<and>
     set (ei_outputs (exec_ops_ordered g ! d)) \<inter> set (ei_inputs (exec_ops_ordered g ! i)) \<noteq> {}"
  using derived_op [OF assms] by (auto simp: blocking_def)

section \<open>Operations by index and by plan node\<close>

lemma set_exec_ops: "set (exec_ops_ordered g) = snd ` set (hg_op_map g)"
  by (simp add: exec_ops_ordered_def)

lemma length_exec_ops: "length (exec_ops_ordered g) = length (hg_op_map g)"
  by (simp add: exec_ops_ordered_def)

lemma plan_nodes_permute:
  assumes "\<forall>op \<in> set (hg_op_map g). operation_ok g op" "maps_ok g"
  shows "distinct (map ei_plan_node (exec_ops_ordered g))"
    and "set (map ei_plan_node (exec_ops_ordered g)) = fst ` set (hg_op_map g)"
    and "i < length (exec_ops_ordered g) \<Longrightarrow>
           (ei_plan_node (exec_ops_ordered g ! i), exec_ops_ordered g ! i) \<in> set (hg_op_map g)"
proof -
  have key: "ei_plan_node info = p" if "(p, info) \<in> set (hg_op_map g)" for p info
    using assms(1) that by (fastforce simp: operation_ok_def)
  then have "(ei_plan_node \<circ> snd) op = fst op" if "op \<in> set (hg_op_map g)" for op
    using that by (cases op) simp
  then have eq: "map ei_plan_node (map snd (hg_op_map g)) = map fst (hg_op_map g)" by simp
  show set: "set (map ei_plan_node (exec_ops_ordered g)) = fst ` set (hg_op_map g)"
    using eq set_exec_ops [of g] by (metis list.set_map)
  have "card (fst ` set (hg_op_map g)) = length (hg_op_map g)"
    using assms(2) by (metis distinct_card length_map list.set_map maps_ok_def)
  then show "distinct (map ei_plan_node (exec_ops_ordered g))"
    using set by (intro card_distinct) (simp add: length_exec_ops)
  show "(ei_plan_node (exec_ops_ordered g ! i), exec_ops_ordered g ! i) \<in> set (hg_op_map g)"
    if "i < length (exec_ops_ordered g)"
    using nth_mem [OF that] key by (auto simp: set_exec_ops)
qed

lemma blocking_op_deps:
  assumes "derive g = Inr s" "maps_ok g" "(d, i) \<in> blocking s"
  shows "(ei_plan_node (exec_ops_ordered g ! d), ei_plan_node (exec_ops_ordered g ! i)) \<in> op_deps g"
proof -
  obtain m where v: "validate_execution_graph g = Inr ()" using assms(1) by (rule derive_D)
  note sh = shapes_D [OF validated_D(2) [OF v]]
  obtain x where "d < length (exec_ops_ordered g)" "i < length (exec_ops_ordered g)"
      "x \<in> set (ei_outputs (exec_ops_ordered g ! d))" "x \<in> set (ei_inputs (exec_ops_ordered g ! i))"
    using assms(3) derived_blocking [OF assms(1)] by blast
  then show ?thesis
    using op_depsI [OF sh(1,2)] plan_nodes_permute(3) [OF sh(1) assms(2)] by blast
qed

lemma op_deps_blocking:
  assumes "derive g = Inr s" "maps_ok g" "d < length (exec_ops_ordered g)" "i < length (exec_ops_ordered g)"
    and "(ei_plan_node (exec_ops_ordered g ! d), ei_plan_node (exec_ops_ordered g ! i)) \<in> op_deps g"
  shows "(d, i) \<in> blocking s"
proof -
  obtain m where v: "validate_execution_graph g = Inr ()" using assms(1) by (rule derive_D)
  note sh = shapes_D [OF validated_D(2) [OF v]]
  obtain ip iq x where x: "(ei_plan_node (exec_ops_ordered g ! d), ip) \<in> set (hg_op_map g)"
      "(ei_plan_node (exec_ops_ordered g ! i), iq) \<in> set (hg_op_map g)"
      "x \<in> set (ei_outputs ip)" "x \<in> set (ei_inputs iq)"
    using assms(5) by (rule op_deps_D [OF validated_D(1,2) [OF v] assms(2)])
  then have "ip = exec_ops_ordered g ! d" "iq = exec_ops_ordered g ! i"
    using plan_nodes_permute(3) [OF sh(1) assms(2)] assms(3,4) op_for_iff [OF assms(2)]
    by (metis option.inject)+
  moreover have "d \<noteq> i"
    using sh(1) x plan_nodes_permute(3) [OF sh(1) assms(2) assms(4)] calculation
    by (fastforce simp: operation_ok_def)
  ultimately show ?thesis using x(3,4) assms(3,4) derived_blocking [OF assms(1)] by blast
qed

lemma trancl_image:
  "(x, y) \<in> R\<^sup>+ \<Longrightarrow> (\<And>a b. (a, b) \<in> R \<Longrightarrow> (f a, f b) \<in> S) \<Longrightarrow> (f x, f y) \<in> S\<^sup>+"
  by (induction rule: trancl_induct) (auto intro: trancl_into_trancl)

lemma derived_acyclic:
  assumes "derive g = Inr s" "maps_ok g"
  shows "acyclic (op_deps g)" and "acyclic (blocking s)"
proof -
  obtain m where v: "validate_execution_graph g = Inr ()" using assms(1) by (rule derive_D)
  note sh = shapes_D [OF validated_D(2) [OF v]]
  have "producers_known g"
    using producers_registered [OF validated_D(1,2) [OF v] assms(2)] by (simp add: producers_known_def)
  then show ac: "acyclic (op_deps g)"
    using acyclicity_runs [OF assms(2) _ sh(1,2)] validated_D(4) [OF v] by (metis ensure_eq_Inr)
  show "acyclic (blocking s)"
    unfolding acyclic_def
  proof (intro allI notI)
    fix i assume "(i, i) \<in> (blocking s)\<^sup>+"
    then show False
      using trancl_image [of i i "blocking s" "\<lambda>i. ei_plan_node (exec_ops_ordered g ! i)" "op_deps g"]
        blocking_op_deps [OF assms] ac by (auto simp: acyclic_def)
  qed
qed

section \<open>Launching\<close>

lemma try_fold_snoc: "try_fold f s (xs @ [x]) = and_then (try_fold f s xs) (\<lambda>t. f t x)"
  by (cases "try_fold f s xs") (auto simp: try_fold_append split: sum.splits)

lemma emission_keeps_order:
  assumes "emission K E xs"
  shows "keeps_order E xs"
  unfolding keeps_order_def
proof (intro allI impI)
  fix i j assume ij: "i < length xs" "j < length xs" "(xs ! i, xs ! j) \<in> E"
  have pos: "position xs (xs ! k) = k" if "k < length xs" for k
    using emission_facts(1) [OF assms] that
  proof (induction xs arbitrary: k)
    case (Cons x xs)
    then show ?case by (cases k) (auto simp: position_def)
  qed simp
  show "i < j"
    using emission_position [OF assms nth_mem [OF ij(2)] ij(3)] pos ij by simp
qed

lemma keeps_order_map:
  assumes "keeps_order R xs" "inj_on f (set xs)" "\<And>a b. a \<in> set xs \<Longrightarrow> b \<in> set xs \<Longrightarrow> (f a, f b) \<in> S \<Longrightarrow> (a, b) \<in> R"
  shows "keeps_order S (map f xs)"
  using assms by (auto simp: keeps_order_def)

lemma derived_waves:
  assumes "maps_ok g" "derive g = Inr s"
  shows "\<exists>ws. wave_indices s = Inr ws \<and> waves s = Inr (map (map (\<lambda>i. ro_plan_node (rs_ops s ! i))) ws) \<and>
           set (concat ws) = {..<length (rs_ops s)} \<and> distinct (concat ws) \<and>
           emission {..<length (rs_ops s)} (blocking s) (concat ws)"
proof -
  let ?n = "length (rs_ops s)"
  obtain ws where ws: "wave_indices s = and_then (ensure (length (concat ws) = ?n)
        (HErr ''ready-operation graph contains a cycle'')) (\<lambda>_. Inr ws)"
      "emission {..<?n} (blocking s) (concat ws)" "startable {..<?n} (blocking s) (set (concat ws)) = {}"
    using wave_loop_runs [OF derived_wf [OF assms(2)]] by blast
  have all: "set (concat ws) = {..<?n}" "distinct (concat ws)"
    using emission_complete [OF finite_blocking derived_acyclic(2) [OF assms(2,1)] blocking_range ws(2,3)]
      emission_facts(1) [OF ws(2)] by auto
  then have "length (concat ws) = ?n" by (metis card_lessThan distinct_card)
  with ws all show ?thesis by (auto simp: waves_def)
qed

text \<open>The waves name every registered operation once, after the producers of its inputs.\<close>

lemma derived_waves_cover:
  assumes "maps_ok g" "derive g = Inr s"
  shows "\<exists>ws. wave_indices s = Inr ws \<and> waves s = Inr (map (map (\<lambda>i. ro_plan_node (rs_ops s ! i))) ws) \<and>
     distinct (map (\<lambda>i. ro_plan_node (rs_ops s ! i)) (concat ws)) \<and>
     set (map (\<lambda>i. ro_plan_node (rs_ops s ! i)) (concat ws)) = fst ` set (hg_op_map g) \<and>
     keeps_order (op_deps g) (map (\<lambda>i. ro_plan_node (rs_ops s ! i)) (concat ws))"
proof -
  let ?n = "length (rs_ops s)" and ?f = "\<lambda>i. ro_plan_node (rs_ops s ! i)"
  obtain m where v: "validate_execution_graph g = Inr ()" using assms(2) by (rule derive_D)
  note perm = plan_nodes_permute [OF shapes_D(1) [OF validated_D(2) [OF v]] assms(1)]
  obtain ws where ws: "wave_indices s = Inr ws" "waves s = Inr (map (map ?f) ws)" "emission {..<?n} (blocking s) (concat ws)"
      and all: "set (concat ws) = {..<?n}" "distinct (concat ws)"
    using derived_waves [OF assms] by blast
  have names: "map ?f [0..<?n] = map ei_plan_node (exec_ops_ordered g)"
    using derived_op(1,2) [OF assms(2)] by (auto intro!: nth_equalityI)
  then have inj: "inj_on ?f {..<?n}" using perm(1) by (metis atLeast_upt distinct_map)
  have "set (map ?f (concat ws)) = fst ` set (hg_op_map g)"
    using perm(2) names all(1) by (metis atLeast_upt list.set_map)
  moreover have "distinct (map ?f (concat ws))" using all inj by (simp add: distinct_map)
  moreover have "keeps_order (op_deps g) (map ?f (concat ws))"
    using op_deps_blocking [OF assms(2,1)] derived_op(1,2) [OF assms(2)] all inj
    by (intro keeps_order_map [OF emission_keeps_order [OF ws(3)]]) auto
  ultimately show ?thesis using ws(1,2) by blast
qed

text \<open>
  C5. Every schedule derived from a graph launches to completion: derivation validates the graph,
  so the wave scheduler cannot report a cycle, and its launch order contains every registered
  operation exactly once and after every operation that produces one of its inputs.
\<close>

theorem derived_schedule_completes:
  assumes "maps_ok g" "derive g = Inr s"
  shows "\<exists>order. launch_order s = Inr order \<and> distinct order \<and>
           set order = fst ` set (hg_op_map g) \<and> keeps_order (op_deps g) order"
  using derived_waves_cover [OF assms] by (auto simp: launch_order_def map_concat)

text \<open>A small program with one writer and two readers of a binding, for concrete instances.\<close>

definition sample_bindings :: oir_program where
  "sample_bindings = \<lparr>prog_nodes = [Store ''x'' (Text ''a''), Load ''x'', Load ''x'']\<rparr>"

definition sample_graph :: hgraph where
  "sample_graph = (case build_program sample_bindings of Inl _ \<Rightarrow> empty_hgraph | Inr g \<Rightarrow> g)"

definition summaries_conflict :: "hgraph \<Rightarrow> nat \<Rightarrow> nat \<Rightarrow> bool option" where
  "summaries_conflict g p q =
     Option.bind (effect_summary_of g p) (\<lambda>a. map_option (conflicts_with a) (effect_summary_of g q))"

definition sample_expectations :: "hgraph \<Rightarrow> hgraph_error + ready_schedule \<Rightarrow> bool" where
  "sample_expectations g r =
     (case r of Inl _ \<Rightarrow> False | Inr s \<Rightarrow>
        maps_ok g \<and> (case hg_source_plan g of None \<Rightarrow> False | Some pl \<Rightarrow> topological_order pl = Inr [1, 0, 2, 3]) \<and>
        map ro_plan_node (rs_ops s) = [0, 2, 3] \<and> map ro_blocked_by (rs_ops s) = [[], [0], [0]] \<and>
        wave_indices s = Inr [[0], [1, 2]] \<and> map fst (hg_op_map g) = [0, 2, 3] \<and>
        list_all (\<lambda>i. is_autonomous_ephemeral g i = Inr False) (exec_ops_ordered g) \<and>
        summaries_conflict g 0 2 = Some True \<and> summaries_conflict g 2 3 = Some False)"

lemma sample_expectations: "sample_expectations sample_graph (derive sample_graph)"
  by code_simp

lemma sample_graph_facts:
  "\<exists>s pl. derive sample_graph = Inr s \<and> maps_ok sample_graph \<and> hg_source_plan sample_graph = Some pl \<and>
     topological_order pl = Inr [1, 0, 2, 3] \<and>
     map ro_plan_node (rs_ops s) = [0, 2, 3] \<and> wave_indices s = Inr [[0], [1, 2]] \<and>
     map fst (hg_op_map sample_graph) = [0, 2, 3] \<and>
     (\<forall>i < 3. is_autonomous_ephemeral sample_graph (exec_ops_ordered sample_graph ! i) = Inr False) \<and>
     summaries_conflict sample_graph 0 2 = Some True \<and> summaries_conflict sample_graph 2 3 = Some False"
proof -
  obtain s where s: "derive sample_graph = Inr s"
    using sample_expectations by (cases "derive sample_graph") (simp_all add: sample_expectations_def)
  note f = sample_expectations [unfolded s sample_expectations_def sum.case]
  have "length (map fst (hg_op_map sample_graph)) = length [0, 2, 3 :: nat]" using f by argo
  then have "length (exec_ops_ordered sample_graph) = 3" by (simp add: length_exec_ops)
  then have "\<forall>i < 3. is_autonomous_ephemeral sample_graph (exec_ops_ordered sample_graph ! i) = Inr False"
    using f by (simp add: list_all_length)
  moreover obtain pl where "hg_source_plan sample_graph = Some pl" "topological_order pl = Inr [1, 0, 2, 3]"
    using f by (auto split: option.splits)
  ultimately show ?thesis using f s by auto
qed

theorem derived_schedule_completes_witness:
  "\<exists>s order. derive sample_graph = Inr s \<and> launch_order s = Inr order \<and> distinct order \<and>
     set order = {0, 2, 3} \<and> keeps_order (op_deps sample_graph) order"
proof -
  obtain s pl where f: "derive sample_graph = Inr s" "maps_ok sample_graph"
      "map fst (hg_op_map sample_graph) = [0, 2, 3]"
    using sample_graph_facts by auto
  have "fst ` set (hg_op_map sample_graph) = {0, 2, 3}"
    using f(3) by (metis list.set_map list.simps(15) list.set(1))
  with derived_schedule_completes [OF f(2,1)] f(1) show ?thesis by auto
qed

text \<open>
  C14. The acyclicity validator is exact: on a graph whose nodes and operations passed the earlier
  checks it never panics, and it accepts exactly when no operation depends, directly or through
  others, on itself.
\<close>

theorem acyclicity_validator_exact:
  assumes "maps_ok g" "validate_node_kinds g = Inr ()" "validate_operation_shapes g = Inr ()"
  shows "validate_executable_acyclicity g =
     ensure (acyclic (op_deps g)) (HErr ''executable dependency graph contains a cycle'')"
  using acyclicity_runs [OF assms(1) _ shapes_D(1,2) [OF assms(3)]]
    producers_registered [OF assms(2,3,1)] by (simp add: producers_known_def)

theorem acyclicity_validator_exact_witness:
  "maps_ok sample_graph \<and> validate_node_kinds sample_graph = Inr () \<and>
   validate_operation_shapes sample_graph = Inr () \<and>
   validate_executable_acyclicity sample_graph = Inr () \<and> acyclic (op_deps sample_graph)"
proof -
  obtain s pl where f: "derive sample_graph = Inr s" "maps_ok sample_graph"
    using sample_graph_facts by auto
  obtain m where v: "validate_execution_graph sample_graph = Inr ()" using f(1) by (rule derive_D)
  from acyclicity_validator_exact [OF f(2) validated_D(1,2) [OF v]] validated_D(4) [OF v]
  have "acyclic (op_deps sample_graph)" by (metis ensure_eq_Inr)
  with f(2) validated_D [OF v] show ?thesis by blast
qed

end
