(* ===== verification/Race_Freedom.thy ===== *)
theory Race_Freedom
  imports Ready_Laws
begin

text \<open>
  Race freedom of derived schedules. The frontier replay of the validator forces every operation
  to consume the state node of the last writer of each resource it touches, and every writer to
  consume the completion tokens of the readers since then; so two operations that share a written
  resource are ordered by the dependency relation, unless an explicit autonomous group released
  one of them.
\<close>

section \<open>What the replay establishes for one resource\<close>

definition has_open_read :: "hgraph \<Rightarrow> expected_frontier \<Rightarrow> nat \<Rightarrow> bool" where
  "has_open_read g f p \<longleftrightarrow> (\<exists>c \<in> set (ef_open_reads f). completion_node g p = Some c)"

definition op_outputs :: "hgraph \<Rightarrow> nat \<Rightarrow> nat set" where
  "op_outputs g p = (case op_for g p of None \<Rightarrow> {} | Some info \<Rightarrow> set (ei_outputs info))"

text \<open>
  \<open>D\<close> are the operations that accessed the resource so far, \<open>W\<close> those that wrote it, and \<open>rank\<close>
  grows along the replayed order.
\<close>

definition ordered_accesses :: "hgraph \<Rightarrow> (nat \<Rightarrow> nat) \<Rightarrow> expected_frontier \<Rightarrow> nat set \<Rightarrow> nat set \<Rightarrow> bool" where
  "ordered_accesses g rank f D W \<longleftrightarrow> W \<subseteq> D \<and> (\<forall>p \<in> D. op_for g p \<noteq> None) \<and>
     (case ef_last_write f of
        None \<Rightarrow> W = {} \<and> (\<forall>p \<in> D. has_open_read g f p)
      | Some n \<Rightarrow> \<exists>w \<in> W. n \<in> op_outputs g w \<and>
          (\<forall>p \<in> D. p = w \<or> (p, w) \<in> (op_deps g)\<^sup>+ \<or> p \<notin> W \<and> has_open_read g f p)) \<and>
     (\<forall>p \<in> W. \<forall>q \<in> D. p = q \<or> rank p < rank q \<and> (p, q) \<in> (op_deps g)\<^sup>+ \<or>
        rank q < rank p \<and> (q, p) \<in> (op_deps g)\<^sup>+)"

definition graph_ok :: "hgraph \<Rightarrow> bool" where
  "graph_ok g \<longleftrightarrow> maps_ok g \<and> (\<forall>op \<in> set (hg_op_map g). operation_ok g op) \<and>
     distinct (map (ei_edge \<circ> snd) (hg_op_map g))"

lemma graph_ok_validated: "maps_ok g \<Longrightarrow> validate_execution_graph g = Inr () \<Longrightarrow> graph_ok g"
  using shapes_D [OF validated_D(2)] by (simp add: graph_ok_def)

lemma consumed_dep:
  assumes "graph_ok g" "op_for g q = Some info" "n \<in> op_outputs g p" "n \<in> set (ei_inputs info)"
  shows "(p, q) \<in> op_deps g"
proof -
  obtain ip where "op_for g p = Some ip" "n \<in> set (ei_outputs ip)"
    using assms(3) by (auto simp: op_outputs_def split: option.splits)
  then show ?thesis
    using assms op_depsI [of g p ip q info n] op_for_iff by (simp add: graph_ok_def)
qed

lemma completion_output:
  assumes "graph_ok g" "op_for g p = Some info" "completion_node g p = Some c"
  shows "c \<in> op_outputs g p"
proof -
  have "operation_ok g (p, info)" using assms(1,2) op_for_iff by (auto simp: graph_ok_def)
  then show ?thesis using assms(2,3) by (auto simp: operation_ok_def op_outputs_def)
qed

section \<open>One access\<close>

text \<open>The two outcomes of an access, for the frontier of its resource.\<close>

lemma frontier_access_D:
  assumes "frontier_access g initial info c writes fs r = Inr fs'"
  shows "case ef_last_write (frontier_of fs r) of None \<Rightarrow> True | Some n \<Rightarrow> n \<in> set (ei_inputs info)"
    and "r \<in> set writes \<Longrightarrow> set (ef_open_reads (frontier_of fs r)) \<subseteq> set (ei_inputs info) \<and>
           (\<exists>n \<in> set (ei_outputs info). ef_last_write (frontier_of fs' r) = Some n)"
    and "r \<notin> set writes \<Longrightarrow> ef_last_write (frontier_of fs' r) = ef_last_write (frontier_of fs r) \<and>
           set (ef_open_reads (frontier_of fs' r)) = insert c (set (ef_open_reads (frontier_of fs r)))"
    and "x \<noteq> r \<Longrightarrow> frontier_of fs' x = frontier_of fs x"
proof -
  let ?f = "frontier_of fs r"
  from assms show "case ef_last_write ?f of None \<Rightarrow> True | Some n \<Rightarrow> n \<in> set (ei_inputs info)"
    by (auto simp: frontier_access_def Let_def result_simps split: option.splits)
  show "set (ef_open_reads ?f) \<subseteq> set (ei_inputs info) \<and>
      (\<exists>n \<in> set (ei_outputs info). ef_last_write (frontier_of fs' r) = Some n)" if w: "r \<in> set writes"
  proof -
    from assms w obtain outs where o: "state_outputs g info r = Inr outs" "length outs = 1"
        "fs' = AList.update r \<lparr>ef_last_write = Some (fst (outs ! 0)), ef_open_reads = [],
                ef_version = ef_version ?f + 1\<rparr> fs"
        "\<forall>x \<in> set (ef_open_reads ?f). x \<in> set (ei_inputs info)"
      by (auto simp: frontier_access_def Let_def result_simps)
    obtain ks where ks: "list_all2 (\<lambda>i y. and_then (index_map (hg_nodes g) i) (\<lambda>n. Inr (i, hn_kind n)) = Inr y)
        (ei_outputs info) ks" "outs = List.map_filter (\<lambda>(i, k). case k of
            ResourceStateH c v \<Rightarrow> if c = r then Some (i, v) else None | _ \<Rightarrow> None) ks"
      using o(1) by (auto simp: state_outputs_def try_map_eq_Inr and_then_eq_Inr)
    have "map fst ks = ei_outputs info"
      using ks(1) by (induction rule: list_all2_induct) (auto simp: result_simps)
    moreover have "fst ` set outs \<subseteq> fst ` set ks"
      unfolding ks(2) by (force simp: set_map_filter_Some split: hnode_kind.splits if_splits)
    ultimately have "fst (outs ! 0) \<in> set (ei_outputs info)"
      using o(2) by (metis (no_types, lifting) image_subset_iff list.set_map nth_mem zero_less_one)
    then show ?thesis using o by (auto simp: frontier_of_def update_conv')
  qed
  show "r \<notin> set writes \<Longrightarrow> ef_last_write (frontier_of fs' r) = ef_last_write ?f \<and>
      set (ef_open_reads (frontier_of fs' r)) = insert c (set (ef_open_reads ?f))"
    using assms by (auto simp: frontier_access_def Let_def result_simps frontier_of_def update_conv')
  show "x \<noteq> r \<Longrightarrow> frontier_of fs' x = frontier_of fs x"
    using assms by (auto simp: frontier_access_def Let_def result_simps frontier_of_def update_conv'
        split: if_splits)
qed

lemma ordered_read:
  assumes "graph_ok g" "op_for g q = Some info" "ordered_accesses g rank f D W"
    and "case ef_last_write f of None \<Rightarrow> True | Some n \<Rightarrow> n \<in> set (ei_inputs info)"
    and "completion_node g q = Some c" "q \<notin> W"
    and "ef_last_write f' = ef_last_write f" "set (ef_open_reads f') = insert c (set (ef_open_reads f))"
    and "\<forall>p \<in> D. p = q \<or> rank p < rank q"
  shows "ordered_accesses g rank f' (insert q D) W"
proof -
  have open_mono: "has_open_read g f p \<Longrightarrow> has_open_read g f' p" for p
    using assms(8) by (auto simp: has_open_read_def)
  have q: "has_open_read g f' q" using assms(5,8) by (auto simp: has_open_read_def)
  show ?thesis
  proof (cases "ef_last_write f")
    case None
    then show ?thesis using assms(2,3,7) open_mono q by (auto simp: ordered_accesses_def)
  next
    case (Some n)
    then obtain w where w: "w \<in> W" "n \<in> op_outputs g w"
        "\<forall>p \<in> D. p = w \<or> (p, w) \<in> (op_deps g)\<^sup>+ \<or> p \<notin> W \<and> has_open_read g f p"
        "\<forall>p \<in> W. \<forall>q \<in> D. p = q \<or> rank p < rank q \<and> (p, q) \<in> (op_deps g)\<^sup>+ \<or>
          rank q < rank p \<and> (q, p) \<in> (op_deps g)\<^sup>+"
      using assms(3) by (auto simp: ordered_accesses_def)
    have wq: "(w, q) \<in> op_deps g"
      using consumed_dep [OF assms(1,2) w(2)] Some assms(4) by simp
    then have before: "(p, q) \<in> (op_deps g)\<^sup>+" if "p \<in> W" for p
      using that w(3) assms(3) by (auto simp: ordered_accesses_def intro: trancl_into_trancl)
    have "\<forall>p \<in> W. p = q \<or> rank p < rank q" using assms(3,9) by (auto simp: ordered_accesses_def)
    moreover have "\<forall>p \<in> insert q D. p = w \<or> (p, w) \<in> (op_deps g)\<^sup>+ \<or> p \<notin> W \<and> has_open_read g f' p"
      using w(3) open_mono q assms(6) by blast
    ultimately show ?thesis
      using Some w(1,2,4) before assms(2,3,7) by (auto simp: ordered_accesses_def)
  qed
qed

lemma ordered_write:
  assumes "graph_ok g" "op_for g q = Some info" "ordered_accesses g rank f D W"
    and "case ef_last_write f of None \<Rightarrow> True | Some n \<Rightarrow> n \<in> set (ei_inputs info)"
    and "set (ef_open_reads f) \<subseteq> set (ei_inputs info)"
    and "n' \<in> set (ei_outputs info)" "ef_last_write f' = Some n'"
    and "\<forall>p \<in> D. p = q \<or> rank p < rank q"
  shows "ordered_accesses g rank f' (insert q D) (insert q W)"
proof -
  have reader: "(p, q) \<in> op_deps g" if p: "p \<in> D" "has_open_read g f p" for p
  proof -
    obtain c where "completion_node g p = Some c" "c \<in> set (ei_inputs info)"
      using p(2) assms(5) by (auto simp: has_open_read_def)
    moreover obtain info' where "op_for g p = Some info'"
      using p(1) assms(3) unfolding ordered_accesses_def by blast
    ultimately show ?thesis
      using consumed_dep [OF assms(1,2) completion_output [OF assms(1)]] by blast
  qed
  have before: "(p, q) \<in> (op_deps g)\<^sup>+" if p: "p \<in> D" for p
  proof (cases "ef_last_write f")
    case None
    then show ?thesis using assms(3) reader p by (auto simp: ordered_accesses_def)
  next
    case (Some n)
    then obtain w where w: "n \<in> op_outputs g w" "p = w \<or> (p, w) \<in> (op_deps g)\<^sup>+ \<or> has_open_read g f p"
      using assms(3) p by (auto simp: ordered_accesses_def)
    have "(w, q) \<in> op_deps g" using consumed_dep [OF assms(1,2) w(1)] Some assms(4) by simp
    then show ?thesis using w(2) reader p by (auto intro: trancl_into_trancl)
  qed
  have "n' \<in> op_outputs g q" using assms(2,6) by (simp add: op_outputs_def)
  then show ?thesis
    using assms(2,3,7,8) before by (auto simp: ordered_accesses_def)
qed

section \<open>The whole replay\<close>

text \<open>The summary under which the replay tracks an operation; autonomous members are released.\<close>

definition tracked :: "hgraph \<Rightarrow> execution_plan \<Rightarrow> nat \<Rightarrow> effect_summary \<Rightarrow> bool" where
  "tracked g pl p s \<longleftrightarrow>
     (\<exists>info k ir. op_for g p = Some info \<and> kind_at pl p = Inr k \<and>
        effect_summary_for_plan_node p k = Inr s \<and>
        map_of (hg_ir_map g) (ei_value_output info) = Some ir \<and>
        autonomous_ephemeral_group pl p ir = Inr None)"

lemma tracked_unique: "tracked g pl p s \<Longrightarrow> tracked g pl p t \<Longrightarrow> s = t"
  by (auto simp: tracked_def)

definition accessors :: "hgraph \<Rightarrow> execution_plan \<Rightarrow> nat set \<Rightarrow> resource_key \<Rightarrow> nat set" where
  "accessors g pl P r = {p \<in> P. \<exists>s. tracked g pl p s \<and> r \<in> reads_of s \<union> writes_of s}"

definition writers :: "hgraph \<Rightarrow> execution_plan \<Rightarrow> nat set \<Rightarrow> resource_key \<Rightarrow> nat set" where
  "writers g pl P r = {p \<in> P. \<exists>s. tracked g pl p s \<and> r \<in> writes_of s}"

lemma accessors_insert:
  "accessors g pl (insert q P) r =
     (if \<exists>s. tracked g pl q s \<and> r \<in> reads_of s \<union> writes_of s then insert q (accessors g pl P r)
      else accessors g pl P r)"
  by (auto simp: accessors_def)

lemma writers_insert:
  "writers g pl (insert q P) r =
     (if \<exists>s. tracked g pl q s \<and> r \<in> writes_of s then insert q (writers g pl P r) else writers g pl P r)"
  by (auto simp: writers_def)

lemma replay_accesses:
  assumes "graph_ok g" "op_for g q = Some info" "completion_node g q = Some c"
    and "\<And>r. ordered_accesses g rank (frontier_of fs r) (D r) (W r)" "\<And>r. q \<notin> W r"
    and "try_fold (frontier_access g initial info c writes) fs rs = Inr fs'"
    and earlier: "\<And>r. \<forall>p \<in> D r. rank p < rank q"
  shows "ordered_accesses g rank (frontier_of fs' r) (if r \<in> set rs then insert q (D r) else D r)
           (if r \<in> set rs \<and> r \<in> set writes then insert q (W r) else W r)"
proof -
  let ?P = "\<lambda>pre fs. \<forall>r. ordered_accesses g rank (frontier_of fs r) (if r \<in> set pre then insert q (D r) else D r)
           (if r \<in> set pre \<and> r \<in> set writes then insert q (W r) else W r)"
  have "?P rs fs'"
  proof (rule try_fold_invariant [OF assms(6), where P = ?P], goal_cases)
    case (2 pre x t t')
    note fa = frontier_access_D [OF 2(2)]
    show ?case
    proof (intro allI)
      fix r
      let ?D = "if r \<in> set pre then insert q (D r) else D r"
      let ?W = "if r \<in> set pre \<and> r \<in> set writes then insert q (W r) else W r"
      have inv: "ordered_accesses g rank (frontier_of t r) ?D ?W" using 2(1) by blast
      have rank: "\<forall>p \<in> ?D. p = q \<or> rank p < rank q" using earlier by auto
      have same: "insert q ?D = insert q (D r)" "insert q ?W = insert q (W r)" by auto
      consider "r \<noteq> x" | "r = x" "x \<in> set writes" | "r = x" "x \<notin> set writes" by blast
      then show "ordered_accesses g rank (frontier_of t' r) (if r \<in> set (pre @ [x]) then insert q (D r) else D r)
           (if r \<in> set (pre @ [x]) \<and> r \<in> set writes then insert q (W r) else W r)"
      proof cases
        case 1
        then show ?thesis using inv fa(4) by simp
      next
        case 2
        then obtain n where "n \<in> set (ei_outputs info)" "ef_last_write (frontier_of t' r) = Some n"
            "set (ef_open_reads (frontier_of t r)) \<subseteq> set (ei_inputs info)"
          using fa(2) by blast
        then have "ordered_accesses g rank (frontier_of t' r) (insert q ?D) (insert q ?W)"
          using ordered_write [OF assms(1,2) inv _ _ _ _ rank] fa(1) 2(1) by blast
        then show ?thesis using 2 unfolding same by simp
      next
        case 3
        then have "q \<notin> ?W" using assms(5) by simp
        then have "ordered_accesses g rank (frontier_of t' r) (insert q ?D) ?W"
          using ordered_read [OF assms(1,2) inv _ assms(3) _ _ _ rank] fa(1,3) 3 by blast
        then show ?thesis using 3 unfolding same by simp
      qed
    qed
  qed (use assms(4) in simp)
  then show ?thesis by blast
qed

text \<open>The replay of one plan node: nothing without a tracked operation, else its accesses.\<close>

definition replay_accesses_of ::
  "hgraph \<Rightarrow> (resource_key \<times> nat) list \<Rightarrow> exec_info \<Rightarrow> nat \<Rightarrow> effect_summary \<Rightarrow> frontiers \<Rightarrow>
     hgraph_error + frontiers" where
  "replay_accesses_of g initial info q s fs =
     (case scheduling_accesses s of (reads, writes) \<Rightarrow>
      and_then (ok_or (completion_node g q) (HErr ''operation has no completion node'')) (\<lambda>c.
      try_fold (frontier_access g initial info c writes) fs (bt_extend reads writes)))"

lemma frontier_node_cases:
  assumes "frontier_node g pl initial fs q = Inr fs'"
  shows "(\<nexists>s. tracked g pl q s) \<and> fs' = fs \<or>
         (\<exists>s info. tracked g pl q s \<and> op_for g q = Some info \<and> replay_accesses_of g initial info q s fs = Inr fs')"
proof (cases "op_for g q")
  case None
  then show ?thesis using assms by (simp add: frontier_node_def tracked_def)
next
  case (Some info)
  with assms [unfolded frontier_node_def, folded replay_accesses_of_def] obtain k s ir m where k: "kind_at pl q = Inr k" "effect_summary_for_plan_node q k = Inr s"
      "map_of (hg_ir_map g) (ei_value_output info) = Some ir" "autonomous_ephemeral_group pl q ir = Inr m"
      "(if m \<noteq> None then Inr fs else replay_accesses_of g initial info q s fs) = Inr fs'"
    by (auto simp: and_then_eq_Inr ok_or_eq_Inr map_err_eq_Inr)
  show ?thesis
  proof (cases m)
    case None
    then have "tracked g pl q s" using Some k by (auto simp: tracked_def)
    then show ?thesis using None Some k(5) by auto
  next
    case (Some _)
    then show ?thesis using \<open>op_for g q = Some info\<close> k by (auto simp: tracked_def)
  qed
qed

lemma replay_node:
  assumes "graph_ok g" "frontier_node g pl initial fs q = Inr fs'" "q \<notin> P"
    and "\<And>r. ordered_accesses g rank (frontier_of fs r) (accessors g pl P r) (writers g pl P r)"
    and "\<forall>p \<in> P. rank p < rank q"
  shows "ordered_accesses g rank (frontier_of fs' r) (accessors g pl (insert q P) r) (writers g pl (insert q P) r)"
  using frontier_node_cases [OF assms(2)]
proof (elim disjE exE conjE)
  assume "\<nexists>s. tracked g pl q s" "fs' = fs"
  then show ?thesis using assms(4) by (simp add: accessors_insert writers_insert)
next
  fix s info
  assume s: "tracked g pl q s" "op_for g q = Some info" "replay_accesses_of g initial info q s fs = Inr fs'"
  then obtain c where c: "completion_node g q = Some c"
      "try_fold (frontier_access g initial info c (snd (scheduling_accesses s))) fs
         (bt_extend (fst (scheduling_accesses s)) (snd (scheduling_accesses s))) = Inr fs'"
    by (auto simp: replay_accesses_of_def and_then_eq_Inr ok_or_eq_Inr split: prod.splits)
  have not: "q \<notin> writers g pl P r" for r using assms(3) by (simp add: writers_def)
  have earlier: "\<forall>p \<in> accessors g pl P r. rank p < rank q" for r using assms(5) by (auto simp: accessors_def)
  have only: "(\<exists>t. tracked g pl q t \<and> Q t) \<longleftrightarrow> Q s" for Q using s(1) tracked_unique [OF s(1)] by blast
  from replay_accesses [OF assms(1) s(2) c(1) assms(4) not c(2) earlier, of r]
  show ?thesis
    unfolding accessors_insert writers_insert only
    by (cases "r \<in> writes_of s"; cases "r \<in> reads_of s") (simp_all add: reads_of_def writes_of_def)
qed

lemma replay_all:
  assumes "graph_ok g" "try_fold (frontier_node g pl initial) [] order = Inr fs" "distinct order"
    and "sorted_wrt (\<lambda>p q. rank p < rank q) order"
  shows "ordered_accesses g rank (frontier_of fs r) (accessors g pl (set order) r) (writers g pl (set order) r)"
proof -
  have "distinct pre \<Longrightarrow> sorted_wrt (\<lambda>p q. rank p < rank q) pre \<Longrightarrow>
      try_fold (frontier_node g pl initial) [] pre = Inr fs \<Longrightarrow>
      \<forall>r. ordered_accesses g rank (frontier_of fs r) (accessors g pl (set pre) r) (writers g pl (set pre) r)" for pre fs
  proof (induction pre arbitrary: fs rule: rev_induct)
    case Nil
    then show ?case
      by (auto simp: ordered_accesses_def accessors_def writers_def frontier_of_def default_frontier_def)
  next
    case (snoc q pre)
    then obtain t where "try_fold (frontier_node g pl initial) [] pre = Inr t"
        "frontier_node g pl initial t q = Inr fs"
      by (auto simp: try_fold_snoc result_simps)
    with snoc replay_node [OF assms(1), of pl initial t q fs "set pre" rank] show ?case
      by (simp add: sorted_wrt_append)
  qed
  then show ?thesis using assms(2-4) by blast
qed

section \<open>Conflicting operations\<close>

lemma try_fold_all_run:
  "try_fold f s xs = Inr s' \<Longrightarrow> x \<in> set xs \<Longrightarrow> \<exists>t t'. f t x = Inr t'"
  by (induction xs arbitrary: s) (auto split: sum.splits)

lemma frontiers_D:
  assumes "validate_source_resource_frontiers g pl = Inr ()"
  obtains initial order fs where "topological_order pl = Inr order"
    "try_fold (frontier_node g pl initial) [] order = Inr fs"
    "distinct order" "set order = {..<length (nodes pl)}"
proof -
  from assms obtain initial order fs where "topological_order pl = Inr order"
      "try_fold (frontier_node g pl initial) [] order = Inr fs"
    by (auto simp: validate_source_resource_frontiers_def result_simps)
  then show thesis
    using that topological_order_InrD(4) [of pl order] by (auto simp: linear_extension_def)
qed

lemma replayed_tracked:
  assumes "frontier_node g pl initial t p = Inr t'" "op_for g p = Some info" "ei_plan_node info = p"
    and "hg_source_plan g = Some pl" "is_autonomous_ephemeral g info = Inr False"
  shows "\<exists>s. tracked g pl p s"
proof -
  obtain k s ir m where "kind_at pl p = Inr k" "effect_summary_for_plan_node p k = Inr s"
      "map_of (hg_ir_map g) (ei_value_output info) = Some ir" "autonomous_ephemeral_group pl p ir = Inr m"
    using assms(1,2) by (auto simp: frontier_node_def and_then_eq_Inr ok_or_eq_Inr map_err_eq_Inr)
  moreover have "m = None"
    using calculation assms(3-5) by (simp add: is_autonomous_ephemeral_def map_err_def)
  ultimately show ?thesis using assms(2) by (auto simp: tracked_def)
qed

lemma distinct_ranks:
  assumes "distinct xs"
  shows "\<exists>rank. \<forall>i < length xs. rank (xs ! i) = i"
proof -
  have "inj_on (nth xs) {..<length xs}" using assms by (intro inj_on_nth) auto
  then have "\<forall>i < length xs. the_inv_into {..<length xs} (nth xs) (xs ! i) = i" by (simp add: the_inv_into_f_f)
  then show ?thesis by blast
qed

lemma conflicting_ops_dependent:
  assumes "maps_ok g" "validate_execution_graph g = Inr ()" "hg_source_plan g = Some pl"
    and "op_for g p = Some ip" "op_for g q = Some iq" "p \<noteq> q"
    and "is_autonomous_ephemeral g ip = Inr False" "is_autonomous_ephemeral g iq = Inr False"
    and "effect_summary_of g p = Some a" "effect_summary_of g q = Some b" "conflicts_with a b"
    and "topological_order pl = Inr order" "u < v" "v < length order" "order ! u = p" "order ! v = q"
  shows "(p, q) \<in> (op_deps g)\<^sup>+"
proof -
  have ok: "graph_ok g" using assms(1,2) by (rule graph_ok_validated)
  obtain vp where fr: "validate_source_resource_frontiers g pl = Inr ()"
    using validated_D(3) [OF assms(2)] assms(3) by (rule source_plan_D)
  obtain initial fs where o: "try_fold (frontier_node g pl initial) [] order = Inr fs"
      "distinct order" "set order = {..<length (nodes pl)}"
    using frontiers_D [OF fr] assms(12) by (metis sum.inject(2))
  obtain rank where rank: "\<And>i. i < length order \<Longrightarrow> rank (order ! i) = (i :: nat)"
    using distinct_ranks [OF o(2)] by blast
  then have grows: "sorted_wrt (\<lambda>p q. rank p < rank q) order" by (simp add: sorted_wrt_iff_nth_less)
  have tracked: "tracked g pl x s \<and> actor_in_footprint s \<and> x \<in> set order"
    if x: "op_for g x = Some info" "is_autonomous_ephemeral g info = Inr False" "effect_summary_of g x = Some s"
    for x info s
  proof -
    have "(x, info) \<in> set (hg_op_map g)" using x(1) op_for_iff [OF assms(1)] by blast
    then have "operation_ok g (x, info)" using ok by (simp add: graph_ok_def)
    then have "ei_plan_node info = x" by (simp add: operation_ok_def)
    moreover have lt: "x < length (nodes pl)" using operations_in_plan(1) [OF assms(2,3,1) x(1)] .
    then obtain t t' where "frontier_node g pl initial t x = Inr t'"
      using try_fold_all_run [OF o(1)] o(3) by blast
    ultimately obtain s' where s': "tracked g pl x s'"
      using replayed_tracked [OF _ x(1) _ assms(3) x(2)] by blast
    then have der: "effect_summary_for_plan_node x (node_kind (nodes pl ! x)) = Inr s'"
      using lt by (auto simp: tracked_def kind_at_def)
    then have "s' = s" using operations_in_plan(2) [OF assms(2,3,1) x(1)] x(3) by simp
    then show ?thesis using s' derived_actor_in_footprint [OF der] lt o(3) by simp
  qed
  note pa = tracked [OF assms(4,7,9)] and qb = tracked [OF assms(5,8,10)]
  then have "share_written_resource a b" using assms(11) conflicts_with_iff by blast
  then obtain r where "r \<in> writes_of a \<and> r \<in> reads_of b \<union> writes_of b \<or>
      r \<in> writes_of b \<and> r \<in> reads_of a \<union> writes_of a"
    by (auto simp: share_written_resource_def)
  moreover have pairs: "x = y \<or> rank x < rank y \<and> (x, y) \<in> (op_deps g)\<^sup>+ \<or> rank y < rank x \<and> (y, x) \<in> (op_deps g)\<^sup>+"
    if "x \<in> writers g pl (set order) r" "y \<in> accessors g pl (set order) r" for x y
    using replay_all [OF ok o(1,2) grows, of r] that unfolding ordered_accesses_def by blast
  moreover have "p \<in> accessors g pl (set order) r" if "r \<in> reads_of a \<union> writes_of a"
    using pa that by (auto simp: accessors_def)
  moreover have "q \<in> accessors g pl (set order) r" if "r \<in> reads_of b \<union> writes_of b"
    using qb that by (auto simp: accessors_def)
  moreover have "p \<in> writers g pl (set order) r" if "r \<in> writes_of a" using pa that by (auto simp: writers_def)
  moreover have "q \<in> writers g pl (set order) r" if "r \<in> writes_of b" using qb that by (auto simp: writers_def)
  moreover have "\<not> rank q < rank p" using rank [of u] rank [of v] assms(13-16) by simp
  ultimately show ?thesis using assms(6) pairs [of p q] pairs [of q p] by argo
qed

lemma op_deps_trancl_blocking:
  assumes "derive g = Inr s" "maps_ok g" "(p, q) \<in> (op_deps g)\<^sup>+"
    and "i < length (exec_ops_ordered g)" "p = ei_plan_node (exec_ops_ordered g ! i)"
    and "j < length (exec_ops_ordered g)" "q = ei_plan_node (exec_ops_ordered g ! j)"
  shows "(i, j) \<in> (blocking s)\<^sup>+"
proof -
  obtain m where v: "validate_execution_graph g = Inr ()" using assms(1) by (rule derive_D)
  note sh = shapes_D [OF validated_D(2) [OF v]]
  have index: "\<exists>d < length (exec_ops_ordered g). x = ei_plan_node (exec_ops_ordered g ! d)"
    if "x \<in> fst ` set (hg_op_map g)" for x
    using that plan_nodes_permute(2) [OF sh(1) assms(2)] by (metis in_set_conv_nth length_map nth_map)
  from assms(3,6,7) show ?thesis
  proof (induction arbitrary: j rule: trancl_induct)
    case (base y)
    then show ?case using op_deps_blocking [OF assms(1,2,4)] assms(5) by blast
  next
    case (step y z)
    have "y \<in> fst ` set (hg_op_map g)" using step.hyps(2) op_deps_range [OF sh(1,2)] by blast
    then obtain d where d: "d < length (exec_ops_ordered g)" "y = ei_plan_node (exec_ops_ordered g ! d)"
      using index by blast
    then have "(d, j) \<in> blocking s"
      using op_deps_blocking [OF assms(1,2) d(1) step.prems(1)] step.hyps(2) step.prems(2) by simp
    with step.IH [OF d] show ?case by (rule trancl_into_trancl)
  qed
qed

lemma conflicting_ops_blocked:
  assumes "maps_ok g" "derive g = Inr s" "hg_source_plan g = Some pl" "topological_order pl = Inr order"
    and ij: "i < length (rs_ops s)" "j < length (rs_ops s)"
    and uv: "u < v" "v < length order" "order ! u = ro_plan_node (rs_ops s ! i)" "order ! v = ro_plan_node (rs_ops s ! j)"
    and "is_autonomous_ephemeral g (exec_ops_ordered g ! i) = Inr False"
    and "is_autonomous_ephemeral g (exec_ops_ordered g ! j) = Inr False"
    and "effect_summary_of g (ro_plan_node (rs_ops s ! i)) = Some a"
    and "effect_summary_of g (ro_plan_node (rs_ops s ! j)) = Some b" "conflicts_with a b"
  shows "(i, j) \<in> (blocking s)\<^sup>+"
proof -
  let ?x = "exec_ops_ordered g ! i" and ?y = "exec_ops_ordered g ! j"
  obtain m where v: "validate_execution_graph g = Inr ()" using assms(2) by (rule derive_D)
  note perm = plan_nodes_permute [OF shapes_D(1) [OF validated_D(2) [OF v]] assms(1)]
  note d = derived_op [OF assms(2)]
  have lt: "i < length (exec_ops_ordered g)" "j < length (exec_ops_ordered g)" using ij d(1) by simp_all
  have ops: "op_for g (ei_plan_node ?x) = Some ?x" "op_for g (ei_plan_node ?y) = Some ?y"
    using perm(3) lt op_for_iff [OF assms(1)] by blast+
  have at: "order ! u = ei_plan_node ?x" "order ! v = ei_plan_node ?y" using uv d(2) lt by simp_all
  have "distinct order" using topological_order_InrD(4) [OF assms(4)] by (simp add: linear_extension_def)
  then have "ei_plan_node ?x \<noteq> ei_plan_node ?y"
    using uv(1,2) at by (metis less_trans nat_neq_iff nth_eq_iff_index_eq)
  then have "(ei_plan_node ?x, ei_plan_node ?y) \<in> (op_deps g)\<^sup>+"
    using conflicting_ops_dependent [OF assms(1) v assms(3) ops _ assms(11,12) _ _ assms(15,4) uv(1,2) at]
      assms(13,14) d(2) lt by simp
  then show ?thesis
    using op_deps_trancl_blocking [OF assms(2,1)] lt by blast
qed

lemma conflicts_with_sym: "conflicts_with a b \<Longrightarrow> conflicts_with b a"
  unfolding conflicts_with_split share_written_resource_def by (metis inf_commute)

lemma conflicting_ops_comparable:
  assumes "maps_ok g" "derive g = Inr s" "hg_source_plan g = Some pl"
    and ij: "i < length (rs_ops s)" "j < length (rs_ops s)" "i \<noteq> j"
    and free: "is_autonomous_ephemeral g (exec_ops_ordered g ! i) = Inr False"
      "is_autonomous_ephemeral g (exec_ops_ordered g ! j) = Inr False"
    and sums: "effect_summary_of g (ro_plan_node (rs_ops s ! i)) = Some a"
      "effect_summary_of g (ro_plan_node (rs_ops s ! j)) = Some b" "conflicts_with a b"
  shows "(i, j) \<in> (blocking s)\<^sup>+ \<or> (j, i) \<in> (blocking s)\<^sup>+"
proof -
  obtain m where v: "validate_execution_graph g = Inr ()" using assms(2) by (rule derive_D)
  note perm = plan_nodes_permute [OF shapes_D(1) [OF validated_D(2) [OF v]] assms(1)]
  note d = derived_op [OF assms(2)]
  obtain vp where fr: "validate_source_resource_frontiers g pl = Inr ()"
    using validated_D(3) [OF v] assms(3) by (rule source_plan_D)
  obtain initial order fs where order: "topological_order pl = Inr order" "set order = {..<length (nodes pl)}"
    using fr by (rule frontiers_D)
  have pos: "\<exists>u < length order. order ! u = ro_plan_node (rs_ops s ! x)" if "x < length (rs_ops s)" for x
    using that perm(3) [of x] d(1,2) operations_in_plan(1) [OF v assms(3,1)] op_for_iff [OF assms(1)] order(2)
    by (metis in_set_conv_nth lessThan_iff)
  obtain u w where uw: "u < length order" "order ! u = ro_plan_node (rs_ops s ! i)"
      "w < length order" "order ! w = ro_plan_node (rs_ops s ! j)"
    using pos ij(1,2) by blast
  have "ro_plan_node (rs_ops s ! i) \<noteq> ro_plan_node (rs_ops s ! j)"
    using perm(1) ij d(1,2) by (metis length_map nth_eq_iff_index_eq nth_map)
  then have "u < w \<or> w < u" using uw by (metis nat_neq_iff)
  then show ?thesis
  proof
    assume "u < w"
    then have "(i, j) \<in> (blocking s)\<^sup>+"
      by (rule conflicting_ops_blocked [OF assms(1-3) order(1) ij(1,2) _ uw(3,2,4) free sums])
    then show ?thesis by blast
  next
    assume "w < u"
    then have "(j, i) \<in> (blocking s)\<^sup>+"
      by (rule conflicting_ops_blocked [OF assms(1-3) order(1) ij(2,1) _ uw(1,4,2) free(2,1) sums(2,1)
            conflicts_with_sym [OF sums(3)]])
    then show ?thesis by blast
  qed
qed

text \<open>
  C2. Race freedom in source order. In the schedule derived from a graph with a source plan, an
  operation whose recorded effect summary conflicts with that of an earlier operation of the
  plan's topological order is blocked, directly or through others, by the earlier one, unless an
  explicit autonomous group exempted one of them from strict sequencing.
\<close>

theorem conflicting_operations_ordered:
  assumes "maps_ok g" "derive g = Inr s" "hg_source_plan g = Some pl" "topological_order pl = Inr order"
    and "i < length (rs_ops s)" "j < length (rs_ops s)"
    and "u < v" "v < length order" "order ! u = ro_plan_node (rs_ops s ! i)" "order ! v = ro_plan_node (rs_ops s ! j)"
    and "is_autonomous_ephemeral g (exec_ops_ordered g ! i) = Inr False"
    and "is_autonomous_ephemeral g (exec_ops_ordered g ! j) = Inr False"
    and "effect_summary_of g (ro_plan_node (rs_ops s ! i)) = Some a"
    and "effect_summary_of g (ro_plan_node (rs_ops s ! j)) = Some b" "conflicts_with a b"
  shows "(i, j) \<in> (blocking s)\<^sup>+"
  using assms by (rule conflicting_ops_blocked)

theorem conflicting_operations_ordered_witness:
  "\<exists>s. derive sample_graph = Inr s \<and> (0, 1) \<in> (blocking s)\<^sup>+"
proof -
  obtain s pl where f: "derive sample_graph = Inr s" "maps_ok sample_graph" "hg_source_plan sample_graph = Some pl"
      "topological_order pl = Inr [1, 0, 2, 3]" "map ro_plan_node (rs_ops s) = [0, 2, 3]"
      "\<forall>i < 3. is_autonomous_ephemeral sample_graph (exec_ops_ordered sample_graph ! i) = Inr False"
      "summaries_conflict sample_graph 0 2 = Some True"
    using sample_graph_facts by auto
  have "length (rs_ops s) = 3" using f(5) by (metis length_map length_Cons list.size(3) numeral_3_eq_3)
  moreover have "ro_plan_node (rs_ops s ! 0) = 0" "ro_plan_node (rs_ops s ! 1) = 2"
    using f(5) calculation nth_map [of 0 "rs_ops s" ro_plan_node] nth_map [of 1 "rs_ops s" ro_plan_node]
    by simp_all
  moreover obtain a b where "effect_summary_of sample_graph 0 = Some a" "effect_summary_of sample_graph 2 = Some b"
      "conflicts_with a b"
    using f(7) by (auto simp: summaries_conflict_def bind_eq_Some_conv)
  ultimately have "(0, 1) \<in> (blocking s)\<^sup>+"
    using conflicting_operations_ordered [OF f(2,1,3,4), of 0 1 1 2 a b] f(6) by simp
  with f(1) show ?thesis by blast
qed

section \<open>Waves\<close>

lemma earlier_closed:
  assumes "emission K E xs" "(u, v) \<in> E\<^sup>+" "\<forall>d. (d, v) \<in> E \<longrightarrow> d \<in> set xs"
  shows "u \<in> set xs"
proof -
  have closed: "x \<in> set xs" if "(x, y) \<in> E" "y \<in> set xs" for x y
    using emission_preds [OF assms(1) that(2,1)] by (rule set_takeWhileD [THEN conjunct1])
  from assms(2) show ?thesis
    using assms(3) by (induction rule: converse_trancl_induct) (auto intro: closed)
qed

lemma emission_prefix: "emission K E (xs @ ys) \<Longrightarrow> emission K E xs"
proof (induction ys rule: rev_induct)
  case (snoc y ys)
  from snoc.prems have "emission K E (xs @ ys)"
    by (cases rule: emission.cases) auto
  then show ?case by (rule snoc.IH)
qed simp

lemma same_wave_unordered:
  assumes "schedule_wf s" "wave_indices s = Inr ws" "k < length ws"
    and "i \<in> set (ws ! k)" "j \<in> set (ws ! k)"
  shows "(i, j) \<notin> (blocking s)\<^sup>+"
proof
  assume ij: "(i, j) \<in> (blocking s)\<^sup>+"
  let ?K = "{..<length (rs_ops s)}"
  note ws = wave_indices_D [OF assms(1,2)]
  have "concat ws = concat (take k ws) @ concat (drop k ws)" by (metis append_take_drop_id concat_append)
  then have em: "emission ?K (blocking s) (concat (take k ws))"
    using ws(1) emission_prefix by metis
  have "\<forall>d. (d, j) \<in> blocking s \<longrightarrow> d \<in> set (concat (take k ws))"
    using assms(5) unfolding ws(2) [OF assms(3)] startable_def by blast
  then have "i \<in> set (concat (take k ws))" by (rule earlier_closed [OF em ij])
  then show False using assms(4) unfolding ws(2) [OF assms(3)] startable_def by blast
qed

lemma waves_in_range:
  assumes "schedule_wf s" "wave_indices s = Inr ws" "k < length ws" "i \<in> set (ws ! k)"
  shows "i < length (rs_ops s)"
  using wave_indices_D(2) [OF assms(1-3)] assms(4) by (simp add: startable_def)

lemma wave_members_compatible:
  assumes "maps_ok g" "derive g = Inr s" "hg_source_plan g = Some pl" "wave_indices s = Inr ws"
    and "k < length ws" "i \<in> set (ws ! k)" "j \<in> set (ws ! k)" "i \<noteq> j"
    and "is_autonomous_ephemeral g (exec_ops_ordered g ! i) = Inr False"
    and "is_autonomous_ephemeral g (exec_ops_ordered g ! j) = Inr False"
    and "effect_summary_of g (ro_plan_node (rs_ops s ! i)) = Some a"
    and "effect_summary_of g (ro_plan_node (rs_ops s ! j)) = Some b"
  shows "\<not> conflicts_with a b"
proof -
  note wf = derived_wf [OF assms(2)]
  have range: "x < length (rs_ops s)" if "x \<in> set (ws ! k)" for x
    using waves_in_range [OF wf assms(4,5) that] .
  show ?thesis
    using conflicting_ops_comparable [OF assms(1-3) range range assms(8-12)] assms(6,7)
      same_wave_unordered [OF wf assms(4,5)] by blast
qed

text \<open>
  C4. A wave can run concurrently: two distinct operations of the same wave of a derived schedule,
  neither released by an autonomous group, never have conflicting effect summaries, so no
  resource that one of them writes is accessed by the other.
\<close>

theorem waves_conflict_free:
  assumes "maps_ok g" "derive g = Inr s" "hg_source_plan g = Some pl" "wave_indices s = Inr ws"
    and "k < length ws" "i \<in> set (ws ! k)" "j \<in> set (ws ! k)" "i \<noteq> j"
    and "is_autonomous_ephemeral g (exec_ops_ordered g ! i) = Inr False"
    and "is_autonomous_ephemeral g (exec_ops_ordered g ! j) = Inr False"
    and "effect_summary_of g (ro_plan_node (rs_ops s ! i)) = Some a"
    and "effect_summary_of g (ro_plan_node (rs_ops s ! j)) = Some b"
  shows "\<not> conflicts_with a b \<and> writes_of a \<inter> (reads_of b \<union> writes_of b) = {}"
  using wave_members_compatible [OF assms] conflicts_with_split by (auto simp: share_written_resource_def)

theorem waves_conflict_free_witness:
  "\<exists>s a b. derive sample_graph = Inr s \<and> wave_indices s = Inr [[0], [1, 2]] \<and>
     effect_summary_of sample_graph 2 = Some a \<and> effect_summary_of sample_graph 3 = Some b \<and>
     \<not> conflicts_with a b"
proof -
  obtain s pl where f: "derive sample_graph = Inr s" "maps_ok sample_graph" "hg_source_plan sample_graph = Some pl"
      "map ro_plan_node (rs_ops s) = [0, 2, 3]" "wave_indices s = Inr [[0], [1, 2]]"
      "\<forall>i < 3. is_autonomous_ephemeral sample_graph (exec_ops_ordered sample_graph ! i) = Inr False"
      "summaries_conflict sample_graph 2 3 = Some False"
    using sample_graph_facts by auto
  have "length (rs_ops s) = 3" using f(4) by (metis length_map length_Cons list.size(3) numeral_3_eq_3)
  then have names: "ro_plan_node (rs_ops s ! 1) = 2" "ro_plan_node (rs_ops s ! 2) = 3"
    using f(4) nth_map [of 1 "rs_ops s" ro_plan_node] nth_map [of 2 "rs_ops s" ro_plan_node]
    by simp_all
  obtain a b where ab: "effect_summary_of sample_graph 2 = Some a" "effect_summary_of sample_graph 3 = Some b"
    using f(7) by (auto simp: summaries_conflict_def bind_eq_Some_conv)
  have "\<not> conflicts_with a b"
    using waves_conflict_free [OF f(2,1,3,5), of 1 1 2 a b] names ab f(6) by simp
  with f ab show ?thesis by blast
qed

end
