(* ===== verification/Program_Schedule.thy ===== *)
theory Program_Schedule
  imports Graph_Build Race_Freedom
begin

text \<open>
  From a program to its schedule: the graph that the lowering builds (\<open>hgraph/from_oir.rs\<close>) always
  has a ready schedule (\<open>hgraph/schedule.rs\<close>), whose waves cover exactly the executable nodes of
  the plan, respect the dataflow of the plan and never put two conflicting operations together.
\<close>

section \<open>Derivation succeeds\<close>

lemma register_outputs_runs:
  assumes "distinct (ei_outputs info)" "\<forall>x \<in> set (ei_outputs info). map_of m x = None"
  shows "\<exists>m'. register_outputs m (k, info) = Inr m'"
proof -
  have "\<exists>m'. try_fold (\<lambda>m x. if map_of m x \<noteq> None then Inl (HErr ''node has multiple operation producers'')
      else Inr (AList.update x k m)) m xs = Inr m'"
    if "distinct xs" "\<forall>x \<in> set xs. map_of m x = None" for xs
    using that
  proof (induction xs arbitrary: m)
    case (Cons x xs)
    have "\<forall>y \<in> set xs. map_of (AList.update x k m) y = None" using Cons.prems by (auto simp: update_conv')
    from Cons.IH [OF _ this] Cons.prems show ?case by simp
  qed simp
  from this [OF assms] show ?thesis unfolding register_outputs_def fst_conv snd_conv .
qed

lemma register_all_runs:
  assumes "distinct (concat (map ei_outputs infos))" "\<forall>x \<in> set (concat (map ei_outputs infos)). map_of m x = None"
  shows "\<exists>m'. try_fold register_outputs m (enumerate k infos) = Inr m'"
  using assms
proof (induction infos arbitrary: m k)
  case (Cons info infos)
  obtain m1 where m1: "register_outputs m (k, info) = Inr m1"
    using register_outputs_runs [of info m k] Cons.prems by auto
  have "map_of m1 x = None" if "x \<in> set (concat (map ei_outputs infos))" for x
    using register_outputs_exact(1) [OF m1, of x] that Cons.prems by auto
  with Cons.IH [of m1 "Suc k"] Cons.prems m1 show ?case by auto
qed simp

lemma distinct_concat_disjoint:
  assumes "distinct xs" "\<And>x. x \<in> set xs \<Longrightarrow> distinct (f x)"
    and "\<And>x y. x \<in> set xs \<Longrightarrow> y \<in> set xs \<Longrightarrow> x \<noteq> y \<Longrightarrow> set (f x) \<inter> set (f y) = {}"
  shows "distinct (concat (map f xs))"
  using assms
proof (induction xs)
  case (Cons x xs)
  have "set (f x) \<inter> set (f y) = {}" if "y \<in> set xs" for y
    using Cons.prems(1) Cons.prems(3) [of x y] that by auto
  then show ?case using Cons by auto
qed simp

text \<open>Outputs of distinct operations are disjoint, because a node has one producer.\<close>

lemma validated_outputs_disjoint:
  assumes "validate_execution_graph g = Inr ()" "maps_ok g"
  shows "distinct (concat (map ei_outputs (exec_ops_ordered g)))"
proof (rule distinct_concat_disjoint)
  note sh = shapes_D [OF validated_D(2) [OF assms(1)]]
  note perm = plan_nodes_permute [OF sh(1) assms(2)]
  show "distinct (exec_ops_ordered g)" using perm(1) by (simp add: distinct_map)
  have reg: "(ei_plan_node x, x) \<in> set (hg_op_map g)" if "x \<in> set (exec_ops_ordered g)" for x
    using that perm(3) by (metis in_set_conv_nth)
  then have ok: "operation_ok g (ei_plan_node x, x)" if "x \<in> set (exec_ops_ordered g)" for x
    using that sh(1) by blast
  show "distinct (ei_outputs x)" if "x \<in> set (exec_ops_ordered g)" for x
    using ok [OF that] by (simp add: operation_ok_def)
  show "set (ei_outputs x) \<inter> set (ei_outputs y) = {}"
    if xy: "x \<in> set (exec_ops_ordered g)" "y \<in> set (exec_ops_ordered g)" "x \<noteq> y" for x y
  proof (rule ccontr)
    assume "set (ei_outputs x) \<inter> set (ei_outputs y) \<noteq> {}"
    then obtain i where "i \<in> set (ei_outputs x)" "i \<in> set (ei_outputs y)" by blast
    then have "ei_edge x = ei_edge y" using ok [OF xy(1)] ok [OF xy(2)] by (fastforce simp: operation_ok_def)
    then have "(ei_plan_node x, x) = (ei_plan_node y, y)"
      using inj_onD [OF conjunct2 [OF sh(2) [unfolded distinct_map]] _ reg [OF xy(1)] reg [OF xy(2)]] by simp
    then show False using xy(3) by simp
  qed
qed

text \<open>Every plan node is implemented by its operation, or is a literal without one.\<close>

lemma lowered_node:
  assumes "validate_execution_graph g = Inr ()" "hg_source_plan g = Some pl" "maps_ok g" "p < length (nodes pl)"
  obtains v where "node_kind (nodes pl ! p) = TextK" "op_for g p = None"
  | info e op where "op_for g p = Some info" "exec_edge g (ei_edge info) = Some e"
      "executable_op (node_kind (nodes pl ! p)) = Some op" "he_op e = ExecuteH op"
proof -
  obtain vp where vp: "validate pl (length (roots pl)) = Inr ()"
      "\<forall>pn \<in> set (nodes pl). check_plan_node g pl vp pn = Inr ()"
    using validated_D(3) [OF assms(1)] assms(2) by (rule source_plan_D)
  have id: "node_id (nodes pl ! p) = p" using vp(1) assms(4) by (simp add: validate_ok_iff)
  have check: "check_plan_node g pl vp (nodes pl ! p) = Inr ()" using vp(2) assms(4) by simp
  show thesis
  proof (cases "executable_op (node_kind (nodes pl ! p))")
    case None
    then show thesis
      using check that(1) by (auto simp: id check_plan_node_def check_literal_def and_then_eq_Inr ensure_eq_Inr)
  next
    case (Some op)
    then show thesis
      using check that(2)
      by (auto simp: id check_plan_node_def and_then_eq_Inr ensure_eq_Inr ok_or_eq_Inr index_map_def exec_edge_def)
  qed
qed

lemma lowered_operations:
  assumes "validate_execution_graph g = Inr ()" "hg_source_plan g = Some pl" "maps_ok g"
  shows "fst ` set (hg_op_map g) = {p. p < length (nodes pl) \<and> node_kind (nodes pl ! p) \<noteq> TextK}"
proof -
  have "p \<in> fst ` set (hg_op_map g) \<longleftrightarrow> (\<exists>info. op_for g p = Some info)" for p
    using op_for_iff [OF assms(3)] by force
  moreover have "(\<exists>info. op_for g p = Some info) \<longleftrightarrow> p < length (nodes pl) \<and> node_kind (nodes pl ! p) \<noteq> TextK" for p
  proof (cases "p < length (nodes pl)")
    case True
    show ?thesis by (rule lowered_node [OF assms True]) (use True in auto)
  next
    case False
    then show ?thesis using operations_in_plan(1) [OF assms] by blast
  qed
  ultimately show ?thesis by auto
qed

lemma executable_op_no_route: "executable_op k \<noteq> Some (SelectRouteX policy)"
  by (cases k rule: executable_op.cases) (auto split: execution_mode.splits)

lemma lowered_policy:
  assumes "validate_execution_graph g = Inr ()" "hg_source_plan g = Some pl" "maps_ok g" "op_for g p = Some info"
  shows "info_input_policy g info = Inr AllInputs"
proof -
  have lt: "p < length (nodes pl)" by (rule operations_in_plan(1) [OF assms])
  have "(p, info) \<in> set (hg_op_map g)" using assms(4) op_for_iff [OF assms(3)] by blast
  then have "operation_ok g (p, info)" using shapes_D(1) [OF validated_D(2) [OF assms(1)]] by blast
  then have p: "ei_plan_node info = p" by (simp add: operation_ok_def)
  obtain e op where e: "exec_edge g (ei_edge info) = Some e"
      "executable_op (node_kind (nodes pl ! p)) = Some op" "he_op e = ExecuteH op"
    using lowered_node [OF assms(1-3) lt] assms(4) by (metis option.distinct(1) option.inject)
  then show ?thesis
    using assms(4) executable_op_no_route by (auto simp: p info_input_policy_def split: executable_op.splits)
qed

lemma derive_lowered:
  assumes "validate_execution_graph g = Inr ()" "hg_source_plan g = Some pl" "maps_ok g"
  shows "\<exists>s. derive g = Inr s"
proof -
  note perm = plan_nodes_permute [OF shapes_D(1) [OF validated_D(2) [OF assms(1)]] assms(3)]
  obtain m where "try_fold register_outputs [] (enumerate 0 (exec_ops_ordered g)) = Inr m"
    using register_all_runs [OF validated_outputs_disjoint [OF assms(1,3)]] by fastforce
  moreover have "info_input_policy g x = Inr AllInputs" if "x \<in> set (exec_ops_ordered g)" for x
    using that perm(3) lowered_policy [OF assms] op_for_iff [OF assms(3)] by (metis in_set_conv_nth)
  then have "for_each (\<lambda>info. and_then (info_input_policy g info) (\<lambda>_. Inr ())) (exec_ops_ordered g) = Inr ()"
    by (simp add: for_each_eq_Inr)
  ultimately show ?thesis using assms(1) by (simp add: derive_def Let_def)
qed

section \<open>Dataflow of the plan\<close>

definition plan_dataflow :: "execution_plan \<Rightarrow> (nat \<times> nat) set" where
  "plan_dataflow pl = {(edge_from e, edge_to e) |e. e \<in> set (edges pl) \<and> (edge_kind e = Structural \<or> edge_kind e = Data)}"

lemma expected_inputs_D:
  assumes "expected_value_inputs pl vp q = Inr vs" "(p, q) \<in> plan_dataflow pl"
  shows "\<exists>v \<in> set vs. map_of vp p = Some v"
proof -
  obtain e where e: "e \<in> set (edges pl)" "edge_kind e = Structural \<or> edge_kind e = Data" "p = edge_from e" "q = edge_to e"
    using assms(2) by (auto simp: plan_dataflow_def)
  let ?es = "filter (\<lambda>e. edge_to e = q \<and> (edge_kind e = Structural \<or> edge_kind e = Data)) (edges pl)"
  obtain us where us: "list_all2 (\<lambda>e v. index_map vp (edge_from e) = Inr v) ?es us" "vs = bt_from us"
    using assms(1) by (auto simp: expected_value_inputs_def and_then_eq_Inr try_map_eq_Inr)
  have "e \<in> set ?es" using e by simp
  then obtain i where i: "i < length ?es" "?es ! i = e" by (auto simp only: in_set_conv_nth)
  have "index_map vp p = Inr (us ! i)" "us ! i \<in> set us"
    using list_all2_nthD [OF us(1) i(1)] i(1) list_all2_lengthD [OF us(1)] unfolding i(2) e(3) by auto
  then show ?thesis using us(2) by (auto simp: index_map_def ok_or_eq_Inr)
qed

lemma actual_inputs_D:
  assumes "actual_value_inputs g info = Inr vs"
  shows "set vs \<subseteq> set (ei_inputs info)"
proof -
  obtain us where us: "list_all2 (\<lambda>i y. and_then (index_map (hg_nodes g) i) (\<lambda>n. Inr (i, is_value_node n)) = Inr y)
      (ei_inputs info) us" "vs = bt_from (map fst (filter snd us))"
    using assms by (auto simp: actual_value_inputs_def and_then_eq_Inr try_map_eq_Inr)
  have "map fst us = ei_inputs info"
    using us(1) by (induction rule: list_all2_induct) (auto simp: and_then_eq_Inr)
  then show ?thesis using us(2) by (metis filter_is_subset image_mono list.set_map set_bt_from)
qed

lemma check_plan_node_D:
  assumes "check_plan_node g pl vp pn = Inr ()" "op_for g (node_id pn) = Some info"
  shows "map_of vp (node_id pn) = Some (ei_value_output info) \<and>
     (\<exists>vs. expected_value_inputs pl vp (node_id pn) = Inr vs \<and> actual_value_inputs g info = Inr vs)"
proof (cases "executable_op (node_kind pn)")
  case None
  then show ?thesis using assms by (auto simp: check_plan_node_def check_literal_def and_then_eq_Inr ensure_eq_Inr)
next
  case (Some op)
  then show ?thesis
    using assms by (auto simp: check_plan_node_def and_then_eq_Inr ensure_eq_Inr ok_or_eq_Inr index_map_def)
qed

lemma plan_dataflow_deps:
  assumes "validate_execution_graph g = Inr ()" "hg_source_plan g = Some pl" "maps_ok g"
    and "(p, q) \<in> plan_dataflow pl" "op_for g p = Some ip" "op_for g q = Some iq"
  shows "(p, q) \<in> op_deps g"
proof -
  note sh = shapes_D [OF validated_D(2) [OF assms(1)]]
  obtain vp where vp: "validate pl (length (roots pl)) = Inr ()"
      "\<forall>pn \<in> set (nodes pl). check_plan_node g pl vp pn = Inr ()"
    using validated_D(3) [OF assms(1)] assms(2) by (rule source_plan_D)
  have lt: "p < length (nodes pl)" "q < length (nodes pl)"
    using operations_in_plan(1) [OF assms(1-3)] assms(5,6) by blast+
  then have id: "node_id (nodes pl ! p) = p" "node_id (nodes pl ! q) = q"
    and check: "check_plan_node g pl vp (nodes pl ! p) = Inr ()" "check_plan_node g pl vp (nodes pl ! q) = Inr ()"
    using vp by (simp_all add: validate_ok_iff)
  have "map_of vp p = Some (ei_value_output ip)"
    using check_plan_node_D [OF check(1)] assms(5) id by simp
  moreover obtain vs where "expected_value_inputs pl vp q = Inr vs" "actual_value_inputs g iq = Inr vs"
    using check_plan_node_D [OF check(2)] assms(6) id by auto
  ultimately have "ei_value_output ip \<in> set (ei_inputs iq)"
    using expected_inputs_D [OF _ assms(4)] actual_inputs_D by fastforce
  moreover have reg: "(p, ip) \<in> set (hg_op_map g)" "(q, iq) \<in> set (hg_op_map g)"
    using assms(5,6) op_for_iff [OF assms(3)] by blast+
  then have "ei_value_output ip \<in> set (ei_outputs ip)" using sh(1) by (fastforce simp: operation_ok_def)
  ultimately show ?thesis using op_depsI [OF sh(1,2) reg] by blast
qed

section \<open>Waves separate what is ordered\<close>

definition wave_before :: "nat list list \<Rightarrow> nat \<Rightarrow> nat \<Rightarrow> bool" where
  "wave_before ws p q \<longleftrightarrow> (\<exists>l < length ws. \<exists>k < l. p \<in> set (ws ! k) \<and> q \<in> set (ws ! l))"

lemma in_earlier_wave:
  assumes "x \<in> set (concat (take l ws))"
  shows "\<exists>k < l. k < length ws \<and> x \<in> set (ws ! k)"
proof -
  obtain w where w: "w \<in> set (take l ws)" "x \<in> set w" using assms by auto
  from w(1) obtain k where "k < length (take l ws)" "take l ws ! k = w" by (auto simp only: in_set_conv_nth)
  with w(2) show ?thesis by auto
qed

lemma blocker_earlier:
  assumes "schedule_wf s" "wave_indices s = Inr ws" "(i, j) \<in> blocking s" "l < length ws" "j \<in> set (ws ! l)"
  shows "\<exists>k < l. k < length ws \<and> i \<in> set (ws ! k)"
proof (rule in_earlier_wave)
  have "j \<in> startable {..<length (rs_ops s)} (blocking s) (set (concat (take l ws)))"
    using wave_indices_D(2) [OF assms(1,2,4)] assms(5) by blast
  then show "i \<in> set (concat (take l ws))" using assms(3) unfolding startable_def by blast
qed

lemma blocking_waves:
  assumes "schedule_wf s" "wave_indices s = Inr ws" "(i, j) \<in> (blocking s)\<^sup>+" "l < length ws" "j \<in> set (ws ! l)"
  shows "\<exists>k < l. i \<in> set (ws ! k)"
  using assms(3-5)
proof (induction arbitrary: l rule: trancl_induct)
  case (base j)
  from blocker_earlier [OF assms(1,2) this] show ?case by blast
next
  case (step d j)
  from blocker_earlier [OF assms(1,2) step.hyps(2) step.prems]
  obtain k where "k < l" "k < length ws" "d \<in> set (ws ! k)" by blast
  with step.IH [of k] show ?case by (meson less_trans)
qed

lemma blocking_wave_before:
  assumes "schedule_wf s" "wave_indices s = Inr ws" "set (concat ws) = {..<length (rs_ops s)}" "(i, j) \<in> (blocking s)\<^sup>+"
  shows "wave_before (map (map f) ws) (f i) (f j)"
proof -
  have "j \<in> set (concat ws)" using trancl_subset_Sigma [OF blocking_range] assms(3,4) by blast
  then obtain l where l: "l < length ws" "j \<in> set (ws ! l)"
    using in_earlier_wave [of j "length ws" ws] by auto
  from blocking_waves [OF assms(1,2,4) l] obtain k where "k < l" "i \<in> set (ws ! k)" by blast
  with l show ?thesis unfolding wave_before_def by (intro exI [of _ l] conjI exI [of _ k]) auto
qed

section \<open>Programs\<close>

text \<open>
  Two operations that must keep their source order: their effect summaries conflict, neither was
  released by an autonomous group, and the first comes first in the topological order of the plan.
\<close>

definition strict_op :: "hgraph \<Rightarrow> nat \<Rightarrow> bool" where
  "strict_op g p \<longleftrightarrow> (\<exists>info. op_for g p = Some info \<and> is_autonomous_ephemeral g info = Inr False)"

definition source_conflict :: "hgraph \<Rightarrow> execution_plan \<Rightarrow> nat \<Rightarrow> nat \<Rightarrow> bool" where
  "source_conflict g pl p q \<longleftrightarrow> strict_op g p \<and> strict_op g q \<and>
     (\<exists>a b. effect_summary_for_plan_node p (node_kind (nodes pl ! p)) = Inr a \<and>
        effect_summary_for_plan_node q (node_kind (nodes pl ! q)) = Inr b \<and> conflicts_with a b) \<and>
     (\<exists>order u v. topological_order pl = Inr order \<and> u < v \<and> v < length order \<and> order ! u = p \<and> order ! v = q)"

lemma schedule_index:
  assumes "maps_ok g" "derive g = Inr s" "op_for g p = Some info"
  shows "\<exists>i < length (rs_ops s). ro_plan_node (rs_ops s ! i) = p \<and> exec_ops_ordered g ! i = info"
proof -
  obtain m where v: "validate_execution_graph g = Inr ()" using assms(2) by (rule derive_D)
  note perm = plan_nodes_permute [OF shapes_D(1) [OF validated_D(2) [OF v]] assms(1)]
  have "p \<in> fst ` set (hg_op_map g)" using assms(3) op_for_iff [OF assms(1)] by force
  then obtain i where i: "i < length (exec_ops_ordered g)" "ei_plan_node (exec_ops_ordered g ! i) = p"
    using perm(2) by (metis in_set_conv_nth length_map nth_map)
  then have "op_for g p = Some (exec_ops_ordered g ! i)" using perm(3) op_for_iff [OF assms(1)] by blast
  then show ?thesis using i assms(3) derived_op(1,2) [OF assms(2)] by auto
qed

lemma source_conflict_blocked:
  assumes "maps_ok g" "derive g = Inr s" "hg_source_plan g = Some pl" "source_conflict g pl p q"
  shows "\<exists>i j. (i, j) \<in> (blocking s)\<^sup>+ \<and> ro_plan_node (rs_ops s ! i) = p \<and> ro_plan_node (rs_ops s ! j) = q"
proof -
  obtain m where val: "validate_execution_graph g = Inr ()" using assms(2) by (rule derive_D)
  from assms(4) obtain ip iq a b order u v where c: "op_for g p = Some ip" "op_for g q = Some iq"
      "is_autonomous_ephemeral g ip = Inr False" "is_autonomous_ephemeral g iq = Inr False"
      "effect_summary_for_plan_node p (node_kind (nodes pl ! p)) = Inr a"
      "effect_summary_for_plan_node q (node_kind (nodes pl ! q)) = Inr b" "conflicts_with a b"
      "topological_order pl = Inr order" "u < v" "v < length order" "order ! u = p" "order ! v = q"
    unfolding source_conflict_def strict_op_def by blast
  obtain i where i: "i < length (rs_ops s)" "ro_plan_node (rs_ops s ! i) = p" "exec_ops_ordered g ! i = ip"
    using schedule_index [OF assms(1,2) c(1)] by blast
  obtain j where j: "j < length (rs_ops s)" "ro_plan_node (rs_ops s ! j) = q" "exec_ops_ordered g ! j = iq"
    using schedule_index [OF assms(1,2) c(2)] by blast
  have "effect_summary_of g p = Some a" "effect_summary_of g q = Some b"
    using operations_in_plan(2) [OF val assms(3,1)] c(1,2,5,6) by blast+
  then have "(i, j) \<in> (blocking s)\<^sup>+"
    using conflicting_ops_blocked [OF assms(1-3) c(8) i(1) j(1) c(9,10), of a b] c i j by simp
  with i(2) j(2) show ?thesis by blast
qed

lemma lowered_schedule:
  assumes "validate_execution_graph g = Inr ()" "hg_source_plan g = Some pl" "maps_ok g"
  shows "\<exists>s ws. derive g = Inr s \<and> waves s = Inr ws \<and> distinct (concat ws) \<and>
     set (concat ws) = {p. p < length (nodes pl) \<and> node_kind (nodes pl ! p) \<noteq> TextK} \<and>
     (\<forall>p \<in> set (concat ws). \<forall>q \<in> set (concat ws).
        (p, q) \<in> plan_dataflow pl \<or> source_conflict g pl p q \<longrightarrow> wave_before ws p q)"
proof -
  obtain s where s: "derive g = Inr s" using derive_lowered [OF assms] by blast
  let ?f = "\<lambda>i. ro_plan_node (rs_ops s ! i)"
  obtain ws where ws: "wave_indices s = Inr ws" "waves s = Inr (map (map ?f) ws)" "distinct (map ?f (concat ws))"
      "set (map ?f (concat ws)) = fst ` set (hg_op_map g)"
    using derived_waves_cover [OF assms(3) s] by blast
  have all: "set (concat ws) = {..<length (rs_ops s)}" using derived_waves [OF assms(3) s] ws(1) by auto
  have before: "wave_before (map (map ?f) ws) (?f i) (?f j)" if "(i, j) \<in> (blocking s)\<^sup>+" for i j
    by (rule blocking_wave_before [OF derived_wf [OF s] ws(1) all that])
  have "wave_before (map (map ?f) ws) p q"
    if pq: "p \<in> fst ` set (hg_op_map g)" "q \<in> fst ` set (hg_op_map g)" "(p, q) \<in> plan_dataflow pl" for p q
  proof -
    obtain ip iq where ops: "op_for g p = Some ip" "op_for g q = Some iq"
      using pq(1,2) op_for_iff [OF assms(3)] by force
    have dep: "(p, q) \<in> op_deps g" by (rule plan_dataflow_deps [OF assms pq(3) ops])
    obtain i j where ij: "i < length (rs_ops s)" "?f i = p" "j < length (rs_ops s)" "?f j = q"
      using schedule_index [OF assms(3) s] ops by meson
    have "(i, j) \<in> blocking s"
      using op_deps_blocking [OF s assms(3)] dep ij derived_op(1,2) [OF s] by simp
    then show ?thesis using before [of i j] ij by auto
  qed
  moreover have "wave_before (map (map ?f) ws) p q" if "source_conflict g pl p q" for p q
    using source_conflict_blocked [OF assms(3) s assms(2) that] before by blast
  ultimately show ?thesis
    using s ws lowered_operations [OF assms] by (intro exI [of _ s] exI [of _ "map (map ?f) ws"]) (auto simp: map_concat)
qed

lemma built_program:
  assumes "build_program program = Inr g"
  shows "built (Some (plan program)) g \<and> validate_execution_graph g = Inr ()"
  using assms lowering_steps [of program "plan program" g] by (auto simp: build_program_def split: sum.splits)

lemma sample_program_built: "build_program sample_bindings = Inr sample_graph"
proof (cases "build_program sample_bindings")
  case (Inl e)
  then have "hg_source_plan sample_graph = None" by (simp add: sample_graph_def empty_hgraph_def)
  then show ?thesis using sample_graph_facts by auto
qed (simp add: sample_graph_def)

text \<open>
  C8. Every graph that the mutators can build is consistent: identifiers are allocated once and
  below the counters, each registered operation has its own executable edge with exactly its
  ports, inputs and outputs are distinct existing nodes, every output names that edge as its
  producer, and every producer names an operation that lists the node among its outputs.
\<close>

theorem built_graphs_consistent:
  assumes "built src g"
  shows "graph_inv g \<and> hg_source_plan g = src"
  using built_inv [OF assms] built_source_plan [OF assms] by simp

theorem built_graphs_consistent_witness:
  "built (Some (plan sample_bindings)) sample_graph \<and> graph_inv sample_graph \<and>
   hg_source_plan sample_graph = Some (plan sample_bindings)"
proof -
  have "built (Some (plan sample_bindings)) sample_graph" using built_program [OF sample_program_built] by blast
  with built_graphs_consistent [OF this] show ?thesis by blast
qed

end
