(* ===== verification/Warshall.thy ===== *)
theory Warshall
  imports O_Prelude
begin

text \<open>
  In-place transitive closure of a boolean matrix, as the confluence checker computes it
  (\<open>hgraph/semantics.rs\<close>), and its equivalence with the transitive closure of the relation
  the matrix starts from.
\<close>

type_synonym matrix = "bool list list"

definition entry :: "matrix \<Rightarrow> nat \<Rightarrow> nat \<Rightarrow> bool" where
  "entry M i j = M ! i ! j"

definition set_entry :: "nat \<Rightarrow> nat \<Rightarrow> bool \<Rightarrow> matrix \<Rightarrow> matrix" where
  "set_entry i j b M = M[i := (M ! i)[j := b]]"

definition close_entry :: "nat \<Rightarrow> nat \<Rightarrow> nat \<Rightarrow> matrix \<Rightarrow> matrix" where
  "close_entry k i j M = set_entry i j (entry M i j \<or> entry M i k \<and> entry M k j) M"

definition close_row :: "nat \<Rightarrow> nat \<Rightarrow> nat \<Rightarrow> matrix \<Rightarrow> matrix" where
  "close_row m k i M = fold (close_entry k i) [0..<m] M"

definition close_via :: "nat \<Rightarrow> nat \<Rightarrow> matrix \<Rightarrow> matrix" where
  "close_via m k M = fold (close_row m k) [0..<m] M"

definition transitive_closure :: "nat \<Rightarrow> matrix \<Rightarrow> matrix" where
  "transitive_closure m M = fold (close_via m) [0..<m] M"

section \<open>Paths through bounded intermediates\<close>

fun via :: "(nat \<Rightarrow> nat \<Rightarrow> bool) \<Rightarrow> nat \<Rightarrow> nat \<Rightarrow> nat \<Rightarrow> bool" where
  "via R 0 i j = R i j"
| "via R (Suc k) i j = (via R k i j \<or> via R k i k \<and> via R k k j)"

lemma via_pivot: "via R (Suc k) i k = via R k i k" "via R (Suc k) k j = via R k k j"
  by auto

lemma via_mono: "via R k i j \<Longrightarrow> k \<le> l \<Longrightarrow> via R l i j"
  by (induction l) (auto simp: le_Suc_eq)

lemma via_trans: "via R k i a \<Longrightarrow> via R k a j \<Longrightarrow> a < k \<Longrightarrow> via R k i j"
proof (induction k arbitrary: i a j)
  case (Suc k)
  show ?case
  proof (cases "a = k")
    case True
    then show ?thesis using Suc.prems by auto
  next
    case False
    then have "a < k" using Suc.prems(3) by simp
    then show ?thesis using Suc.prems(1,2) Suc.IH [of _ a] by auto
  qed
qed simp

lemma via_trancl: "via R k i j \<Longrightarrow> (i, j) \<in> {(x, y). R x y}\<^sup>+"
  by (induction k arbitrary: i j) (auto intro: trancl_trans)

lemma trancl_via:
  assumes "(i, j) \<in> {(x, y). R x y}\<^sup>+" "\<And>x y. R x y \<Longrightarrow> x < m \<and> y < m"
  shows "via R m i j"
  using assms(1)
proof (induction rule: trancl_induct)
  case (base y)
  then show ?case using via_mono [of R 0 i y m] by simp
next
  case (step y z)
  then have "via R m y z" "y < m" using via_mono [of R 0 y z m] assms(2) by auto
  with step.IH show ?case by (rule via_trans)
qed

section \<open>The matrix computes them\<close>

definition represents :: "nat \<Rightarrow> matrix \<Rightarrow> (nat \<Rightarrow> nat \<Rightarrow> bool) \<Rightarrow> bool" where
  "represents m M P \<longleftrightarrow> length M = m \<and> (\<forall>i < m. length (M ! i) = m) \<and>
     (\<forall>i < m. \<forall>j < m. entry M i j = P i j)"

lemma set_entry_represents:
  assumes "represents m M P" "i < m" "j < m"
  shows "represents m (set_entry i j b M) (\<lambda>x y. if x = i \<and> y = j then b else P x y)"
  using assms by (auto simp: represents_def set_entry_def entry_def nth_list_update)

lemma represents_cong:
  "represents m M P \<Longrightarrow> (\<And>x y. x < m \<Longrightarrow> y < m \<Longrightarrow> P x y = Q x y) \<Longrightarrow> represents m M Q"
  by (simp add: represents_def)

text \<open>During pass \<open>k\<close>, the cells before \<open>(i, j)\<close> hold \<open>via (Suc k)\<close>, the others still \<open>via k\<close>.\<close>

abbreviation swept :: "(nat \<Rightarrow> nat \<Rightarrow> bool) \<Rightarrow> nat \<Rightarrow> nat \<Rightarrow> nat \<Rightarrow> nat \<Rightarrow> nat \<Rightarrow> bool" where
  "swept R k i j x y \<equiv> (if x < i \<or> x = i \<and> y < j then via R (Suc k) x y else via R k x y)"

lemma swept_pivot: "swept R k i j x k = via R k x k" "swept R k i j k y = via R k k y"
  by auto

lemma close_entry_swept:
  assumes "represents m M (swept R k i j)" "k < m" "i < m" "j < m"
  shows "represents m (close_entry k i j M) (swept R k i (Suc j))"
proof -
  have "entry M i j = swept R k i j i j" "entry M i k = swept R k i j i k" "entry M k j = swept R k i j k j"
    using assms by (auto simp: represents_def)
  then have new: "(entry M i j \<or> entry M i k \<and> entry M k j) = via R (Suc k) i j"
    unfolding swept_pivot by simp
  show ?thesis
    unfolding close_entry_def new
    by (rule represents_cong [OF set_entry_represents [OF assms(1,3,4)]]) (auto simp: less_Suc_eq)
qed

lemma close_row_swept:
  assumes "represents m M (swept R k i 0)" "k < m" "i < m"
  shows "represents m (close_row m k i M) (swept R k (Suc i) 0)"
proof -
  have "represents m (fold (close_entry k i) [0..<l] M) (swept R k i l)" if "l \<le> m" for l
    using that by (induction l) (use assms close_entry_swept in auto)
  then have "represents m (close_row m k i M) (swept R k i m)" by (simp add: close_row_def)
  then show ?thesis by (rule represents_cong) (auto simp: less_Suc_eq)
qed

lemma close_via_represents:
  assumes "represents m M (via R k)" "k < m"
  shows "represents m (close_via m k M) (via R (Suc k))"
proof -
  have "represents m (fold (close_row m k) [0..<l] M) (swept R k l 0)" if "l \<le> m" for l
    using that
  proof (induction l)
    case 0
    then show ?case using assms(1) by (simp add: represents_def)
  next
    case (Suc l)
    then show ?case using close_row_swept [OF _ assms(2)] by (simp del: via.simps)
  qed
  then have "represents m (close_via m k M) (swept R k m 0)" by (simp add: close_via_def)
  then show ?thesis by (rule represents_cong) simp
qed

lemma transitive_closure_represents:
  assumes "represents m M R" "\<And>x y. R x y \<Longrightarrow> x < m \<and> y < m"
  shows "represents m (transitive_closure m M) (\<lambda>i j. (i, j) \<in> {(x, y). R x y}\<^sup>+)"
proof -
  have "represents m (fold (close_via m) [0..<l] M) (via R l)" if "l \<le> m" for l
    using that
  proof (induction l)
    case 0
    then show ?case using assms(1) by (simp add: represents_def)
  next
    case (Suc l)
    then show ?case using close_via_represents [of m _ R l] by (simp del: via.simps)
  qed
  then have "represents m (transitive_closure m M) (via R m)" by (simp add: transitive_closure_def)
  then show ?thesis
    by (rule represents_cong) (use via_trancl trancl_via assms(2) in blast)
qed

end
