(* ===== verification/Confluence.thy ===== *)
theory Confluence
  imports Ready_Laws Warshall
begin

text \<open>
  The finite confluence checker (\<open>hgraph/semantics.rs\<close>): an explicitly supplied transition table
  per operation is checked for congruence and for commutation of every pair of operations that
  the blocking relation leaves unordered.
\<close>

section \<open>The checker\<close>

record finite_transition_model =
  tm_observations :: "nat list"
  tm_equivalence_classes :: "nat list"
  tm_transitions :: "(nat \<times> nat list) list"

record finite_confluence_check =
  cc_states :: nat
  cc_operations :: nat
  cc_incomparable_pairs_checked :: nat

definition MAX_STATES :: nat where "MAX_STATES = 256"
definition MAX_OPERATIONS :: nat where "MAX_OPERATIONS = 256"

definition operation_table ::
  "hgraph \<Rightarrow> finite_transition_model \<Rightarrow> nat \<Rightarrow> ready_op \<Rightarrow> hgraph_error + nat list" where
  "operation_table g model n op =
     and_then (input_policy g op) (\<lambda>policy.
     and_then (ensure (policy = AllInputs)
                 (HErr ''finite DAG theorem requires conjunctive inputs and complete execution'')) (\<lambda>_.
     and_then (ok_or (map_of (tm_transitions model) (ro_plan_node op))
                 (HErr ''missing transition'')) (\<lambda>table.
     and_then (ensure (length table = n \<and> list_all (\<lambda>state. state < n) table)
                 (HErr ''not a total transition on the model carrier'')) (\<lambda>_.
     Inr table))))"

definition check_equivalent_states ::
  "finite_transition_model \<Rightarrow> nat list list \<Rightarrow> nat \<Rightarrow> nat \<Rightarrow> hgraph_error + unit" where
  "check_equivalent_states model tables x y =
     (let cls = tm_equivalence_classes model in
      if cls ! x \<noteq> cls ! y then Inr ()
      else and_then (ensure (tm_observations model ! x = tm_observations model ! y)
                       (HErr ''equivalent states have different observations'')) (\<lambda>_.
           for_each (\<lambda>table. ensure (cls ! (table ! x) = cls ! (table ! y))
                       (HErr ''operation does not preserve equivalence'')) tables))"

definition record_blockers :: "nat \<times> ready_op \<Rightarrow> matrix \<Rightarrow> matrix" where
  "record_blockers op M = fold (\<lambda>p. set_entry p (fst op) True) (ro_blocked_by (snd op)) M"

definition precedes :: "ready_op list \<Rightarrow> matrix" where
  "precedes ops =
     (let m = length ops in
      transitive_closure m
        (fold record_blockers (enumerate 0 ops) (replicate m (replicate m False))))"

definition check_pair ::
  "finite_transition_model \<Rightarrow> nat list list \<Rightarrow> matrix \<Rightarrow> nat \<Rightarrow> nat \<Rightarrow> nat \<Rightarrow> nat \<Rightarrow> hgraph_error + nat" where
  "check_pair model tables prec n u pairs v =
     (if entry prec u v \<or> entry prec v u then Inr pairs
      else and_then (for_each (\<lambda>w. ensure
               (tm_equivalence_classes model ! (tables ! u ! (tables ! v ! w)) =
                tm_equivalence_classes model ! (tables ! v ! (tables ! u ! w)))
               (HErr ''incomparable operations do not commute modulo equivalence'')) [0..<n]) (\<lambda>_.
           Inr (pairs + 1)))"

definition check_finite_confluence ::
  "hgraph \<Rightarrow> finite_transition_model \<Rightarrow> hgraph_error + finite_confluence_check" where
  "check_finite_confluence g model =
     and_then (derive g) (\<lambda>schedule.
     and_then (waves schedule) (\<lambda>_.
     let n = length (tm_observations model);
         m = length (rs_ops schedule)
     in and_then (ensure (n \<noteq> 0 \<and> n \<le> MAX_STATES \<and> m \<le> MAX_OPERATIONS)
                    (HErr ''finite confluence check requires 1..=256 states and at most 256 operations''))
          (\<lambda>_.
        and_then (ensure (length (tm_equivalence_classes model) = n \<and> length (tm_transitions model) = m)
                    (HErr ''model must describe every state and exactly every executable operation''))
          (\<lambda>_.
        and_then (try_map (operation_table g model n) (rs_ops schedule)) (\<lambda>tables.
        and_then (for_each (\<lambda>x. for_each (check_equivalent_states model tables x) [0..<x]) [0..<n]) (\<lambda>_.
        and_then (try_fold (\<lambda>pairs u. try_fold (check_pair model tables (precedes (rs_ops schedule)) n u)
                     pairs [0..<u]) 0 [0..<m]) (\<lambda>pairs.
        Inr \<lparr>cc_states = n, cc_operations = m, cc_incomparable_pairs_checked = pairs\<rparr>)))))))"

section \<open>The order matrix\<close>

lemma record_blockers_represents:
  assumes "represents m M P" "i < m" "\<forall>d \<in> set ds. d < m"
  shows "represents m (fold (\<lambda>p. set_entry p i True) ds M) (\<lambda>x y. P x y \<or> y = i \<and> x \<in> set ds)"
  using assms
proof (induction ds arbitrary: M P)
  case (Cons d ds)
  have "represents m (set_entry d i True M) (\<lambda>x y. if x = d \<and> y = i then True else P x y)"
    using Cons.prems by (intro set_entry_represents) auto
  from Cons.IH [OF this] Cons.prems have "represents m (fold (\<lambda>p. set_entry p i True) (d # ds) M)
      (\<lambda>x y. (if x = d \<and> y = i then True else P x y) \<or> y = i \<and> x \<in> set ds)" by simp
  then show ?case by (rule represents_cong) auto
qed simp

lemma precedes_exact:
  assumes "schedule_wf s"
  shows "represents (length (rs_ops s)) (precedes (rs_ops s)) (\<lambda>i j. (i, j) \<in> (blocking s)\<^sup>+)"
proof -
  let ?m = "length (rs_ops s)" and ?Z = "replicate (length (rs_ops s)) (replicate (length (rs_ops s)) False)"
  have "represents ?m (fold record_blockers (enumerate 0 (take k (rs_ops s))) ?Z)
      (\<lambda>x y. y < k \<and> (x, y) \<in> blocking s)" if "k \<le> ?m" for k
    using that
  proof (induction k)
    case 0
    then show ?case by (simp add: represents_def entry_def)
  next
    case (Suc k)
    then have k: "k < ?m" by simp
    have "enumerate 0 (take (Suc k) (rs_ops s)) = enumerate 0 (take k (rs_ops s)) @ [(k, rs_ops s ! k)]"
      using k by (simp add: take_Suc_conv_app_nth enumerate_append_eq)
    moreover have "record_blockers (k, op) M = fold (\<lambda>p. set_entry p k True) (ro_blocked_by op) M" for op M
      by (simp add: record_blockers_def)
    ultimately have "represents ?m (fold record_blockers (enumerate 0 (take (Suc k) (rs_ops s))) ?Z)
        (\<lambda>x y. y < k \<and> (x, y) \<in> blocking s \<or> y = k \<and> x \<in> set (ro_blocked_by (rs_ops s ! k)))"
      using record_blockers_represents [OF Suc.IH _ schedule_wf_nth(2) [OF assms k]] k
      by simp
    then show ?case
      by (rule represents_cong) (use k in \<open>auto simp: blocking_def less_Suc_eq\<close>)
  qed
  from this [of ?m] have "represents ?m (fold record_blockers (enumerate 0 (rs_ops s)) ?Z)
      (\<lambda>x y. y < ?m \<and> (x, y) \<in> blocking s)" by simp
  then have "represents ?m (fold record_blockers (enumerate 0 (rs_ops s)) ?Z) (\<lambda>x y. (x, y) \<in> blocking s)"
    by (rule represents_cong) simp
  from transitive_closure_represents [OF this] show ?thesis
    using blocking_range [of s] by (auto simp: precedes_def Let_def)
qed

section \<open>Linear extensions and adjacent swaps\<close>

definition run_steps :: "('a \<Rightarrow> 's \<Rightarrow> 's) \<Rightarrow> 'a list \<Rightarrow> 's \<Rightarrow> 's" where
  "run_steps step xs w = fold step xs w"

lemma run_steps_simps [simp]:
  "run_steps step [] w = w" "run_steps step (x # xs) w = run_steps step xs (step x w)"
  "run_steps step (xs @ ys) w = run_steps step ys (run_steps step xs w)"
  by (simp_all add: run_steps_def)

lemma keeps_order_iff:
  "keeps_order R xs \<longleftrightarrow> sorted_wrt (\<lambda>a b. (b, a) \<notin> R) xs \<and> (\<forall>x \<in> set xs. (x, x) \<notin> R)"
proof
  assume k: "keeps_order R xs"
  then have "\<forall>x \<in> set xs. (x, x) \<notin> R" by (force simp: keeps_order_def in_set_conv_nth)
  moreover have "sorted_wrt (\<lambda>a b. (b, a) \<notin> R) xs"
    unfolding sorted_wrt_iff_nth_less
  proof (intro allI impI notI)
    fix i j assume "i < j" "j < length xs" "(xs ! j, xs ! i) \<in> R"
    then show False using k unfolding keeps_order_def by (meson less_trans order.asym)
  qed
  ultimately show "sorted_wrt (\<lambda>a b. (b, a) \<notin> R) xs \<and> (\<forall>x \<in> set xs. (x, x) \<notin> R)" by blast
next
  assume s: "sorted_wrt (\<lambda>a b. (b, a) \<notin> R) xs \<and> (\<forall>x \<in> set xs. (x, x) \<notin> R)"
  show "keeps_order R xs"
    unfolding keeps_order_def
  proof (intro allI impI)
    fix i j assume ij: "i < length xs" "j < length xs" "(xs ! i, xs ! j) \<in> R"
    then have "i \<noteq> j" using s by auto
    moreover have "\<not> j < i" using s ij by (auto simp: sorted_wrt_iff_nth_less)
    ultimately show "i < j" by simp
  qed
qed

text \<open>
  The hypotheses of confluence modulo an equivalence: steps stay in the carrier, respect the
  equivalence, and any two of them unordered by \<open>R\<close> commute modulo it.
\<close>

locale confluent_steps =
  fixes step :: "nat \<Rightarrow> nat \<Rightarrow> nat" and cls :: "nat \<Rightarrow> nat" and carrier :: "nat set"
    and ops :: "nat set" and R :: "(nat \<times> nat) set"
  assumes closed: "u \<in> ops \<Longrightarrow> w \<in> carrier \<Longrightarrow> step u w \<in> carrier"
    and congruent: "u \<in> ops \<Longrightarrow> w \<in> carrier \<Longrightarrow> w' \<in> carrier \<Longrightarrow> cls w = cls w' \<Longrightarrow>
      cls (step u w) = cls (step u w')"
    and commute: "u \<in> ops \<Longrightarrow> v \<in> ops \<Longrightarrow> (u, v) \<notin> R \<Longrightarrow> (v, u) \<notin> R \<Longrightarrow> w \<in> carrier \<Longrightarrow>
      cls (step u (step v w)) = cls (step v (step u w))"
begin

lemma run_closed: "set xs \<subseteq> ops \<Longrightarrow> w \<in> carrier \<Longrightarrow> run_steps step xs w \<in> carrier"
  by (induction xs arbitrary: w) (auto intro: closed)

lemma run_congruent:
  "set xs \<subseteq> ops \<Longrightarrow> w \<in> carrier \<Longrightarrow> w' \<in> carrier \<Longrightarrow> cls w = cls w' \<Longrightarrow>
     cls (run_steps step xs w) = cls (run_steps step xs w')"
  by (induction xs arbitrary: w w') (auto intro: closed congruent)

lemma move_to_front:
  assumes "set xs \<subseteq> ops" "y \<in> ops" "w \<in> carrier" "\<forall>x \<in> set xs. (x, y) \<notin> R \<and> (y, x) \<notin> R"
  shows "cls (step y (run_steps step xs w)) = cls (run_steps step xs (step y w))"
  using assms
proof (induction xs arbitrary: w)
  case (Cons x xs)
  have "cls (step y (run_steps step xs (step x w))) = cls (run_steps step xs (step y (step x w)))"
    using Cons by (intro Cons.IH) (auto intro: closed)
  also have "\<dots> = cls (run_steps step xs (step x (step y w)))"
    using Cons.prems by (intro run_congruent) (auto intro: closed commute)
  finally show ?case by simp
qed simp

lemma orders_agree:
  assumes "distinct xs" "distinct ys" "set xs = set ys" "set xs \<subseteq> ops"
    and "keeps_order R xs" "keeps_order R ys"
    and "w \<in> carrier" "w' \<in> carrier" "cls w = cls w'"
  shows "cls (run_steps step xs w) = cls (run_steps step ys w')"
  using assms
proof (induction ys arbitrary: xs w w')
  case (Cons y ys)
  obtain as bs where xs: "xs = as @ y # bs" using Cons.prems(3) by (metis list.set_intros(1) split_list)
  have ops: "set as \<subseteq> ops" "set bs \<subseteq> ops" "y \<in> ops" using Cons.prems(4) by (auto simp: xs)
  have "(x, y) \<notin> R \<and> (y, x) \<notin> R" if x: "x \<in> set as" for x
  proof -
    have "x \<in> set ys" using Cons.prems(1,3) x by (auto simp: xs)
    then show ?thesis
      using Cons.prems(5,6) x by (auto simp: keeps_order_iff xs sorted_wrt_append)
  qed
  then have "cls (run_steps step bs (step y (run_steps step as w))) =
      cls (run_steps step bs (run_steps step as (step y w)))"
    using ops Cons.prems(7) by (intro run_congruent move_to_front closed run_closed) auto
  moreover have "cls (run_steps step (as @ bs) (step y w)) = cls (run_steps step ys (step y w'))"
  proof (rule Cons.IH)
    show "keeps_order R (as @ bs)" "keeps_order R ys"
      using Cons.prems(5,6) by (auto simp: keeps_order_iff xs sorted_wrt_append)
    show "cls (step y w) = cls (step y w')" using Cons.prems(7-9) ops by (intro congruent)
  qed (use Cons.prems ops in \<open>auto simp: xs intro: closed\<close>)
  ultimately show ?case by (simp add: xs)
qed simp

end

section \<open>What acceptance means\<close>

definition model_table :: "finite_transition_model \<Rightarrow> ready_op \<Rightarrow> nat list" where
  "model_table model op =
     (case map_of (tm_transitions model) (ro_plan_node op) of None \<Rightarrow> [] | Some table \<Rightarrow> table)"

definition model_step :: "ready_schedule \<Rightarrow> finite_transition_model \<Rightarrow> nat \<Rightarrow> nat \<Rightarrow> nat" where
  "model_step s model u w = model_table model (rs_ops s ! u) ! w"

definition model_class :: "finite_transition_model \<Rightarrow> nat \<Rightarrow> nat" where
  "model_class model w = tm_equivalence_classes model ! w"

definition unordered :: "ready_schedule \<Rightarrow> nat \<Rightarrow> nat \<Rightarrow> bool" where
  "unordered s u v \<longleftrightarrow> (u, v) \<notin> (blocking s)\<^sup>+ \<and> (v, u) \<notin> (blocking s)\<^sup>+"

definition commuting :: "ready_schedule \<Rightarrow> finite_transition_model \<Rightarrow> nat \<Rightarrow> nat \<Rightarrow> nat \<Rightarrow> bool" where
  "commuting s model n u v \<longleftrightarrow>
     (\<forall>w < n. model_class model (model_step s model u (model_step s model v w)) =
             model_class model (model_step s model v (model_step s model u w)))"

definition well_sized :: "ready_schedule \<Rightarrow> finite_transition_model \<Rightarrow> bool" where
  "well_sized s model \<longleftrightarrow>
     tm_observations model \<noteq> [] \<and> length (tm_observations model) \<le> 256 \<and> length (rs_ops s) \<le> 256 \<and>
     length (tm_equivalence_classes model) = length (tm_observations model) \<and>
     length (tm_transitions model) = length (rs_ops s)"

definition total_operation :: "hgraph \<Rightarrow> finite_transition_model \<Rightarrow> ready_op \<Rightarrow> bool" where
  "total_operation g model op \<longleftrightarrow>
     input_policy g op = Inr AllInputs \<and>
     (\<exists>table. map_of (tm_transitions model) (ro_plan_node op) = Some table \<and>
        length table = length (tm_observations model) \<and>
        (\<forall>state \<in> set table. state < length (tm_observations model)))"

definition respects_classes :: "ready_schedule \<Rightarrow> finite_transition_model \<Rightarrow> bool" where
  "respects_classes s model \<longleftrightarrow>
     (\<forall>x < length (tm_observations model). \<forall>y < length (tm_observations model).
        model_class model x = model_class model y \<longrightarrow>
        tm_observations model ! x = tm_observations model ! y \<and>
        (\<forall>u < length (rs_ops s).
           model_class model (model_step s model u x) = model_class model (model_step s model u y)))"

definition unordered_commute :: "ready_schedule \<Rightarrow> finite_transition_model \<Rightarrow> bool" where
  "unordered_commute s model \<longleftrightarrow>
     (\<forall>u < length (rs_ops s). \<forall>v < length (rs_ops s). unordered s u v \<longrightarrow>
        commuting s model (length (tm_observations model)) u v)"

lemma respects_classesD:
  assumes "respects_classes s model" "x < length (tm_observations model)" "y < length (tm_observations model)"
    and "model_class model x = model_class model y"
  shows "tm_observations model ! x = tm_observations model ! y"
    and "u < length (rs_ops s) \<Longrightarrow>
      model_class model (model_step s model u x) = model_class model (model_step s model u y)"
  using assms(1) [unfolded respects_classes_def, rule_format, OF assms(2-4)] by blast+

lemma operation_tables_exact:
  "try_map (operation_table g model (length (tm_observations model))) ops = Inr tables \<longleftrightarrow>
     (\<forall>op \<in> set ops. total_operation g model op) \<and> tables = map (model_table model) ops"
proof -
  have one: "operation_table g model (length (tm_observations model)) op = Inr t \<longleftrightarrow>
      total_operation g model op \<and> t = model_table model op" for op t
    by (auto simp: operation_table_def total_operation_def model_table_def result_simps list_all_iff)
  have "list_all2 (\<lambda>op t. total_operation g model op \<and> t = model_table model op) ops tables \<longleftrightarrow>
      (\<forall>op \<in> set ops. total_operation g model op) \<and> tables = map (model_table model) ops"
    by (induction ops arbitrary: tables) (auto simp: list_all2_Cons1)
  then show ?thesis by (simp add: try_map_eq_Inr one)
qed

lemma equivalent_states_exact:
  "check_equivalent_states model (map (model_table model) (rs_ops s)) x y = Inr () \<longleftrightarrow>
     (model_class model x = model_class model y \<longrightarrow>
        tm_observations model ! x = tm_observations model ! y \<and>
        (\<forall>u < length (rs_ops s).
           model_class model (model_step s model u x) = model_class model (model_step s model u y)))"
  by (auto simp: check_equivalent_states_def Let_def result_simps model_class_def model_step_def all_set_conv_all_nth)

lemma congruence_exact:
  "for_each (\<lambda>x. for_each (check_equivalent_states model (map (model_table model) (rs_ops s)) x) [0..<x])
      [0..<length (tm_observations model)] = Inr () \<longleftrightarrow> respects_classes s model"
proof -
  let ?Q = "\<lambda>x y. check_equivalent_states model (map (model_table model) (rs_ops s)) x y = Inr ()"
  have sym: "?Q x y \<Longrightarrow> ?Q y x" and refl: "?Q x x" for x y
    by (auto simp: equivalent_states_exact)
  have "(\<forall>x < n. \<forall>y < x. ?Q x y) \<longleftrightarrow> (\<forall>x < n. \<forall>y < n. ?Q x y)" for n
    by (metis linorder_neqE_nat refl sym order.strict_trans)
  then show ?thesis
    by (simp add: for_each_eq_Inr respects_classes_def equivalent_states_exact Ball_def)
qed

lemma check_pair_exact:
  assumes "schedule_wf s" "u < length (rs_ops s)" "v < length (rs_ops s)"
  shows "check_pair model (map (model_table model) (rs_ops s)) (precedes (rs_ops s)) n u pairs v = Inr p \<longleftrightarrow>
     (unordered s u v \<longrightarrow> commuting s model n u v) \<and> p = pairs + (if unordered s u v then 1 else 0)"
proof -
  have "entry (precedes (rs_ops s)) u v \<longleftrightarrow> (u, v) \<in> (blocking s)\<^sup>+"
    "entry (precedes (rs_ops s)) v u \<longleftrightarrow> (v, u) \<in> (blocking s)\<^sup>+"
    using precedes_exact [OF assms(1)] assms(2,3) by (simp_all add: represents_def)
  then show ?thesis
    using assms(2,3)
    by (auto simp: check_pair_def unordered_def commuting_def model_class_def model_step_def result_simps)
qed

lemma check_row_exact:
  assumes "schedule_wf s" "u < length (rs_ops s)" "l \<le> u"
  shows "try_fold (check_pair model (map (model_table model) (rs_ops s)) (precedes (rs_ops s)) n u) pairs [0..<l] = Inr p \<longleftrightarrow>
     (\<forall>v < l. unordered s u v \<longrightarrow> commuting s model n u v) \<and> p = pairs + card {v. v < l \<and> unordered s u v}"
  using assms(3)
proof (induction l arbitrary: p)
  case (Suc l)
  have "{v. v < Suc l \<and> unordered s u v} =
      (if unordered s u l then insert l {v. v < l \<and> unordered s u v} else {v. v < l \<and> unordered s u v})"
    by (auto simp: less_Suc_eq)
  then have card: "card {v. v < Suc l \<and> unordered s u v} =
      card {v. v < l \<and> unordered s u v} + (if unordered s u l then 1 else 0)" by simp
  have "try_fold (check_pair model (map (model_table model) (rs_ops s)) (precedes (rs_ops s)) n u) pairs [0..<Suc l] = Inr p \<longleftrightarrow>
      (\<exists>q. ((\<forall>v < l. unordered s u v \<longrightarrow> commuting s model n u v) \<and> q = pairs + card {v. v < l \<and> unordered s u v}) \<and>
           (unordered s u l \<longrightarrow> commuting s model n u l) \<and> p = q + (if unordered s u l then 1 else 0))"
    using Suc check_pair_exact [OF assms(1,2), of l] assms(2)
    by (simp add: try_fold_snoc and_then_eq_Inr)
  then show ?case by (simp only: card) (auto simp: less_Suc_eq)
qed auto

definition unordered_pairs :: "ready_schedule \<Rightarrow> nat \<Rightarrow> (nat \<times> nat) set" where
  "unordered_pairs s m = {(u, v). v < u \<and> u < m \<and> unordered s u v}"

lemma check_pairs_exact:
  assumes "schedule_wf s" "m \<le> length (rs_ops s)"
  shows "try_fold (\<lambda>pairs u. try_fold (check_pair model (map (model_table model) (rs_ops s))
            (precedes (rs_ops s)) n u) pairs [0..<u]) 0 [0..<m] = Inr p \<longleftrightarrow>
     (\<forall>u < m. \<forall>v < u. unordered s u v \<longrightarrow> commuting s model n u v) \<and> p = card (unordered_pairs s m)"
  using assms(2)
proof (induction m arbitrary: p)
  case 0
  then show ?case by (auto simp: unordered_pairs_def)
next
  case (Suc m)
  have split: "unordered_pairs s (Suc m) = unordered_pairs s m \<union> Pair m ` {v. v < m \<and> unordered s m v}"
    by (auto simp: unordered_pairs_def less_Suc_eq)
  have "finite (unordered_pairs s m)"
    by (rule finite_subset [of _ "{..<m} \<times> {..<m}"]) (auto simp: unordered_pairs_def)
  then have card: "card (unordered_pairs s (Suc m)) = card (unordered_pairs s m) + card {v. v < m \<and> unordered s m v}"
    unfolding split by (subst card_Un_disjoint) (auto simp: unordered_pairs_def card_image inj_on_def)
  have "m < length (rs_ops s)" using Suc.prems by simp
  with Suc check_row_exact [OF assms(1), of m m] show ?case
    by (simp add: try_fold_snoc and_then_eq_Inr card) (auto simp: less_Suc_eq)
qed

lemma commuting_sym: "commuting s model n u v \<Longrightarrow> commuting s model n v u"
  by (auto simp: commuting_def)

lemma unordered_commute_iff:
  "unordered_commute s model \<longleftrightarrow> (\<forall>u < length (rs_ops s). \<forall>v < u. unordered s u v \<longrightarrow>
     commuting s model (length (tm_observations model)) u v)"
proof -
  have "unordered s u v \<longleftrightarrow> unordered s v u" for u v by (auto simp: unordered_def)
  moreover have "commuting s model n u u" for n u by (simp add: commuting_def)
  ultimately show ?thesis
    unfolding unordered_commute_def by (metis commuting_sym linorder_neqE_nat order.strict_trans)
qed

lemma checker_exact:
  assumes "maps_ok g"
  shows "check_finite_confluence g model = Inr c \<longleftrightarrow>
     (\<exists>s. derive g = Inr s \<and> well_sized s model \<and> (\<forall>op \<in> set (rs_ops s). total_operation g model op) \<and>
        respects_classes s model \<and> unordered_commute s model \<and>
        c = \<lparr>cc_states = length (tm_observations model), cc_operations = length (rs_ops s),
             cc_incomparable_pairs_checked = card (unordered_pairs s (length (rs_ops s)))\<rparr>)"
proof (cases "derive g")
  case (Inl e)
  then show ?thesis by (simp add: check_finite_confluence_def)
next
  case (Inr s)
  obtain ws where "waves s = Inr ws"
    using derived_waves [OF assms Inr] by blast
  then show ?thesis
    unfolding check_finite_confluence_def Inr
    by (auto simp: Let_def and_then_eq_Inr ensure_eq_Inr operation_tables_exact congruence_exact
        check_pairs_exact [OF derived_wf [OF Inr]] unordered_commute_iff well_sized_def
        MAX_STATES_def MAX_OPERATIONS_def)
qed

section \<open>Confluence of accepted models\<close>

text \<open>
  The certified operations of a graph and a model: all of them when the checker accepts, none
  otherwise.  With the blocking order they satisfy the hypotheses of confluence unconditionally.
\<close>

definition certified_step :: "hgraph \<Rightarrow> finite_transition_model \<Rightarrow> nat \<Rightarrow> nat \<Rightarrow> nat" where
  "certified_step g model u w = (case derive g of Inl _ \<Rightarrow> w | Inr s \<Rightarrow> model_step s model u w)"

definition certified_ops :: "hgraph \<Rightarrow> finite_transition_model \<Rightarrow> nat set" where
  "certified_ops g model =
     (case check_finite_confluence g model of Inl _ \<Rightarrow> {} | Inr c \<Rightarrow> if maps_ok g then {..<cc_operations c} else {})"

definition certified_order :: "hgraph \<Rightarrow> (nat \<times> nat) set" where
  "certified_order g = (case derive g of Inl _ \<Rightarrow> {} | Inr s \<Rightarrow> (blocking s)\<^sup>+)"

lemma certified_D:
  assumes "u \<in> certified_ops g model"
  obtains s where "derive g = Inr s" "u < length (rs_ops s)"
    and "\<forall>op \<in> set (rs_ops s). total_operation g model op" "respects_classes s model" "unordered_commute s model"
    and "certified_step g model = model_step s model" "certified_order g = (blocking s)\<^sup>+"
    and "certified_ops g model = {..<length (rs_ops s)}"
proof -
  obtain c where c: "check_finite_confluence g model = Inr c" "maps_ok g" "u < cc_operations c"
    using assms by (auto simp: certified_ops_def split: sum.splits if_splits)
  from iffD1 [OF checker_exact [OF c(2)] c(1)] obtain s where s: "derive g = Inr s"
      "\<forall>op \<in> set (rs_ops s). total_operation g model op" "respects_classes s model" "unordered_commute s model"
      "cc_operations c = length (rs_ops s)"
    by (metis finite_confluence_check.select_convs(2))
  show thesis
    by (rule that [of s]) (use s c in \<open>auto simp: fun_eq_iff certified_step_def certified_order_def certified_ops_def\<close>)
qed

lemma model_step_closed:
  assumes "\<forall>op \<in> set (rs_ops s). total_operation g model op" "u < length (rs_ops s)"
    and "w < length (tm_observations model)"
  shows "model_step s model u w < length (tm_observations model)"
  using assms nth_mem [OF assms(2)] unfolding model_step_def model_table_def total_operation_def
  by (metis nth_mem option.simps(5))

interpretation certified: confluent_steps "certified_step g model" "model_class model"
  "{..<length (tm_observations model)}" "certified_ops g model" "certified_order g" for g model
proof
  fix u w
  assume a: "u \<in> certified_ops g model" "w \<in> {..<length (tm_observations model)}"
  from a(1) obtain s where "u < length (rs_ops s)" "\<forall>op \<in> set (rs_ops s). total_operation g model op"
      "certified_step g model = model_step s model"
    by (rule certified_D)
  with a show "certified_step g model u w \<in> {..<length (tm_observations model)}"
    by (simp add: model_step_closed)
next
  fix u w w'
  assume a: "u \<in> certified_ops g model" "w \<in> {..<length (tm_observations model)}"
    "w' \<in> {..<length (tm_observations model)}" "model_class model w = model_class model w'"
  from a(1) obtain s where "u < length (rs_ops s)" "respects_classes s model" "certified_step g model = model_step s model"
    by (rule certified_D)
  with a show "model_class model (certified_step g model u w) = model_class model (certified_step g model u w')"
    by (metis lessThan_iff respects_classesD(2))
next
  fix u v w
  assume a: "u \<in> certified_ops g model" "v \<in> certified_ops g model" "(u, v) \<notin> certified_order g"
    "(v, u) \<notin> certified_order g" "w \<in> {..<length (tm_observations model)}"
  from a(1) obtain s where "u < length (rs_ops s)" "unordered_commute s model"
      "certified_step g model = model_step s model" "certified_order g = (blocking s)\<^sup>+"
      "certified_ops g model = {..<length (rs_ops s)}"
    by (rule certified_D)
  with a show "model_class model (certified_step g model u (certified_step g model v w)) =
      model_class model (certified_step g model v (certified_step g model u w))"
    by (simp add: unordered_commute_def unordered_def commuting_def)
qed

lemma linear_extension_trancl:
  assumes "linear_extension n R xs" "R \<subseteq> {..<n} \<times> {..<n}"
  shows "keeps_order (R\<^sup>+) xs"
proof -
  have keep: "xs ! i = a \<Longrightarrow> xs ! j = b \<Longrightarrow> i < length xs \<Longrightarrow> j < length xs \<Longrightarrow> i < j"
    if "(a, b) \<in> R\<^sup>+" for a b i j
    using that
  proof (induction arbitrary: j)
    case (base b)
    then show ?case using assms(1) by (auto simp: linear_extension_def keeps_order_def)
  next
    case (step b c)
    have "b \<in> set xs" using step.hyps(2) assms by (auto simp: linear_extension_def)
    then obtain k where k: "k < length xs" "xs ! k = b" by (auto simp: in_set_conv_nth)
    have "i < k" using step.IH step.prems k by simp
    moreover have "k < j" using step.hyps(2) step.prems k assms(1) by (auto simp: linear_extension_def keeps_order_def)
    ultimately show ?case by simp
  qed
  show ?thesis unfolding keeps_order_def by (intro allI impI) (rule keep; simp)
qed

text \<open>
  C3. Acceptance is sound for execution: once the checker accepts a model of a graph, any two
  complete executions of the derived schedule that respect the blocking relation end, from the
  same initial state, in equivalent states with the same observation.
\<close>

theorem accepted_models_confluent:
  assumes "maps_ok g" "derive g = Inr s" "check_finite_confluence g model = Inr c"
    and "linear_extension (length (rs_ops s)) (blocking s) xs" "linear_extension (length (rs_ops s)) (blocking s) ys"
    and "w < length (tm_observations model)"
  shows "model_class model (run_steps (model_step s model) xs w) = model_class model (run_steps (model_step s model) ys w) \<and>
    tm_observations model ! run_steps (model_step s model) xs w =
    tm_observations model ! run_steps (model_step s model) ys w"
proof -
  have facts: "respects_classes s model" "certified_ops g model = {..<length (rs_ops s)}"
    using iffD1 [OF checker_exact [OF assms(1)] assms(3)] assms(1-3) by (auto simp: certified_ops_def)
  have step: "certified_step g model = model_step s model" and order: "certified_order g = (blocking s)\<^sup>+"
    using assms(2) by (auto simp: fun_eq_iff certified_step_def certified_order_def)
  have keep: "keeps_order ((blocking s)\<^sup>+) xs" "keeps_order ((blocking s)\<^sup>+) ys"
    using linear_extension_trancl [OF _ blocking_range] assms(4,5) by blast+
  have same: "model_class model (run_steps (model_step s model) xs w) = model_class model (run_steps (model_step s model) ys w)"
    using certified.orders_agree [of xs ys g model w w] keep assms(4-6) facts(2)
    by (simp add: step order linear_extension_def)
  have "run_steps (model_step s model) zs w < length (tm_observations model)" if "set zs = {..<length (rs_ops s)}" for zs
    using certified.run_closed [of zs g model w] that assms(6) facts(2) by (simp add: step)
  then have "run_steps (model_step s model) xs w < length (tm_observations model)"
    "run_steps (model_step s model) ys w < length (tm_observations model)"
    using assms(4,5) by (simp_all add: linear_extension_def)
  with same respects_classesD(1) [OF facts(1)] show ?thesis by blast
qed

text \<open>
  Four states in two classes: node 0 resets, nodes 2 and 3 both toggle the class and commute only
  modulo it.
\<close>

definition sample_model :: finite_transition_model where
  "sample_model = \<lparr>tm_observations = [7, 7, 9, 9], tm_equivalence_classes = [0, 0, 1, 1],
     tm_transitions = [(0, [0, 0, 0, 0]), (2, [2, 3, 0, 1]), (3, [3, 3, 1, 0])]\<rparr>"

lemma sample_model_accepted:
  "check_finite_confluence sample_graph sample_model =
     Inr \<lparr>cc_states = 4, cc_operations = 3, cc_incomparable_pairs_checked = 1\<rparr>"
  by code_simp

lemma sample_blocking:
  assumes "derive sample_graph = Inr s"
  shows "length (rs_ops s) = 3 \<and> blocking s = {(0, 1), (0, 2)}"
proof -
  note f = sample_expectations [unfolded assms sample_expectations_def sum.case]
  have b: "map ro_blocked_by (rs_ops s) = [[], [0], [0]]" using f by argo
  then have len: "length (rs_ops s) = 3" by (metis length_map list.size(3,4) numeral_3_eq_3 One_nat_def add_0 add_Suc_right add.right_neutral)
  have "ro_blocked_by (rs_ops s ! i) = [[], [0], [0]] ! i" if "i < 3" for i
    using b len that by (metis nth_map)
  then have mem: "(d, i) \<in> blocking s \<longleftrightarrow> i < 3 \<and> d < 3 \<and> d \<in> set ([[], [0], [0]] ! i)" for d i
    by (auto simp: blocking_def len)
  have "(d, i) \<in> blocking s \<longleftrightarrow> (d, i) \<in> {(0, 1), (0, 2)}" for d i
    unfolding mem by (auto simp: less_Suc_eq numeral_3_eq_3)
  then show ?thesis using len by (simp add: set_eq_iff)
qed

theorem accepted_models_confluent_witness:
  "\<exists>s. derive sample_graph = Inr s \<and>
     linear_extension 3 (blocking s) [0, 1, 2] \<and> linear_extension 3 (blocking s) [0, 2, 1] \<and>
     tm_observations sample_model ! run_steps (model_step s sample_model) [0, 1, 2] 3 =
     tm_observations sample_model ! run_steps (model_step s sample_model) [0, 2, 1] 3"
proof -
  obtain s where s: "derive sample_graph = Inr s" "maps_ok sample_graph" using sample_graph_facts by auto
  have b: "length (rs_ops s) = 3" "blocking s = {(0, 1), (0, 2)}" using sample_blocking [OF s(1)] by auto
  have "linear_extension 3 (blocking s) [0, 1, 2]" "linear_extension 3 (blocking s) [0, 2, 1]"
    by (simp_all add: linear_extension_def keeps_order_iff b(2)) auto
  with accepted_models_confluent [OF s(2,1) sample_model_accepted, of "[0, 1, 2]" "[0, 2, 1]" 3] s(1) b(1)
  show ?thesis by (auto simp: sample_model_def)
qed

text \<open>
  C13. The checker is exact: it accepts precisely the models that fit the size limits, give every
  operation of a conjunctive schedule a total table, are congruent for the equivalence, and in
  which every two operations left unordered by the closure of the blocking relation commute
  modulo it; the reported count is the number of those pairs.
\<close>

theorem confluence_checker_exact:
  assumes "maps_ok g"
  shows "check_finite_confluence g model = Inr c \<longleftrightarrow>
     (\<exists>s. derive g = Inr s \<and> well_sized s model \<and> (\<forall>op \<in> set (rs_ops s). total_operation g model op) \<and>
        respects_classes s model \<and> unordered_commute s model \<and>
        c = \<lparr>cc_states = length (tm_observations model), cc_operations = length (rs_ops s),
             cc_incomparable_pairs_checked = card (unordered_pairs s (length (rs_ops s)))\<rparr>)"
  using checker_exact [OF assms] .

theorem confluence_checker_exact_witness:
  "maps_ok sample_graph \<and>
   (\<exists>s. derive sample_graph = Inr s \<and> unordered_commute s sample_model \<and>
      card (unordered_pairs s (length (rs_ops s))) = 1)"
proof -
  have ok: "maps_ok sample_graph" using sample_graph_facts by auto
  show ?thesis
    using iffD1 [OF confluence_checker_exact [OF ok] sample_model_accepted] ok by auto
qed

end
