(* ===== verification/Cbor.thy ===== *)
theory Cbor
  imports Codec "HOL-Library.List_Lexorder" "HOL-Library.Product_Lexorder" "HOL-Library.Multiset"
begin

text \<open>
  Deterministic CBOR over the JSON data model (\<open>canonical_cbor.rs\<close>): the canonical encoder and
  the limit-checking decoder.

  The JSON numbers and maps belong to the serialisation library. Its operations are the fields of
  \<open>serde\<close>, a parameter of the definitions, and \<open>serde_laws\<close> states the documented behaviour that
  the codec relies on. An object is the list of its entries in iteration order.
\<close>

unbundle bit_operations_syntax

section \<open>Values and the library operations\<close>

datatype 'n json =
    Null
  | BoolJ bool
  | Number 'n
  | StringJ string
  | ArrayJ "'n json list"
  | ObjectJ "(string \<times> 'n json) list"

type_synonym 'n json_map = "(string \<times> 'n json) list"

text \<open>A 64-bit float is represented by its bit pattern (\<open>to_bits\<close>, \<open>from_bits\<close>).\<close>

record 'n serde =
  as_u64 :: "'n \<Rightarrow> u64 option"
  as_i64 :: "'n \<Rightarrow> int option"
  as_f64 :: "'n \<Rightarrow> u64 option"
  from_u64 :: "u64 \<Rightarrow> 'n"
  from_i64 :: "int \<Rightarrow> 'n"
  from_f64 :: "u64 \<Rightarrow> 'n option"
  map_insert :: "string \<Rightarrow> 'n json \<Rightarrow> 'n json_map \<Rightarrow> 'n json_map"

datatype cbor_error = CErr string | StackExhausted

section \<open>Encoder\<close>

definition encode_type_len :: "u8 \<Rightarrow> u64 \<Rightarrow> bytes" where
  "encode_type_len major len =
     (let major = push_bit 5 major in
      if len \<le> 23 then [major OR ucast len]
      else if len \<le> 0xff then [major OR 24, ucast len]
      else if len \<le> 0xffff then (major OR 25) # put_u16 (ucast len)
      else if len \<le> 0xffffffff then (major OR 26) # put_u32 (ucast len)
      else (major OR 27) # put_u64 len)"

definition encode_text :: "string \<Rightarrow> bytes" where
  "encode_text text = encode_type_len 3 (of_nat (length text)) @ str_bytes text"

definition encode_number :: "'n serde \<Rightarrow> 'n \<Rightarrow> cbor_error + bytes" where
  "encode_number S number =
     (case as_u64 S number of
        Some value \<Rightarrow> Inr (encode_type_len 0 value)
      | None \<Rightarrow>
          (case as_i64 S number of
             Some value \<Rightarrow>
               Inr (if 0 \<le> value then encode_type_len 0 (of_int value)
                    else encode_type_len 1 (of_int (- 1 - value)))
           | None \<Rightarrow>
               (case as_f64 S number of
                  Some value \<Rightarrow> Inr (0xfb # put_u64 value)
                | None \<Rightarrow> Inl (CErr ''unsupported JSON number in wire value''))))"

fun encode_value :: "'n serde \<Rightarrow> 'n json \<Rightarrow> cbor_error + bytes"
  and encode_items :: "'n serde \<Rightarrow> 'n json list \<Rightarrow> cbor_error + bytes"
  and encode_entries :: "'n serde \<Rightarrow> 'n json_map \<Rightarrow> cbor_error + (bytes \<times> bytes) list" where
  "encode_value S Null = Inr [0xf6]"
| "encode_value S (BoolJ b) = Inr [if b then 0xf5 else 0xf4]"
| "encode_value S (Number number) = encode_number S number"
| "encode_value S (StringJ text) = Inr (encode_text text)"
| "encode_value S (ArrayJ items) =
     and_then (encode_items S items) (\<lambda>body.
     Inr (encode_type_len 4 (of_nat (length items)) @ body))"
| "encode_value S (ObjectJ obj) =
     and_then (encode_entries S obj) (\<lambda>entries.
     Inr (encode_type_len 5 (of_nat (length entries)) @
          concat (map (\<lambda>(k, v). k @ v) (sort_key (\<lambda>(k, _). (length k, k)) entries))))"
| "encode_items S [] = Inr []"
| "encode_items S (item # items) =
     and_then (encode_value S item) (\<lambda>b. and_then (encode_items S items) (\<lambda>bs. Inr (b @ bs)))"
| "encode_entries S [] = Inr []"
| "encode_entries S ((key, value) # entries) =
     and_then (encode_value S value) (\<lambda>b. and_then (encode_entries S entries) (\<lambda>r.
     Inr ((encode_text key, b) # r)))"

text \<open>The message is lowered by the library, then encoded.\<close>

definition cbor_encode :: "'n serde \<Rightarrow> ('m \<Rightarrow> 'n json option) \<Rightarrow> 'm \<Rightarrow> cbor_error + bytes" where
  "cbor_encode S to_value message =
     and_then (ok_or (to_value message) (CErr ''failed to lower message to wire value'')) (encode_value S)"

text \<open>The signing preimage; the length arithmetic is checked.\<close>

definition signing_preimage :: "bytes \<Rightarrow> bytes \<Rightarrow> cbor_error + bytes" where
  "signing_preimage domain body =
     and_then (ensure (length body < 2 ^ 64) (CErr ''canonical signing body is too large'')) (\<lambda>_.
     and_then (ensure (length domain + 8 + length body < 2 ^ 64)
                 (CErr ''canonical signing preimage is too large'')) (\<lambda>_.
     Inr (domain @ put_u64 (of_nat (length body)) @ body)))"

section \<open>Decoder\<close>

record decode_limits =
  max_bytes :: nat
  max_items :: nat
  max_depth :: nat

text \<open>
  The cursor is the unread suffix \<open>payload[offset..]\<close> with the items counted so far; the limits
  never change and are an argument. A length is compared with the suffix, so the checked addition
  to the offset, which is at most the length of a slice, has no other outcome. A container length
  is a \<open>usize\<close> of 64 bits.
\<close>

record cbor_decoder =
  cd_rest :: bytes
  cd_items :: nat

definition count_items :: "nat \<Rightarrow> decode_limits \<Rightarrow> cbor_decoder \<Rightarrow> cbor_error + cbor_decoder" where
  "count_items n L d =
     and_then (ensure (cd_items d + n < 2 ^ 64) (CErr ''canonical payload item counter overflow'')) (\<lambda>_.
     and_then (ensure (cd_items d + n \<le> max_items L)
                 (CErr ''canonical payload item count exceeds bounded maximum'')) (\<lambda>_.
     Inr (d\<lparr>cd_items := cd_items d + n\<rparr>)))"

definition note_item :: "decode_limits option \<Rightarrow> nat \<Rightarrow> cbor_decoder \<Rightarrow> cbor_error + cbor_decoder" where
  "note_item limits depth d =
     (case limits of
        None \<Rightarrow> Inr d
      | Some L \<Rightarrow>
          and_then (ensure (depth \<le> max_depth L)
                      (CErr ''canonical payload nesting depth exceeds bounded maximum'')) (\<lambda>_.
          count_items 1 L d))"

definition reserve_embedded_items ::
  "decode_limits option \<Rightarrow> nat \<Rightarrow> cbor_decoder \<Rightarrow> cbor_error + cbor_decoder" where
  "reserve_embedded_items limits n d = (case limits of None \<Rightarrow> Inr d | Some L \<Rightarrow> count_items n L d)"

definition read_u8 :: "cbor_decoder \<Rightarrow> cbor_error + u8 \<times> cbor_decoder" where
  "read_u8 d =
     (case cd_rest d of
        [] \<Rightarrow> Inl (CErr ''unexpected end of wire payload'')
      | b # bs \<Rightarrow> Inr (b, d\<lparr>cd_rest := bs\<rparr>))"

definition read_bytes :: "nat \<Rightarrow> cbor_decoder \<Rightarrow> cbor_error + bytes \<times> cbor_decoder" where
  "read_bytes n d =
     and_then (ensure (n \<le> length (cd_rest d)) (CErr ''unexpected end of wire payload'')) (\<lambda>_.
     Inr (take n (cd_rest d), d\<lparr>cd_rest := drop n (cd_rest d)\<rparr>))"

definition read_be :: "nat \<Rightarrow> cbor_decoder \<Rightarrow> cbor_error + u64 \<times> cbor_decoder" where
  "read_be n d = and_then (read_bytes n d) (\<lambda>(bs, d). Inr (of_nat (be_nat bs), d))"

definition read_len :: "u8 \<Rightarrow> cbor_decoder \<Rightarrow> cbor_error + u64 \<times> cbor_decoder" where
  "read_len additional d =
     (if additional \<le> 23 then Inr (ucast additional, d)
      else if additional = 24 then and_then (read_u8 d) (\<lambda>(b, d). Inr (ucast b, d))
      else if additional = 25 then read_be 2 d
      else if additional = 26 then read_be 4 d
      else if additional = 27 then read_be 8 d
      else if additional = 31 then Inl (CErr ''indefinite-length CBOR is not allowed on the O wire'')
      else Inl (CErr ''invalid CBOR length discriminator''))"

definition read_sized_len ::
  "decode_limits option \<Rightarrow> u8 \<Rightarrow> nat \<Rightarrow> cbor_decoder \<Rightarrow> cbor_error + nat \<times> cbor_decoder" where
  "read_sized_len limits additional minimum_bytes_per_item d =
     and_then (read_len additional d) (\<lambda>(raw, d).
     let len = unat raw in
     and_then (ensure (len \<le> length (cd_rest d) div minimum_bytes_per_item)
                 (CErr ''declares more items than fit in the remaining payload'')) (\<lambda>_.
     and_then (case limits of None \<Rightarrow> Inr () | Some L \<Rightarrow>
                 ensure (len \<le> max_items L - cd_items d)
                   (CErr ''length exceeds the bounded remaining item budget'')) (\<lambda>_.
     Inr (len, d))))"

text \<open>\<open>f32::from_bits(b) as f64\<close>, on bit patterns: exact widening of zeros, subnormals and normals.\<close>

fun top_bit :: "nat \<Rightarrow> nat" where
  "top_bit n = (if n < 2 then 0 else Suc (top_bit (n div 2)))"

definition f32_to_f64 :: "u32 \<Rightarrow> u64" where
  "f32_to_f64 b =
     (let s = unat b div 2 ^ 31; e = unat b div 2 ^ 23 mod 2 ^ 8; m = unat b mod 2 ^ 23;
          (e', m') = (if e = 255 then (2047, m * 2 ^ 29)
                      else if e \<noteq> 0 then (e + 896, m * 2 ^ 29)
                      else if m = 0 then (0, 0)
                      else (top_bit m + 874, (m - 2 ^ top_bit m) * 2 ^ (52 - top_bit m)))
      in of_nat (s * 2 ^ 63 + e' * 2 ^ 52 + m'))"

definition decode_simple :: "'n serde \<Rightarrow> u8 \<Rightarrow> cbor_decoder \<Rightarrow> cbor_error + 'n json \<times> cbor_decoder" where
  "decode_simple S additional d =
     (if additional = 20 then Inr (BoolJ False, d)
      else if additional = 21 then Inr (BoolJ True, d)
      else if additional = 22 then Inr (Null, d)
      else if additional = 26 then
        and_then (read_bytes 4 d) (\<lambda>(bs, d).
        and_then (ok_or (from_f64 S (f32_to_f64 (of_nat (be_nat bs)))) (CErr ''non-finite f32'')) (\<lambda>n.
        Inr (Number n, d)))
      else if additional = 27 then
        and_then (read_bytes 8 d) (\<lambda>(bs, d).
        and_then (ok_or (from_f64 S (of_nat (be_nat bs))) (CErr ''non-finite f64'')) (\<lambda>n.
        Inr (Number n, d)))
      else Inl (CErr ''unsupported CBOR simple value in wire payload''))"

text \<open>
  One value at a nesting depth. The first argument after the limits bounds the recursion; every
  level consumes a byte, so the length of the input is enough.
\<close>

function (sequential) decode_value_at_depth :: "'n serde \<Rightarrow> decode_limits option \<Rightarrow> nat \<Rightarrow> nat \<Rightarrow> cbor_decoder \<Rightarrow>
        cbor_error + 'n json \<times> cbor_decoder"
  and decode_items :: "'n serde \<Rightarrow> decode_limits option \<Rightarrow> nat \<Rightarrow> nat \<Rightarrow> nat \<Rightarrow> cbor_decoder \<Rightarrow>
        cbor_error + 'n json list \<times> cbor_decoder"
  and decode_pairs :: "'n serde \<Rightarrow> decode_limits option \<Rightarrow> nat \<Rightarrow> nat \<Rightarrow> nat \<Rightarrow> 'n json_map \<Rightarrow> cbor_decoder \<Rightarrow>
        cbor_error + 'n json_map \<times> cbor_decoder"
  where
  "decode_value_at_depth S L 0 depth d = Inl StackExhausted"
| "decode_value_at_depth S L (Suc stack) depth d =
     and_then (note_item L depth d) (\<lambda>d.
     and_then (read_u8 d) (\<lambda>(initial, d).
     let major = drop_bit 5 initial; additional = initial AND 0x1f in
     if major = 0 then
       and_then (read_len additional d) (\<lambda>(n, d). Inr (Number (from_u64 S n), d))
     else if major = 1 then
       and_then (read_len additional d) (\<lambda>(raw, d).
       and_then (ensure (- (2 ^ 63) \<le> - 1 - uint raw)
                   (CErr ''negative integer is outside JSON-compatible i64 range'')) (\<lambda>_.
       Inr (Number (from_i64 S (- 1 - uint raw)), d)))
     else if major = 2 then
       and_then (read_sized_len L additional 1 d) (\<lambda>(len, d).
       and_then (reserve_embedded_items L len d) (\<lambda>d.
       and_then (read_bytes len d) (\<lambda>(bs, d).
       Inr (ArrayJ (map (\<lambda>b. Number (from_u64 S (ucast b))) bs), d))))
     else if major = 3 then
       and_then (read_sized_len L additional 1 d) (\<lambda>(len, d).
       and_then (read_bytes len d) (\<lambda>(bs, d).
       and_then (ensure (utf8_ok bs) (CErr ''wire text string is not valid UTF-8'')) (\<lambda>_.
       Inr (StringJ (bytes_str bs), d))))
     else if major = 4 then
       and_then (read_sized_len L additional 1 d) (\<lambda>(len, d).
       and_then (decode_items S L stack (depth + 1) len d) (\<lambda>(items, d).
       Inr (ArrayJ items, d)))
     else if major = 5 then
       and_then (read_sized_len L additional 2 d) (\<lambda>(len, d).
       and_then (decode_pairs S L stack (depth + 1) len [] d) (\<lambda>(obj, d).
       Inr (ObjectJ obj, d)))
     else if major = 7 then decode_simple S additional d
     else Inl (CErr ''unsupported CBOR major type in wire payload'')))"
| "decode_items S L stack depth 0 d = Inr ([], d)"
| "decode_items S L stack depth (Suc n) d =
     and_then (decode_value_at_depth S L stack depth d) (\<lambda>(item, d).
     and_then (decode_items S L stack depth n d) (\<lambda>(items, d). Inr (item # items, d)))"
| "decode_pairs S L stack depth 0 obj d = Inr (obj, d)"
| "decode_pairs S L stack depth (Suc n) obj d =
     and_then (decode_value_at_depth S L stack depth d) (\<lambda>(key, d).
     case key of
       StringJ k \<Rightarrow>
         and_then (decode_value_at_depth S L stack depth d) (\<lambda>(v, d).
         decode_pairs S L stack depth n (map_insert S k v obj) d)
     | _ \<Rightarrow> Inl (CErr ''wire map key is not a text string''))"
  by pat_completeness auto
termination
  by (relation "inv_image (less_than <*lex*> less_than)
       (\<lambda>x. case x of Inl (S, L, stack, depth, d) \<Rightarrow> (stack, 0)
            | Inr (Inl (S, L, stack, depth, n, d)) \<Rightarrow> (stack, Suc n)
            | Inr (Inr (S, L, stack, depth, n, obj, d)) \<Rightarrow> (stack, Suc n))") auto

lemmas decode_level = decode_value_at_depth.simps(2)

declare decode_level [simp del]

definition finish :: "cbor_decoder \<Rightarrow> cbor_error + unit" where
  "finish d = ensure (cd_rest d = []) (CErr ''wire payload has trailing bytes'')"

definition decode_payload :: "'n serde \<Rightarrow> decode_limits option \<Rightarrow> bytes \<Rightarrow> cbor_error + 'n json" where
  "decode_payload S limits payload =
     and_then (decode_value_at_depth S limits (Suc (length payload)) 0 \<lparr>cd_rest = payload, cd_items = 0\<rparr>)
       (\<lambda>(v, d). and_then (finish d) (\<lambda>_. Inr v))"

definition cbor_decode :: "'n serde \<Rightarrow> ('n json \<Rightarrow> 'm option) \<Rightarrow> bytes \<Rightarrow> cbor_error + 'm" where
  "cbor_decode S from_value payload =
     and_then (decode_payload S None payload) (\<lambda>v.
     ok_or (from_value v) (CErr ''failed to lift wire value into message''))"

definition cbor_decode_bounded ::
  "'n serde \<Rightarrow> ('n json \<Rightarrow> 'm option) \<Rightarrow> decode_limits \<Rightarrow> bytes \<Rightarrow> cbor_error + 'm" where
  "cbor_decode_bounded S from_value limits payload =
     and_then (ensure (length payload \<le> max_bytes limits)
                 (CErr ''canonical payload exceeds the bounded maximum'')) (\<lambda>_.
     and_then (decode_payload S (Some limits) payload) (\<lambda>v.
     ok_or (from_value v) (CErr ''failed to lift wire value into message'')))"

section \<open>What the codec relies on\<close>

text \<open>
  Documented behaviour of the library: a number is the one built from what its accessors return,
  negative integers fit in \<open>i64\<close>, and an insertion into a map replaces exactly one key.
\<close>

definition serde_laws :: "'n serde \<Rightarrow> bool" where
  "serde_laws S \<longleftrightarrow>
     (\<forall>n v. as_u64 S n = Some v \<longrightarrow> from_u64 S v = n) \<and>
     (\<forall>n v. as_u64 S n = None \<longrightarrow> as_i64 S n = Some v \<longrightarrow> - (2 ^ 63) \<le> v \<and> v < 0 \<and> from_i64 S v = n) \<and>
     (\<forall>n b. as_u64 S n = None \<longrightarrow> as_i64 S n = None \<longrightarrow> as_f64 S n = Some b \<longrightarrow> from_f64 S b = Some n) \<and>
     (\<forall>k v m. distinct (map fst m) \<longrightarrow>
        distinct (map fst (map_insert S k v m)) \<and> map_of (map_insert S k v m) = (map_of m)(k \<mapsto> v))"

text \<open>Values of the data model: strings are UTF-8, keys are unique, lengths fit the machine.\<close>

definition text_ok :: "string \<Rightarrow> bool" where
  "text_ok t \<longleftrightarrow> utf8_ok (str_bytes t) \<and> length t < 2 ^ 64"

fun json_ok :: "'n json \<Rightarrow> bool" where
  "json_ok (StringJ t) \<longleftrightarrow> text_ok t"
| "json_ok (ArrayJ xs) \<longleftrightarrow> length xs < 2 ^ 64 \<and> (\<forall>x \<in> set xs. json_ok x)"
| "json_ok (ObjectJ es) \<longleftrightarrow> length es < 2 ^ 64 \<and> distinct (map fst es) \<and> (\<forall>(k, v) \<in> set es. text_ok k \<and> json_ok v)"
| "json_ok _ \<longleftrightarrow> True"

definition key_rank :: "string \<Rightarrow> nat \<times> bytes" where
  "key_rank k = (length (encode_text k), encode_text k)"

text \<open>The value a decoder rebuilds: entries inserted in canonical key order, at every level.\<close>

fun canon :: "'n serde \<Rightarrow> 'n json \<Rightarrow> 'n json" where
  "canon S (ArrayJ xs) = ArrayJ (map (canon S) xs)"
| "canon S (ObjectJ es) =
     ObjectJ (fold (\<lambda>(k, v). map_insert S k v)
       (sort_key (\<lambda>(k, _). key_rank k) (map (\<lambda>(k, v). (k, canon S v)) es)) [])"
| "canon S v = v"

section \<open>Heads\<close>

lemma head_bits:
  assumes "m < 8" "a < (32 :: u8)"
  shows "drop_bit 5 (push_bit 5 m OR a) = (m :: u8)" "(push_bit 5 m OR a) AND 0x1f = a"
proof -
  have small: "take_bit n w = w" if "unat w < 2 ^ n" for n and w :: u8
    using that by (simp add: word_unat_eq_iff unsigned_take_bit_eq take_bit_nat_eq_self)
  have a: "take_bit 5 a = a" using assms(2) by (intro small) (simp add: word_less_nat_alt)
  then have hi: "\<not> bit a n" if "5 \<le> n" for n using that by (metis bit_take_bit_iff not_less)
  have "take_bit 3 m = m" using assms(1) by (intro small) (simp add: word_less_nat_alt)
  then have mhi: "bit m n \<Longrightarrow> n < 3" for n by (metis bit_take_bit_iff)
  show "drop_bit 5 (push_bit 5 m OR a) = m"
    by (rule bit_word_eqI) (use hi mhi in \<open>auto simp: bit_simps\<close>)
  have "take_bit 5 (push_bit 5 m OR a) = a"
    by (rule bit_word_eqI) (use hi in \<open>auto simp: bit_simps\<close>)
  moreover have "mask 5 = (0x1f :: u8)" by (simp add: mask_eq_exp_minus_1)
  ultimately show "(push_bit 5 m OR a) AND 0x1f = a" by (simp only: take_bit_eq_mask)
qed

lemma ucast_small:
  assumes "(len :: u64) \<le> 0xff"
  shows "ucast (ucast len :: u8) = len" "unat (ucast len :: u8) = unat len"
proof -
  have "unat len < 256" using assms by (simp add: word_le_nat_alt)
  then show u: "unat (ucast len :: u8) = unat len" by (simp add: unsigned_ucast_eq unsigned_take_bit_eq take_bit_nat_eq_self)
  show "ucast (ucast len :: u8) = len"
    using u \<open>unat len < 256\<close> by (simp add: word_unat_eq_iff unsigned_ucast_eq unsigned_take_bit_eq take_bit_nat_eq_self)
qed

lemma ucast_put:
  "(len :: u64) \<le> 0xffff \<Longrightarrow> be_nat (put_u16 (ucast len)) = unat len"
  "len \<le> 0xffffffff \<Longrightarrow> be_nat (put_u32 (ucast len)) = unat len"
  "be_nat (put_u64 len) = unat len"
proof -
  have lt: "unat len < 2 ^ 64" using unsigned_less [of len, where ?'a = nat] by simp
  assume "len \<le> 0xffff"
  then have "unat len < 2 ^ 16" by (simp add: word_le_nat_alt)
  then show "be_nat (put_u16 (ucast len)) = unat len"
    by (simp add: put_u16_def be_nat_be_bytes unsigned_ucast_eq unsigned_take_bit_eq take_bit_nat_eq_self)
next
  assume "len \<le> 0xffffffff"
  then have "unat len < 2 ^ 32" by (simp add: word_le_nat_alt)
  then show "be_nat (put_u32 (ucast len)) = unat len"
    by (simp add: put_u32_def be_nat_be_bytes unsigned_ucast_eq unsigned_take_bit_eq take_bit_nat_eq_self)
next
  have "unat len < 2 ^ 64" using unsigned_less [of len, where ?'a = nat] by simp
  then show "be_nat (put_u64 len) = unat len"
    by (simp add: put_u64_def be_nat_be_bytes)
qed

abbreviation cursor :: "bytes \<Rightarrow> nat \<Rightarrow> cbor_decoder" where
  "cursor bs c \<equiv> \<lparr>cd_rest = bs, cd_items = c\<rparr>"

lemma read_be_append: "length bs = n \<Longrightarrow> read_be n (cursor (bs @ rest) c) = Inr (of_nat (be_nat bs), cursor rest c)"
  by (simp add: read_be_def read_bytes_def)

lemma type_len_head:
  assumes "m < 8"
  shows "\<exists>h t. encode_type_len m len = h # t \<and> drop_bit 5 h = m \<and>
    (\<forall>rest c. read_len (h AND 0x1f) (cursor (t @ rest) c) = Inr (len, cursor rest c))"
proof -
  consider "len \<le> 23" | "\<not> len \<le> 23" "len \<le> 0xff" | "\<not> len \<le> 0xff" "len \<le> 0xffff"
    | "\<not> len \<le> 0xffff" "len \<le> 0xffffffff" | "\<not> len \<le> 0xffffffff" by blast
  then show ?thesis
  proof cases
    case 1
    then have le: "len \<le> 0xff" by (rule order_trans) simp
    have "unat (ucast len :: u8) \<le> 23" using ucast_small(2) [OF le] 1 by (simp add: word_le_nat_alt)
    then have "(ucast len :: u8) < 32" "(ucast len :: u8) \<le> 23" by (simp_all add: word_less_nat_alt word_le_nat_alt)
    with 1 head_bits [OF assms, of "ucast len"] ucast_small(1) [OF le] show ?thesis
      by (simp add: encode_type_len_def read_len_def)
  next
    case 2
    with head_bits [OF assms, of 24] ucast_small(1) [of len] show ?thesis
      by (simp add: encode_type_len_def read_len_def read_u8_def)
  next
    case 3
    then have "\<not> len \<le> 23" by (simp add: word_le_nat_alt)
    with 3 head_bits [OF assms, of 25] ucast_put(1) [of len] show ?thesis
      by (simp add: encode_type_len_def read_len_def read_be_append)
  next
    case 4
    then have "\<not> len \<le> 23" "\<not> len \<le> 0xff" by (simp_all add: word_le_nat_alt)
    with 4 head_bits [OF assms, of 26] ucast_put(2) [of len] show ?thesis
      by (simp add: encode_type_len_def read_len_def read_be_append)
  next
    case 5
    then have "\<not> len \<le> 23" "\<not> len \<le> 0xff" "\<not> len \<le> 0xffff" by (simp_all add: word_le_nat_alt)
    with 5 head_bits [OF assms, of 27] ucast_put(3) [of len] show ?thesis
      by (simp add: encode_type_len_def read_len_def read_be_append)
  qed
qed

section \<open>Round trip\<close>

lemma head_cases:
  assumes "m < 8"
  obtains h t where "encode_type_len m len = h # t" "drop_bit 5 h = m"
    "\<And>rest c. read_len (h AND 0x1f) (cursor (t @ rest) c) = Inr (len, cursor rest c)"
  using type_len_head [OF assms, of len] by blast

lemma length_head_pos: "m < 8 \<Longrightarrow> Suc 0 \<le> length (encode_type_len m len)"
  by (rule head_cases [of m len]) simp_all

lemma head_nonempty: "m < 8 \<Longrightarrow> encode_type_len m len \<noteq> []"
  using length_head_pos [of m len] by auto

lemma unat_length: "n < 2 ^ 64 \<Longrightarrow> unat (of_nat n :: u64) = n"
  by (simp add: unat_of_nat)

lemma decode_uint:
  "decode_value_at_depth S None (Suc k) depth (cursor (encode_type_len 0 n @ rest) c) =
     Inr (Number (from_u64 S n), cursor rest c)"
  by (rule head_cases [of 0 n]) (simp_all add: decode_level note_item_def read_u8_def Let_def)

lemma decode_nint:
  "uint n < 2 ^ 63 \<Longrightarrow> decode_value_at_depth S None (Suc k) depth (cursor (encode_type_len 1 n @ rest) c) =
     Inr (Number (from_i64 S (- 1 - uint n)), cursor rest c)"
  by (rule head_cases [of 1 n]) (simp_all add: decode_level note_item_def read_u8_def Let_def)

lemma decode_text:
  assumes "text_ok t"
  shows "decode_value_at_depth S None (Suc k) depth (cursor (encode_text t @ rest) c) = Inr (StringJ t, cursor rest c)"
  using assms
  by (rule_tac head_cases [of 3 "of_nat (length t)"])
    (simp_all add: encode_text_def decode_level note_item_def read_u8_def read_sized_len_def read_bytes_def Let_def text_ok_def unat_length)

lemma decode_array:
  assumes "n < 2 ^ 64" "n \<le> length rest"
  shows "decode_value_at_depth S None (Suc k) depth (cursor (encode_type_len 4 (of_nat n) @ rest) c) =
     and_then (decode_items S None k (Suc depth) n (cursor rest c)) (\<lambda>(items, d). Inr (ArrayJ items, d))"
  using assms
  by (rule_tac head_cases [of 4 "of_nat n"])
    (simp_all add: decode_level note_item_def read_u8_def read_sized_len_def Let_def unat_length)

lemma decode_object:
  assumes "n < 2 ^ 64" "n \<le> length rest div 2"
  shows "decode_value_at_depth S None (Suc k) depth (cursor (encode_type_len 5 (of_nat n) @ rest) c) =
     and_then (decode_pairs S None k (Suc depth) n [] (cursor rest c)) (\<lambda>(obj, d). Inr (ObjectJ obj, d))"
  using assms
  by (rule_tac head_cases [of 5 "of_nat n"])
    (simp_all add: decode_level note_item_def read_u8_def read_sized_len_def Let_def unat_length)

lemma decode_number:
  assumes "serde_laws S" "encode_number S x = Inr bs"
  shows "decode_value_at_depth S None (Suc k) depth (cursor (bs @ rest) c) = Inr (Number x, cursor rest c)"
proof (cases "as_u64 S x")
  case (Some v)
  then have "from_u64 S v = x" using assms(1) by (simp add: serde_laws_def)
  then show ?thesis using Some assms(2) by (auto simp: encode_number_def decode_uint)
next
  case None
  note u = this
  show ?thesis
  proof (cases "as_i64 S x")
    case (Some v)
    then have v: "- (2 ^ 63) \<le> v" "v < 0" "from_i64 S v = x" using assms(1) u unfolding serde_laws_def by blast+
    have id: "uint (of_int w :: u64) = w" if "0 \<le> w" "w < 2 ^ 64" for w
      using that by (simp add: uint_word_of_int)
    define w where "w = - 1 - v"
    have range: "0 \<le> w" "w < 2 ^ 63" "- 1 - w = v" using v by (simp_all add: w_def)
    then have w: "uint (of_int w :: u64) = w" by (intro id) simp_all
    have "bs = encode_type_len 1 (of_int w)"
      using u Some v(2) assms(2) by (simp add: encode_number_def w_def del: of_int_diff)
    then show ?thesis
      using decode_nint [of "of_int w" S k depth rest c] w range v(3) by simp
  next
    case None
    then obtain b where b: "as_f64 S x = Some b" "bs = 0xfb # put_u64 b"
      using u assms(2) by (auto simp: encode_number_def split: option.splits)
    then have "from_f64 S b = Some x" using u None assms(1) by (simp add: serde_laws_def)
    then show ?thesis
      by (simp add: b(2) decode_level note_item_def read_u8_def Let_def decode_simple_def read_bytes_def ucast_put(3))
  qed
qed

lemma encode_value_nonempty: "encode_value S v = Inr bs \<Longrightarrow> bs \<noteq> []"
  using head_nonempty [of 0] head_nonempty [of 1] head_nonempty [of 3] head_nonempty [of 4] head_nonempty [of 5]
  by (cases v) (auto simp: encode_number_def encode_text_def and_then_eq_Inr split: option.splits if_splits)

lemma encode_items_length: "encode_items S xs = Inr bs \<Longrightarrow> length xs \<le> length bs"
proof (induction xs arbitrary: bs)
  case (Cons x xs)
  then obtain b cs where "encode_value S x = Inr b" "encode_items S xs = Inr cs" "bs = b @ cs"
    by (auto simp: and_then_eq_Inr)
  with Cons.IH [of cs] encode_value_nonempty [of S x b] show ?case by (cases b) auto
qed simp

lemma decode_items_encoded:
  assumes "\<And>x b r. x \<in> set xs \<Longrightarrow> encode_value S x = Inr b \<Longrightarrow> length b < stack \<Longrightarrow>
      decode_value_at_depth S None stack depth (cursor (b @ r) c) = Inr (canon S x, cursor r c)"
    and "encode_items S xs = Inr bs" "length bs < stack"
  shows "decode_items S None stack depth (length xs) (cursor (bs @ rest) c) = Inr (map (canon S) xs, cursor rest c)"
  using assms
proof (induction xs arbitrary: bs)
  case (Cons x xs)
  then obtain b cs where b: "encode_value S x = Inr b" "encode_items S xs = Inr cs" "bs = b @ cs"
    by (auto simp: and_then_eq_Inr)
  have "decode_value_at_depth S None stack depth (cursor (b @ cs @ rest) c) = Inr (canon S x, cursor (cs @ rest) c)"
    by (rule Cons.prems(1)) (use b Cons.prems(3) in simp_all)
  moreover have "decode_items S None stack depth (length xs) (cursor (cs @ rest) c) = Inr (map (canon S) xs, cursor rest c)"
    by (rule Cons.IH) (use b Cons.prems in simp_all)
  ultimately show ?case by (simp add: b(3))
qed simp

text \<open>The bytes of one entry, and of an object whose entries all encode.\<close>

definition entry_bytes :: "'n serde \<Rightarrow> string \<times> 'n json \<Rightarrow> bytes" where
  "entry_bytes S e = encode_text (fst e) @ projr (encode_value S (snd e))"

definition encodable :: "'n serde \<Rightarrow> string \<times> 'n json \<Rightarrow> bool" where
  "encodable S e \<longleftrightarrow> (\<exists>b. encode_value S (snd e) = Inr b)"

lemma encodable_pair: "encodable S (k, v) \<longleftrightarrow> (\<exists>b. encode_value S v = Inr b)"
  by (simp add: encodable_def)

lemma encode_entries_iff:
  "encode_entries S es = Inr ents \<longleftrightarrow> (\<forall>e \<in> set es. encodable S e) \<and>
     ents = map (\<lambda>e. (encode_text (fst e), projr (encode_value S (snd e)))) es"
proof (induction es arbitrary: ents)
  case (Cons e es)
  obtain k v where e: "e = (k, v)" by (cases e)
  show ?case unfolding e by (auto simp: and_then_eq_Inr Cons encodable_pair)
qed auto

lemma insort_key_map: "insort_key f (g x) (map g xs) = map g (insort_key (\<lambda>y. f (g y)) x xs)"
  by (induction xs) simp_all

lemma sort_key_map: "sort_key f (map g xs) = map g (sort_key (\<lambda>y. f (g y)) xs)"
  by (induction xs) (simp_all add: insort_key_map)

definition sorted_entries :: "(string \<times> 'a) list \<Rightarrow> (string \<times> 'a) list" where
  "sorted_entries es = sort_key (\<lambda>e. key_rank (fst e)) es"

lemma set_sorted_entries [simp]: "set (sorted_entries es) = set es" "length (sorted_entries es) = length es"
  by (simp_all add: sorted_entries_def)

lemma encode_object_iff:
  "encode_value S (ObjectJ es) = Inr bs \<longleftrightarrow> (\<forall>e \<in> set es. encodable S e) \<and>
     bs = encode_type_len 5 (of_nat (length es)) @ concat (map (entry_bytes S) (sorted_entries es))"
  by (auto simp: and_then_eq_Inr encode_entries_iff sort_key_map sorted_entries_def key_rank_def
      entry_bytes_def [abs_def] comp_def)

lemma encode_text_nonempty: "encode_text t \<noteq> []"
  using head_nonempty [of 3] by (auto simp: encode_text_def)

lemma entries_length:
  "\<forall>e \<in> set es. encodable S e \<Longrightarrow> 2 * length es \<le> length (concat (map (entry_bytes S) es))"
proof (induction es)
  case (Cons e es)
  obtain b where b: "encode_value S (snd e) = Inr b" using Cons.prems by (auto simp: encodable_def)
  then have "2 \<le> length (entry_bytes S e)"
    using encode_value_nonempty [OF b] encode_text_nonempty [of "fst e"]
    by (cases b; cases "encode_text (fst e)") (auto simp: entry_bytes_def)
  with Cons show ?case by simp
qed simp

lemma decode_pairs_encoded:
  assumes "\<And>e r. e \<in> set es \<Longrightarrow> length (entry_bytes S e) \<le> stack \<Longrightarrow>
      decode_value_at_depth S None stack depth (cursor (projr (encode_value S (snd e)) @ r) c) =
        Inr (canon S (snd e), cursor r c)"
    and "\<forall>e \<in> set es. text_ok (fst e)" "length (concat (map (entry_bytes S) es)) < stack"
  shows "decode_pairs S None stack depth (length es) m (cursor (concat (map (entry_bytes S) es) @ rest) c) =
     Inr (fold (\<lambda>e. map_insert S (fst e) (canon S (snd e))) es m, cursor rest c)"
  using assms
proof (induction es arbitrary: m)
  case (Cons e es)
  obtain k where k: "stack = Suc k" using Cons.prems(3) by (cases stack) auto
  have "decode_value_at_depth S None stack depth
      (cursor (encode_text (fst e) @ projr (encode_value S (snd e)) @ concat (map (entry_bytes S) es) @ rest) c) =
      Inr (StringJ (fst e), cursor (projr (encode_value S (snd e)) @ concat (map (entry_bytes S) es) @ rest) c)"
    unfolding k by (rule decode_text) (use Cons.prems(2) in simp)
  moreover have "decode_value_at_depth S None stack depth
      (cursor (projr (encode_value S (snd e)) @ concat (map (entry_bytes S) es) @ rest) c) =
      Inr (canon S (snd e), cursor (concat (map (entry_bytes S) es) @ rest) c)"
    by (rule Cons.prems(1)) (use Cons.prems(3) in simp_all)
  moreover have "decode_pairs S None stack depth (length es) (map_insert S (fst e) (canon S (snd e)) m)
      (cursor (concat (map (entry_bytes S) es) @ rest) c) =
      Inr (fold (\<lambda>e. map_insert S (fst e) (canon S (snd e))) (e # es) m, cursor rest c)"
    unfolding fold_simps comp_def by (rule Cons.IH) (use Cons.prems in simp_all)
  ultimately show ?case by (simp add: entry_bytes_def [of S e])
qed simp

lemma canon_object: "canon S (ObjectJ es) = ObjectJ (fold (\<lambda>e. map_insert S (fst e) (canon S (snd e))) (sorted_entries es) [])"
  by (simp add: sorted_entries_def sort_key_map fold_map comp_def case_prod_unfold)

lemma round_trip_value:
  assumes "serde_laws S"
  shows "json_ok v \<Longrightarrow> encode_value S v = Inr bs \<Longrightarrow> length bs < stack \<Longrightarrow>
     decode_value_at_depth S None stack depth (cursor (bs @ rest) c) = Inr (canon S v, cursor rest c)"
proof (induction v arbitrary: bs stack depth rest c)
  case Null
  then obtain k where "stack = Suc k" by (cases stack) auto
  with Null show ?case by (auto simp: decode_level note_item_def read_u8_def Let_def decode_simple_def)
next
  case (BoolJ b)
  then obtain k where "stack = Suc k" by (cases stack) auto
  with BoolJ show ?case by (auto simp: decode_level note_item_def read_u8_def Let_def decode_simple_def)
next
  case (Number x)
  then obtain k where "stack = Suc k" by (cases stack) auto
  with Number show ?case by (simp add: decode_number [OF assms])
next
  case (StringJ t)
  then obtain k where "stack = Suc k" by (cases stack) auto
  with StringJ show ?case by (auto simp: decode_text)
next
  case (ArrayJ xs)
  then obtain k where k: "stack = Suc k" by (cases stack) auto
  obtain body where body: "encode_items S xs = Inr body" "bs = encode_type_len 4 (of_nat (length xs)) @ body"
    using ArrayJ.prems(2) by (auto simp: and_then_eq_Inr)
  have "length body < k"
    using ArrayJ.prems(3) length_head_pos [of 4 "of_nat (length xs)"]
    unfolding k body(2) length_append by simp
  then have "decode_items S None k (Suc depth) (length xs) (cursor (body @ rest) c) = Inr (map (canon S) xs, cursor rest c)"
    by (intro decode_items_encoded [OF _ body(1)]) (use ArrayJ.IH ArrayJ.prems(1) in simp_all)
  moreover have "length xs < 2 ^ 64" "length xs \<le> length (body @ rest)"
    using ArrayJ.prems(1) encode_items_length [OF body(1)] by simp_all
  ultimately show ?case unfolding k body(2) append_assoc by (simp only: decode_array) simp
next
  case (ObjectJ es)
  then obtain k where k: "stack = Suc k" by (cases stack) auto
  let ?es = "sorted_entries es" and ?body = "concat (map (entry_bytes S) (sorted_entries es))"
  have enc: "\<forall>e \<in> set es. encodable S e" and bs: "bs = encode_type_len 5 (of_nat (length es)) @ ?body"
    using ObjectJ.prems(2) encode_object_iff [of S es bs] by auto
  have stack: "length ?body < k" using ObjectJ.prems(3) length_head_pos [of 5 "of_nat (length es)"]
    unfolding k bs length_append by simp
  have "decode_pairs S None k (Suc depth) (length ?es) [] (cursor (?body @ rest) c) =
      Inr (fold (\<lambda>e. map_insert S (fst e) (canon S (snd e))) ?es [], cursor rest c)"
  proof (rule decode_pairs_encoded [OF _ _ stack])
    fix e r assume e: "e \<in> set ?es"
    obtain b where b: "encode_value S (snd e) = Inr b" using e enc by (auto simp: encodable_def)
    have "length (entry_bytes S e) \<le> length ?body"
      using e by (auto simp: length_concat intro!: member_le_sum_list)
    then have "length b < k" using stack b encode_text_nonempty [of "fst e"] by (simp add: entry_bytes_def)
    moreover have "json_ok (snd e)" using e ObjectJ.prems(1) by auto
    ultimately show "decode_value_at_depth S None k (Suc depth) (cursor (projr (encode_value S (snd e)) @ r) c) =
        Inr (canon S (snd e), cursor r c)"
      using ObjectJ.IH [of e "snd e" b k "Suc depth" r c] e b by (cases e) auto
  qed (use ObjectJ.prems(1) in auto)
  moreover have "length es < 2 ^ 64" "length es \<le> length (?body @ rest) div 2"
    using ObjectJ.prems(1) entries_length [of ?es S] enc by simp_all
  ultimately show ?case unfolding k bs append_assoc canon_object by (simp only: decode_object) simp
qed

section \<open>Equality of values\<close>

text \<open>Equality of the data model: objects are equal as maps, whatever order their entries have.\<close>

inductive same_json :: "'n json \<Rightarrow> 'n json \<Rightarrow> bool" where
  same_null: "same_json Null Null"
| same_bool: "same_json (BoolJ b) (BoolJ b)"
| same_number: "same_json (Number n) (Number n)"
| same_string: "same_json (StringJ t) (StringJ t)"
| same_array: "list_all2 same_json xs ys \<Longrightarrow> same_json (ArrayJ xs) (ArrayJ ys)"
| same_object: "fst ` set es = fst ` set fs \<Longrightarrow>
    (\<And>k v w. map_of es k = Some v \<Longrightarrow> map_of fs k = Some w \<Longrightarrow> same_json v w) \<Longrightarrow>
    same_json (ObjectJ es) (ObjectJ fs)"

inductive_cases same_array_elim: "same_json (ArrayJ xs) w"
inductive_cases same_object_elim: "same_json (ObjectJ es) w"

lemma same_json_refl: "json_ok v \<Longrightarrow> same_json v v"
proof (induction v)
  case (ArrayJ xs)
  then show ?case by (intro same_array) (auto simp: list_all2_same)
next
  case (ObjectJ es)
  then show ?case by (intro same_object) (fastforce dest: map_of_SomeD)+
qed (auto intro: same_json.intros)

lemma same_json_sym: "same_json v w \<Longrightarrow> same_json w v"
proof (induction rule: same_json.induct)
  case (same_array xs ys)
  then show ?case by (intro same_json.same_array) (auto simp: list_all2_conv_all_nth)
next
  case (same_object es fs)
  then show ?case by (intro same_json.same_object) auto
qed (auto intro: same_json.intros)

lemma same_json_trans: "same_json v w \<Longrightarrow> same_json w x \<Longrightarrow> same_json v x"
proof (induction arbitrary: x rule: same_json.induct)
  case (same_array xs ys)
  from same_array.prems obtain zs where zs: "x = ArrayJ zs" "list_all2 same_json ys zs" by (rule same_array_elim)
  with same_array.IH show ?case by (auto simp: list_all2_conv_all_nth intro!: same_json.same_array)
next
  case (same_object es fs)
  from same_object.prems obtain gs where gs: "x = ObjectJ gs" "fst ` set fs = fst ` set gs"
      "\<And>k v w. map_of fs k = Some v \<Longrightarrow> map_of gs k = Some w \<Longrightarrow> same_json v w" by (rule same_object_elim) blast
  show ?case unfolding gs(1)
  proof (rule same_json.same_object)
    show "fst ` set es = fst ` set gs" using same_object.hyps gs(2) by simp
    fix k v w assume vw: "map_of es k = Some v" "map_of gs k = Some w"
    then have "k \<in> fst ` set fs" using same_object.hyps by (metis map_of_eq_None_iff option.distinct(1))
    then obtain u where "map_of fs k = Some u" by (metis map_of_eq_None_iff not_None_eq)
    then show "same_json v w" using same_object.IH vw gs(3) by blast
  qed
qed auto

lemma insert_all:
  assumes "serde_laws S" "distinct (map fst m)" "distinct (map fst es)"
  shows "distinct (map fst (fold (\<lambda>e. map_insert S (fst e) (f (snd e))) es m)) \<and>
    map_of (fold (\<lambda>e. map_insert S (fst e) (f (snd e))) es m) k =
      (case map_of es k of Some v \<Rightarrow> Some (f v) | None \<Rightarrow> map_of m k)"
  using assms(2,3)
proof (induction es arbitrary: m)
  case (Cons e es)
  have ins: "distinct (map fst (map_insert S (fst e) (f (snd e)) m))"
    "map_of (map_insert S (fst e) (f (snd e)) m) = (map_of m)(fst e \<mapsto> f (snd e))"
    using assms(1) Cons.prems(1) unfolding serde_laws_def by blast+
  moreover have "map_of es (fst e) = None" using Cons.prems(2) by (simp add: map_of_eq_None_iff)
  ultimately show ?case using Cons.IH [OF ins(1)] Cons.prems(2) by (auto split: option.splits)
qed simp

lemma distinct_sorted_entries [simp]: "distinct (map fst (sorted_entries es)) \<longleftrightarrow> distinct (map fst es)"
proof -
  have "mset (map fst (sorted_entries es)) = mset (map fst es)" by (simp add: sorted_entries_def mset_map)
  then show ?thesis by (rule mset_eq_imp_distinct_iff)
qed

lemma map_of_sorted_entries:
  assumes "distinct (map fst es)"
  shows "map_of (sorted_entries es) = map_of es"
proof
  fix k
  have "map_of (sorted_entries es) k = Some v \<longleftrightarrow> map_of es k = Some v" for v
    using assms by (simp add: map_of_eq_Some_iff)
  then show "map_of (sorted_entries es) k = map_of es k" by (metis not_Some_eq)
qed

lemma same_canon: "serde_laws S \<Longrightarrow> json_ok v \<Longrightarrow> same_json v (canon S v)"
proof (induction v)
  case (ArrayJ xs)
  then show ?case by (auto simp: list_all2_conv_all_nth intro!: same_array)
next
  case (ObjectJ es)
  let ?fs = "fold (\<lambda>e. map_insert S (fst e) (canon S (snd e))) (sorted_entries es) []"
  have dist: "distinct (map fst es)" using ObjectJ.prems by simp
  have fs: "map_of ?fs k = map_option (canon S) (map_of es k)" for k
    using insert_all [OF ObjectJ.prems(1), of "[]" "sorted_entries es" "canon S" k] dist
    by (cases "map_of es k") (simp_all add: map_of_sorted_entries)
  show ?case unfolding canon_object
  proof (rule same_object)
    have "k \<in> fst ` set ?fs \<longleftrightarrow> k \<in> fst ` set es" for k
      using fs [of k] map_of_eq_None_iff [of ?fs k] map_of_eq_None_iff [of es k] by (cases "map_of es k") auto
    then show "fst ` set es = fst ` set ?fs" by blast
    fix k v w assume "map_of es k = Some v" "map_of ?fs k = Some w"
    then have "w = canon S v" "(k, v) \<in> set es" using fs [of k] by (auto dest: map_of_SomeD)
    then show "same_json v w" using ObjectJ.IH [of "(k, v)" v] ObjectJ.prems by auto
  qed
qed (auto intro: same_json.intros)

text \<open>Equal values have the same bytes: the order of an object's entries is determined by its keys.\<close>

lemma encode_text_inject:
  assumes "text_ok s" "text_ok t" "encode_text s = encode_text t"
  shows "s = t"
  using decode_text [OF assms(1), of "undefined :: nat serde" 0 0 "[]" 0] decode_text [OF assms(2), of "undefined :: nat serde" 0 0 "[]" 0] assms(3)
  by simp

lemma sorted_bytes:
  assumes "distinct (map fst es)"
  shows "concat (map (entry_bytes S) (sorted_entries es)) =
    concat (map (\<lambda>k. encode_text k @ projr (encode_value S (the (map_of es k)))) (sort_key key_rank (map fst es)))"
proof -
  have "entry_bytes S e = encode_text (fst e) @ projr (encode_value S (the (map_of es (fst e))))"
    if "e \<in> set (sorted_entries es)" for e
  proof -
    have "map_of es (fst e) = Some (snd e)" using that assms by simp
    then show ?thesis by (simp add: entry_bytes_def)
  qed
  then have "map (entry_bytes S) (sorted_entries es) =
      map (\<lambda>e. encode_text (fst e) @ projr (encode_value S (the (map_of es (fst e))))) (sorted_entries es)"
    by (intro map_cong) auto
  then show ?thesis unfolding sorted_entries_def sort_key_map map_map comp_def by (rule arg_cong)
qed

lemma sorted_keys_unique:
  assumes "distinct ks" "distinct ls" "set ks = set ls" "\<forall>k \<in> set ks. text_ok k"
  shows "sort_key key_rank ks = sort_key key_rank ls"
proof (rule sort_key_inj_key_eq)
  show "mset ks = mset (sort_key key_rank ls)" using assms(1-3) by (simp add: set_eq_iff_mset_eq_distinct [symmetric])
  show "inj_on key_rank (set ks)" using assms(4) by (auto simp: inj_on_def key_rank_def intro: encode_text_inject)
qed simp

lemma encode_items_cong:
  assumes "list_all2 (\<lambda>x y. \<forall>b. encode_value S x = Inr b \<longleftrightarrow> encode_value S y = Inr b) xs ys"
  shows "encode_items S xs = Inr bs \<longleftrightarrow> encode_items S ys = Inr bs"
  using assms by (induction arbitrary: bs rule: list_all2_induct) (simp_all add: and_then_eq_Inr)

lemma key_value: "k \<in> fst ` set es \<Longrightarrow> \<exists>v. map_of es k = Some v"
  by (cases "map_of es k") (auto simp: map_of_eq_None_iff)

lemma value_key: "map_of es k = Some v \<Longrightarrow> k \<in> fst ` set es"
  by (metis fst_conv image_eqI map_of_SomeD)

lemma encodable_entries:
  "distinct (map fst es) \<Longrightarrow> (\<forall>e \<in> set es. encodable S e) \<longleftrightarrow>
     (\<forall>k v. map_of es k = Some v \<longrightarrow> (\<exists>b. encode_value S v = Inr b))"
  by (auto simp: encodable_def)

lemma encode_object_cong:
  assumes dist: "distinct (map fst es)" "distinct (map fst fs)" and keys: "fst ` set es = fst ` set fs"
    and ok: "\<forall>k \<in> fst ` set es. text_ok k"
    and same: "\<And>k v w b. map_of es k = Some v \<Longrightarrow> map_of fs k = Some w \<Longrightarrow> encode_value S v = Inr b \<longleftrightarrow> encode_value S w = Inr b"
  shows "encode_value S (ObjectJ es) = Inr bs \<longleftrightarrow> encode_value S (ObjectJ fs) = Inr bs"
proof -
  have order: "sort_key key_rank (map fst es) = sort_key key_rank (map fst fs)"
    by (rule sorted_keys_unique [OF dist]) (use keys ok in auto)
  have len: "length es = length fs"
    using arg_cong [OF order, of length] by simp
  have enc: "(\<forall>e \<in> set es. encodable S e) \<longleftrightarrow> (\<forall>e \<in> set fs. encodable S e)"
    unfolding encodable_entries [OF dist(1)] encodable_entries [OF dist(2)]
  proof (intro iffI allI impI)
    fix k w assume all: "\<forall>k v. map_of es k = Some v \<longrightarrow> (\<exists>b. encode_value S v = Inr b)" and w: "map_of fs k = Some w"
    have "k \<in> fst ` set es" using value_key [OF w] unfolding keys .
    from key_value [OF this] obtain v where v: "map_of es k = Some v" by (elim exE)
    obtain b where "encode_value S v = Inr b" using all v by auto
    then have "encode_value S w = Inr b" using same [OF v w] by simp
    then show "\<exists>b. encode_value S w = Inr b" by (rule exI)
  next
    fix k v assume all: "\<forall>k v. map_of fs k = Some v \<longrightarrow> (\<exists>b. encode_value S v = Inr b)" and v: "map_of es k = Some v"
    have "k \<in> fst ` set fs" using value_key [OF v] unfolding keys .
    from key_value [OF this] obtain w where w: "map_of fs k = Some w" by (elim exE)
    obtain b where "encode_value S w = Inr b" using all w by auto
    then have "encode_value S v = Inr b" using same [OF v w] by simp
    then show "\<exists>b. encode_value S v = Inr b" by (rule exI)
  qed
  have "concat (map (entry_bytes S) (sorted_entries es)) = concat (map (entry_bytes S) (sorted_entries fs))"
    if all: "\<forall>e \<in> set es. encodable S e"
    unfolding sorted_bytes [OF dist(1)] sorted_bytes [OF dist(2)] order
  proof (intro arg_cong [of _ _ concat] map_cong refl arg_cong2 [of _ _ _ _ "(@)"])
    fix k assume "k \<in> set (sort_key key_rank (map fst fs))"
    then have k: "k \<in> fst ` set es" "k \<in> fst ` set fs" using keys by auto
    obtain v w where vw: "map_of es k = Some v" "map_of fs k = Some w"
      using key_value [OF k(1)] key_value [OF k(2)] by (elim exE)
    obtain b where b: "encode_value S v = Inr b"
      using all vw(1) unfolding encodable_entries [OF dist(1)] by auto
    then have "encode_value S w = Inr b" using same [OF vw] by simp
    with b vw show "projr (encode_value S (the (map_of es k))) = projr (encode_value S (the (map_of fs k)))" by simp
  qed
  then show ?thesis unfolding encode_object_iff len using enc by auto
qed

lemma same_json_bytes:
  "same_json v w \<Longrightarrow> json_ok v \<Longrightarrow> json_ok w \<Longrightarrow> encode_value S v = Inr bs \<longleftrightarrow> encode_value S w = Inr bs"
proof (induction arbitrary: bs rule: same_json.induct)
  case (same_array xs ys)
  have len: "length xs = length ys" using same_array.IH by (rule list_all2_lengthD)
  have "list_all2 (\<lambda>x y. \<forall>b. encode_value S x = Inr b \<longleftrightarrow> encode_value S y = Inr b) xs ys"
    unfolding list_all2_conv_all_nth
  proof (intro conjI allI impI len)
    fix i b assume i: "i < length xs"
    then have "json_ok (xs ! i)" "json_ok (ys ! i)" using same_array.prems len by auto
    then show "encode_value S (xs ! i) = Inr b \<longleftrightarrow> encode_value S (ys ! i) = Inr b"
      using list_all2_nthD [OF same_array.IH i] by blast
  qed
  then show ?case by (simp add: and_then_eq_Inr encode_items_cong len)
next
  case (same_object es fs)
  show ?case
  proof (rule encode_object_cong)
    fix k v w b assume vw: "map_of es k = Some v" "map_of fs k = Some w"
    then have "json_ok v" "json_ok w" using same_object.prems by (auto dest!: map_of_SomeD)
    with same_object.IH [OF vw] show "encode_value S v = Inr b \<longleftrightarrow> encode_value S w = Inr b" by blast
  qed (use same_object.prems same_object.hyps(1) in auto)
qed auto

end
