(* ===== verification/Cbor_Limits.thy ===== *)
theory Cbor_Limits
  imports Cbor "HOL-Library.AList"
begin

text \<open>
  What the CBOR codec (\<open>canonical_cbor.rs\<close>) guarantees. The recursion is bounded by the length of
  the payload. Limits only reject: an accepted payload decodes as it does without limits, has no
  more items and no deeper nesting than they allow, and its value is well formed. The properties
  of encoder and decoder and their witnesses, on a concrete instance of the library, close the
  theory.
\<close>

section \<open>The recursion bound is enough\<close>

lemma count_items_D:
  "count_items n L d = Inr d' \<Longrightarrow> d' = d\<lparr>cd_items := cd_items d + n\<rparr> \<and> cd_items d + n \<le> max_items L"
  by (auto simp: count_items_def and_then_eq_Inr ensure_eq_Inr)

lemma note_item_rest: "note_item L depth d = Inr d' \<Longrightarrow> cd_rest d' = cd_rest d"
  by (auto simp: note_item_def and_then_eq_Inr split: option.splits dest!: count_items_D)

lemma reserve_rest: "reserve_embedded_items L n d = Inr d' \<Longrightarrow> cd_rest d' = cd_rest d"
  by (auto simp: reserve_embedded_items_def split: option.splits dest!: count_items_D)

lemma read_u8_D: "read_u8 d = Inr (b, d') \<Longrightarrow> length (cd_rest d) = Suc (length (cd_rest d')) \<and> cd_items d' = cd_items d"
  by (auto simp: read_u8_def split: list.splits)

lemma read_bytes_D:
  "read_bytes n d = Inr (bs, d') \<Longrightarrow> length (cd_rest d') \<le> length (cd_rest d) \<and> cd_items d' = cd_items d"
  by (auto simp: read_bytes_def and_then_eq_Inr)

lemma read_len_D:
  "read_len a d = Inr (n, d') \<Longrightarrow> length (cd_rest d') \<le> length (cd_rest d) \<and> cd_items d' = cd_items d"
  by (auto simp: read_len_def read_be_def and_then_eq_Inr split: if_splits dest!: read_u8_D read_bytes_D)

lemma read_sized_len_D:
  "read_sized_len L a k d = Inr (n, d') \<Longrightarrow> length (cd_rest d') \<le> length (cd_rest d) \<and> cd_items d' = cd_items d"
  by (auto simp: read_sized_len_def Let_def and_then_eq_Inr dest!: read_len_D)

lemma decode_simple_D:
  "decode_simple S a d = Inr (v, d') \<Longrightarrow> length (cd_rest d') \<le> length (cd_rest d) \<and> cd_items d' = cd_items d"
  by (auto simp: decode_simple_def and_then_eq_Inr split: if_splits dest!: read_bytes_D)

text \<open>The errors of the primitives are not the recursion bound.\<close>

lemma primitive_errors [simp]:
  "note_item L depth d \<noteq> Inl StackExhausted" "reserve_embedded_items L n d \<noteq> Inl StackExhausted"
  "read_u8 d \<noteq> Inl StackExhausted" "read_bytes n d \<noteq> Inl StackExhausted" "read_be n d \<noteq> Inl StackExhausted"
  "read_len a d \<noteq> Inl StackExhausted" "read_sized_len L a k d \<noteq> Inl StackExhausted"
  "decode_simple S a d \<noteq> Inl StackExhausted"
  by (auto simp: note_item_def reserve_embedded_items_def count_items_def read_u8_def read_bytes_def read_be_def
      read_len_def read_sized_len_def decode_simple_def and_then_def ensure_def ok_or_def Let_def
      split: option.splits sum.splits list.splits if_splits prod.splits)

text \<open>Every value consumes its head byte at least.\<close>

lemmas decoder_D = note_item_rest reserve_rest read_u8_D read_bytes_D read_len_D read_sized_len_D decode_simple_D

definition consumes :: "nat \<Rightarrow> (cbor_decoder \<Rightarrow> cbor_error + 'a \<times> cbor_decoder) \<Rightarrow> bool" where
  "consumes k f \<longleftrightarrow> (\<forall>d x d'. f d = Inr (x, d') \<longrightarrow> length (cd_rest d') + k \<le> length (cd_rest d))"

lemma consumes_D: "consumes k f \<Longrightarrow> f d = Inr (x, d') \<Longrightarrow> length (cd_rest d') + k \<le> length (cd_rest d)"
  by (auto simp: consumes_def)

lemma items_consume:
  assumes "consumes 1 (decode_value_at_depth S L stack depth)"
  shows "consumes 0 (decode_items S L stack depth n)"
proof (induction n)
  case (Suc n)
  then show ?case
    by (auto simp: consumes_def and_then_eq_Inr dest!: consumes_D [OF assms] consumes_D [OF Suc])
qed (auto simp: consumes_def)

lemma decode_pairs_Suc:
  "decode_pairs S L stack depth (Suc n) obj d = Inr (es, d') \<longleftrightarrow>
   (\<exists>k d1 v d2. decode_value_at_depth S L stack depth d = Inr (StringJ k, d1) \<and>
      decode_value_at_depth S L stack depth d1 = Inr (v, d2) \<and>
      decode_pairs S L stack depth n (map_insert S k v obj) d2 = Inr (es, d'))"
  by (auto simp: and_then_eq_Inr split: json.split_asm)

lemma pairs_consume:
  assumes "consumes 1 (decode_value_at_depth S L stack depth)"
  shows "consumes 0 (decode_pairs S L stack depth n obj)"
proof (induction n arbitrary: obj)
  case (Suc n)
  show ?case
    by (auto simp: consumes_def decode_pairs_Suc simp del: decode_pairs.simps
        dest!: consumes_D [OF assms] consumes_D [OF Suc])
qed (auto simp: consumes_def)

lemma value_consumes: "consumes 1 (decode_value_at_depth S L stack depth)"
proof (induction stack arbitrary: depth)
  case (Suc stack)
  note inner = consumes_D [OF items_consume [OF Suc]] consumes_D [OF pairs_consume [OF Suc]]
  have "length (cd_rest d') + 1 \<le> length (cd_rest d)"
    if run: "decode_value_at_depth S L (Suc stack) depth d = Inr (v, d')" for d v d'
  proof -
    from run obtain d1 i d2 where h: "note_item L depth d = Inr d1" "read_u8 d1 = Inr (i, d2)"
      by (auto simp: decode_level and_then_eq_Inr)
    then have len: "length (cd_rest d) = Suc (length (cd_rest d2))"
      using note_item_rest [OF h(1)] read_u8_D [OF h(2)] by simp
    have "length (cd_rest d') \<le> length (cd_rest d2)"
      using run by (auto simp: decode_level h Let_def and_then_eq_Inr split: if_splits dest!: decoder_D inner)
    with len show ?thesis by simp
  qed
  then show ?case by (auto simp: consumes_def)
qed (simp add: consumes_def)

text \<open>With more levels than bytes the bound is never reached.\<close>

definition bounded_run :: "nat \<Rightarrow> (cbor_decoder \<Rightarrow> cbor_error + 'a \<times> cbor_decoder) \<Rightarrow> bool" where
  "bounded_run k f \<longleftrightarrow> (\<forall>d. length (cd_rest d) < k \<longrightarrow> f d \<noteq> Inl StackExhausted)"

lemma bounded_run_D: "bounded_run k f \<Longrightarrow> f d = Inl StackExhausted \<Longrightarrow> k \<le> length (cd_rest d)"
  by (auto simp: bounded_run_def not_less [symmetric])

lemma and_then_eq_Inl: "and_then r f = Inl e \<longleftrightarrow> r = Inl e \<or> (\<exists>x. r = Inr x \<and> f x = Inl e)"
  by (cases r) auto

lemma items_bounded:
  assumes "bounded_run k (decode_value_at_depth S L stack depth)"
  shows "bounded_run k (decode_items S L stack depth n)"
proof (induction n)
  case (Suc n)
  show ?case
    by (auto simp: bounded_run_def and_then_eq_Inl
        dest!: bounded_run_D [OF assms] bounded_run_D [OF Suc] consumes_D [OF value_consumes])
qed (simp add: bounded_run_def)

lemma pairs_bounded:
  assumes "bounded_run k (decode_value_at_depth S L stack depth)"
  shows "bounded_run k (decode_pairs S L stack depth n obj)"
proof (induction n arbitrary: obj)
  case (Suc n)
  show ?case
    by (auto simp: bounded_run_def and_then_eq_Inl split: json.splits
        dest!: bounded_run_D [OF assms] bounded_run_D [OF Suc] consumes_D [OF value_consumes])
qed (simp add: bounded_run_def)

lemma value_bounded: "bounded_run stack (decode_value_at_depth S L stack depth)"
proof (induction stack arbitrary: depth)
  case (Suc stack)
  note inner = bounded_run_D [OF items_bounded [OF Suc]] bounded_run_D [OF pairs_bounded [OF Suc]]
  have "Suc stack \<le> length (cd_rest d)"
    if run: "decode_value_at_depth S L (Suc stack) depth d = Inl StackExhausted" for d
  proof -
    from run obtain d1 i d2 where h: "note_item L depth d = Inr d1" "read_u8 d1 = Inr (i, d2)"
      by (auto simp: decode_level and_then_eq_Inl)
    then have len: "length (cd_rest d) = Suc (length (cd_rest d2))"
      using note_item_rest [OF h(1)] read_u8_D [OF h(2)] by simp
    have "stack \<le> length (cd_rest d2)"
      using run by (auto simp: decode_level h Let_def and_then_eq_Inl ensure_def split: if_splits dest!: decoder_D inner)
    with len show ?thesis by simp
  qed
  then show ?case unfolding bounded_run_def by (meson not_less)
qed (simp add: bounded_run_def)

lemma payload_bounded: "decode_payload S L payload \<noteq> Inl StackExhausted"
  using value_bounded [of "Suc (length payload)" S L 0]
  by (auto simp: decode_payload_def bounded_run_def and_then_eq_Inl finish_def ensure_def split: if_splits)

section \<open>A value accepted under limits\<close>

text \<open>
  \<open>item_count\<close> counts a value the way the decoder notes items: the value itself, the elements of
  an array, and key and value of every entry. Nesting counts containers inside containers.
\<close>

fun item_count :: "'n json \<Rightarrow> nat" where
  "item_count (ArrayJ xs) = Suc (sum_list (map item_count xs))"
| "item_count (ObjectJ es) = Suc (sum_list (map (\<lambda>(k, v). Suc (item_count v)) es))"
| "item_count v = 1"

definition container :: "'n json \<Rightarrow> bool" where
  "container v \<longleftrightarrow> (case v of ArrayJ _ \<Rightarrow> True | ObjectJ _ \<Rightarrow> True | _ \<Rightarrow> False)"

fun nested_within :: "nat \<Rightarrow> 'n json \<Rightarrow> bool" where
  "nested_within b (ArrayJ xs) \<longleftrightarrow> (\<forall>x \<in> set xs. container x \<longrightarrow> 0 < b \<and> nested_within (b - 1) x)"
| "nested_within b (ObjectJ es) \<longleftrightarrow> (\<forall>(k, x) \<in> set es. container x \<longrightarrow> 0 < b \<and> nested_within (b - 1) x)"
| "nested_within b _ \<longleftrightarrow> True"

text \<open>Reading does not look at the item counter; only the limits do.\<close>

definition recount :: "nat \<Rightarrow> cbor_error + 'a \<times> cbor_decoder \<Rightarrow> cbor_error + 'a \<times> cbor_decoder" where
  "recount c r = (case r of Inl e \<Rightarrow> Inl e | Inr (x, d) \<Rightarrow> Inr (x, d\<lparr>cd_items := c\<rparr>))"

lemma recount_simps [simp]: "recount c (Inl e) = Inl e" "recount c (Inr (x, d)) = Inr (x, d\<lparr>cd_items := c\<rparr>)"
  by (simp_all add: recount_def)

lemma recount_reads [simp]:
  "read_u8 (d\<lparr>cd_items := c\<rparr>) = recount c (read_u8 d)"
  "read_bytes n (d\<lparr>cd_items := c\<rparr>) = recount c (read_bytes n d)"
  by (auto simp: read_u8_def read_bytes_def ensure_def split: list.splits)

lemma recount_be [simp]: "read_be n (d\<lparr>cd_items := c\<rparr>) = recount c (read_be n d)"
  by (cases "read_bytes n d") (auto simp: read_be_def)

lemma recount_len [simp]: "read_len a (d\<lparr>cd_items := c\<rparr>) = recount c (read_len a d)"
  by (cases "read_u8 d") (auto simp: read_len_def)

lemma recount_simple [simp]: "decode_simple S a (d\<lparr>cd_items := c\<rparr>) = recount c (decode_simple S a d)"
proof -
  have "and_then (recount c r) (\<lambda>(bs, d). and_then (f bs) (\<lambda>n. Inr (Number n, d))) =
        recount c (and_then r (\<lambda>(bs, d). and_then (f bs) (\<lambda>n. Inr (Number n, d))))"
    for r and f :: "bytes \<Rightarrow> cbor_error + 'a"
    by (cases r) (auto simp: and_then_def split: sum.splits)
  then show ?thesis by (simp add: decode_simple_def)
qed

lemma recount_sized_len:
  "read_sized_len L a k d = Inr (n, d') \<Longrightarrow> read_sized_len None a k (d\<lparr>cd_items := c\<rparr>) = Inr (n, d'\<lparr>cd_items := c\<rparr>)"
  by (cases "read_len a d") (auto simp: read_sized_len_def and_then_eq_Inr Let_def)

text \<open>An insertion adds at most one entry.\<close>

definition entry_count :: "'n json_map \<Rightarrow> nat" where
  "entry_count es = sum_list (map (\<lambda>(k, v). Suc (item_count v)) es)"

lemma entry_count_keys:
  "distinct (map fst es) \<Longrightarrow> entry_count es = (\<Sum>k \<in> fst ` set es. Suc (item_count (the (map_of es k))))"
proof (induction es)
  case (Cons e es)
  have "(\<Sum>k \<in> fst ` set es. Suc (item_count (the (map_of (e # es) k)))) =
        (\<Sum>k \<in> fst ` set es. Suc (item_count (the (map_of es k))))"
    using Cons.prems by (intro sum.cong) (auto simp: image_iff)
  with Cons show ?case by (cases e) (simp add: entry_count_def)
qed (simp add: entry_count_def)

lemma insert_key:
  assumes "serde_laws S" "distinct (map fst m)"
  shows "distinct (map fst (map_insert S k v m))" "map_of (map_insert S k v m) = (map_of m)(k \<mapsto> v)"
    and "fst ` set (map_insert S k v m) = insert k (fst ` set m)"
proof -
  show a: "distinct (map fst (map_insert S k v m))" and b: "map_of (map_insert S k v m) = (map_of m)(k \<mapsto> v)"
    using assms by (simp_all add: serde_laws_def)
  from b show "fst ` set (map_insert S k v m) = insert k (fst ` set m)"
    by (metis dom_fun_upd dom_map_of_conv_image_fst option.distinct(1))
qed

lemma insert_count:
  assumes "serde_laws S" "distinct (map fst m)"
  shows "entry_count (map_insert S k v m) \<le> entry_count m + Suc (item_count v)"
proof -
  note ins = insert_key [OF assms, of k v]
  have "(\<Sum>j \<in> fst ` set m - {k}. Suc (item_count (the (((map_of m)(k \<mapsto> v)) j)))) =
        (\<Sum>j \<in> fst ` set m - {k}. Suc (item_count (the (map_of m j))))"
    by (intro sum.cong) auto
  also have "\<dots> \<le> (\<Sum>j \<in> fst ` set m. Suc (item_count (the (map_of m j))))"
    by (intro sum_mono2) auto
  finally show ?thesis
    using assms(2) ins by (simp add: entry_count_keys sum.insert_remove)
qed

lemma insert_entries:
  assumes "serde_laws S" "distinct (map fst m)" "(j, x) \<in> set (map_insert S k v m)"
  shows "(j, x) \<in> set m \<or> x = v"
proof -
  note ins = insert_key [OF assms(1,2), of k v]
  have "map_of (map_insert S k v m) j = Some x" using assms(3) ins(1) by simp
  with ins(2) show ?thesis by (auto split: if_splits dest: map_of_SomeD)
qed

section \<open>Items\<close>

definition limited :: "decode_limits \<Rightarrow> ('a \<Rightarrow> nat) \<Rightarrow> (cbor_decoder \<Rightarrow> cbor_error + 'a \<times> cbor_decoder) \<Rightarrow>
    (cbor_decoder \<Rightarrow> cbor_error + 'a \<times> cbor_decoder) \<Rightarrow> bool" where
  "limited L w f g \<longleftrightarrow> (\<forall>d x d'. f d = Inr (x, d') \<longrightarrow>
     (\<forall>c. g (d\<lparr>cd_items := c\<rparr>) = Inr (x, d'\<lparr>cd_items := c\<rparr>)) \<and>
     cd_items d + w x \<le> cd_items d' \<and> (cd_items d' = cd_items d \<or> cd_items d' \<le> max_items L))"

lemma limited_D:
  assumes "limited L w f g" "f d = Inr (x, d')"
  shows "g (d\<lparr>cd_items := c\<rparr>) = Inr (x, d'\<lparr>cd_items := c\<rparr>)"
    and "cd_items d + w x \<le> cd_items d'" "cd_items d' = cd_items d \<or> cd_items d' \<le> max_items L"
  using assms unfolding limited_def by blast+

lemma items_limited:
  assumes v: "limited L item_count (decode_value_at_depth S (Some L) stack depth) (decode_value_at_depth S None stack depth)"
  shows "limited L (\<lambda>xs. sum_list (map item_count xs)) (decode_items S (Some L) stack depth n) (decode_items S None stack depth n)"
proof (induction n)
  case (Suc n)
  show ?case
    unfolding limited_def
  proof (intro allI impI)
    fix d xs d'
    assume "decode_items S (Some L) stack depth (Suc n) d = Inr (xs, d')"
    then obtain y d1 ys where run: "decode_value_at_depth S (Some L) stack depth d = Inr (y, d1)"
      "decode_items S (Some L) stack depth n d1 = Inr (ys, d')" "xs = y # ys"
      by (auto simp: and_then_eq_Inr)
    show "(\<forall>c. decode_items S None stack depth (Suc n) (d\<lparr>cd_items := c\<rparr>) = Inr (xs, d'\<lparr>cd_items := c\<rparr>)) \<and>
      cd_items d + sum_list (map item_count xs) \<le> cd_items d' \<and> (cd_items d' = cd_items d \<or> cd_items d' \<le> max_items L)"
      using limited_D [OF v run(1)] limited_D [OF Suc run(2)] run(3) by auto
  qed
qed (simp add: limited_def)

lemma pairs_limited:
  assumes S: "serde_laws S"
    and v: "limited L item_count (decode_value_at_depth S (Some L) stack depth) (decode_value_at_depth S None stack depth)"
    and "decode_pairs S (Some L) stack depth n obj d = Inr (es, d')" "distinct (map fst obj)"
  shows "decode_pairs S None stack depth n obj (d\<lparr>cd_items := c\<rparr>) = Inr (es, d'\<lparr>cd_items := c\<rparr>) \<and>
    cd_items d + entry_count es \<le> cd_items d' + entry_count obj \<and>
    (cd_items d' = cd_items d \<or> cd_items d' \<le> max_items L)"
  using assms(3,4)
proof (induction n arbitrary: obj d)
  case (Suc n)
  from Suc.prems(1) obtain k d1 y d2 where run: "decode_value_at_depth S (Some L) stack depth d = Inr (StringJ k, d1)"
    "decode_value_at_depth S (Some L) stack depth d1 = Inr (y, d2)"
    "decode_pairs S (Some L) stack depth n (map_insert S k y obj) d2 = Inr (es, d')"
    unfolding decode_pairs_Suc by blast
  note tail = Suc.IH [OF run(3) insert_key(1) [OF S Suc.prems(2)]]
  have "decode_pairs S None stack depth (Suc n) obj (d\<lparr>cd_items := c\<rparr>) = Inr (es, d'\<lparr>cd_items := c\<rparr>)"
    using limited_D(1) [OF v run(1)] limited_D(1) [OF v run(2)] tail unfolding decode_pairs_Suc by blast
  moreover have "cd_items d + entry_count es \<le> cd_items d' + entry_count obj \<and>
      (cd_items d' = cd_items d \<or> cd_items d' \<le> max_items L)"
    using limited_D(2,3) [OF v run(1)] limited_D(2,3) [OF v run(2)] tail insert_count [OF S Suc.prems(2), of k y] by auto
  ultimately show ?case by blast
qed simp

text \<open>One level under limits: what follows the head, by its major type.\<close>

definition decode_major :: "'n serde \<Rightarrow> decode_limits option \<Rightarrow> nat \<Rightarrow> nat \<Rightarrow> u8 \<Rightarrow> cbor_decoder \<Rightarrow>
    cbor_error + 'n json \<times> cbor_decoder" where
  "decode_major S L stack depth i d =
    (let major = drop_bit 5 i; additional = i AND 0x1f in
     if major = 0 then
       and_then (read_len additional d) (\<lambda>(n, d). Inr (Number (from_u64 S n), d))
     else if major = 1 then
       and_then (read_len additional d) (\<lambda>(raw, d).
       and_then (ensure (- (2 ^ 63) \<le> - 1 - uint raw)
                   (CErr ''negative integer is outside JSON-compatible i64 range'')) (\<lambda>_.
       Inr (Number (from_i64 S (- 1 - uint raw)), d)))
     else if major = 2 then
       and_then (read_sized_len L additional 1 d) (\<lambda>(len, d).
       and_then (reserve_embedded_items L len d) (\<lambda>d.
       and_then (read_bytes len d) (\<lambda>(bs, d).
       Inr (ArrayJ (map (\<lambda>b. Number (from_u64 S (ucast b))) bs), d))))
     else if major = 3 then
       and_then (read_sized_len L additional 1 d) (\<lambda>(len, d).
       and_then (read_bytes len d) (\<lambda>(bs, d).
       and_then (ensure (utf8_ok bs) (CErr ''wire text string is not valid UTF-8'')) (\<lambda>_.
       Inr (StringJ (bytes_str bs), d))))
     else if major = 4 then
       and_then (read_sized_len L additional 1 d) (\<lambda>(len, d).
       and_then (decode_items S L stack (depth + 1) len d) (\<lambda>(items, d).
       Inr (ArrayJ items, d)))
     else if major = 5 then
       and_then (read_sized_len L additional 2 d) (\<lambda>(len, d).
       and_then (decode_pairs S L stack (depth + 1) len [] d) (\<lambda>(obj, d).
       Inr (ObjectJ obj, d)))
     else if major = 7 then decode_simple S additional d
     else Inl (CErr ''unsupported CBOR major type in wire payload''))"

lemma decode_level_major:
  "decode_value_at_depth S L (Suc stack) depth d =
     and_then (note_item L depth d) (\<lambda>d. and_then (read_u8 d) (\<lambda>(i, d). decode_major S L stack depth i d))"
  by (simp only: decode_level decode_major_def)

lemma note_item_D:
  "note_item (Some L) depth d = Inr d' \<Longrightarrow>
   d' = d\<lparr>cd_items := Suc (cd_items d)\<rparr> \<and> Suc (cd_items d) \<le> max_items L \<and> depth \<le> max_depth L"
  by (auto simp: note_item_def and_then_eq_Inr ensure_eq_Inr dest!: count_items_D)

lemma limited_level:
  assumes "decode_value_at_depth S (Some L) (Suc stack) depth d = Inr (v, d')"
  obtains d1 i where "cd_items d1 = Suc (cd_items d)" "Suc (cd_items d) \<le> max_items L" "depth \<le> max_depth L"
    and "\<And>c. read_u8 (d\<lparr>cd_items := c\<rparr>) = Inr (i, d1\<lparr>cd_items := c\<rparr>)"
    and "decode_major S (Some L) stack depth i d1 = Inr (v, d')"
proof -
  from assms obtain e i d1 where h: "note_item (Some L) depth d = Inr e" "read_u8 e = Inr (i, d1)"
    and run: "decode_major S (Some L) stack depth i d1 = Inr (v, d')"
    by (auto simp: decode_level_major and_then_eq_Inr)
  note n = note_item_D [OF h(1)]
  have "read_u8 (e\<lparr>cd_items := c\<rparr>) = Inr (i, d1\<lparr>cd_items := c\<rparr>)" for c
    using h(2) by (simp only: recount_reads recount_simps)
  with n have "read_u8 (d\<lparr>cd_items := c\<rparr>) = Inr (i, d1\<lparr>cd_items := c\<rparr>)" for c by simp
  with n read_u8_D [OF h(2)] run show thesis by (intro that [of d1 i]) auto
qed

lemma reserve_D:
  "reserve_embedded_items (Some L) n d = Inr d' \<Longrightarrow> d' = d\<lparr>cd_items := cd_items d + n\<rparr> \<and> cd_items d + n \<le> max_items L"
  by (auto simp: reserve_embedded_items_def dest!: count_items_D)

lemma bytes_limited:
  assumes "read_sized_len (Some L) a 1 d = Inr (n, d1)" "reserve_embedded_items (Some L) n d1 = Inr d2"
    and "read_bytes n d2 = Inr (bs, d')"
  shows "read_sized_len None a 1 (d\<lparr>cd_items := c\<rparr>) = Inr (n, d1\<lparr>cd_items := c\<rparr>)"
    and "read_bytes n (d1\<lparr>cd_items := c\<rparr>) = Inr (bs, d'\<lparr>cd_items := c\<rparr>)"
    and "cd_items d' = cd_items d + length bs" "cd_items d' \<le> max_items L"
proof -
  note r = reserve_D [OF assms(2)]
  show "read_sized_len None a 1 (d\<lparr>cd_items := c\<rparr>) = Inr (n, d1\<lparr>cd_items := c\<rparr>)" by (rule recount_sized_len [OF assms(1)])
  have "read_bytes n (d2\<lparr>cd_items := c\<rparr>) = Inr (bs, d'\<lparr>cd_items := c\<rparr>)"
    using assms(3) by (simp only: recount_reads recount_simps)
  with r show "read_bytes n (d1\<lparr>cd_items := c\<rparr>) = Inr (bs, d'\<lparr>cd_items := c\<rparr>)" by simp
  have "length bs = n" using assms(3) by (auto simp: read_bytes_def and_then_eq_Inr ensure_eq_Inr)
  with r read_bytes_D [OF assms(3)] read_sized_len_D [OF assms(1)]
  show "cd_items d' = cd_items d + length bs" "cd_items d' \<le> max_items L" by auto
qed

lemma decode_simple_scalar: "decode_simple S a d = Inr (v, d') \<Longrightarrow> item_count v = 1 \<and> \<not> container v \<and> json_ok v"
  by (auto simp: decode_simple_def container_def and_then_eq_Inr split: if_splits)

lemma major_limited:
  assumes S: "serde_laws S"
    and v: "limited L item_count (decode_value_at_depth S (Some L) stack (depth + 1)) (decode_value_at_depth S None stack (depth + 1))"
  shows "limited L (\<lambda>v. item_count v - 1) (decode_major S (Some L) stack depth i) (decode_major S None stack depth i)"
  unfolding limited_def
proof (intro allI impI, goal_cases)
  case (1 d x d')
  note run = 1
  define a where "a = i AND 0x1f"
  consider "drop_bit 5 i = 0" | "drop_bit 5 i = 1" | "drop_bit 5 i = 2" | "drop_bit 5 i = 3" | "drop_bit 5 i = 4"
    | "drop_bit 5 i = 5" | "drop_bit 5 i \<notin> {0, 1, 2, 3, 4, 5}" by blast
  then show ?case
  proof cases
    case 1
    then show ?thesis using run
      by (auto simp: decode_major_def Let_def and_then_eq_Inr dest: read_len_D)
  next
    case 2
    then show ?thesis using run
      by (auto simp: decode_major_def Let_def and_then_eq_Inr dest: read_len_D)
  next
    case 3
    then obtain n d1 d2 bs where r: "read_sized_len (Some L) a 1 d = Inr (n, d1)" "reserve_embedded_items (Some L) n d1 = Inr d2"
      "read_bytes n d2 = Inr (bs, d')" "x = ArrayJ (map (\<lambda>b. Number (from_u64 S (ucast b))) bs)"
      using run by (auto simp: decode_major_def Let_def and_then_eq_Inr a_def)
    note b = bytes_limited [OF r(1-3)]
    have "sum_list (map item_count (map (\<lambda>b. Number (from_u64 S (ucast b))) bs)) = length bs"
      by (induction bs) auto
    with 3 b r(4) show ?thesis
      by (simp add: decode_major_def Let_def and_then_eq_Inr reserve_embedded_items_def a_def o_def)
  next
    case 4
    then obtain n d1 bs where r: "read_sized_len (Some L) a 1 d = Inr (n, d1)" "read_bytes n d1 = Inr (bs, d')"
      "utf8_ok bs" "x = StringJ (bytes_str bs)"
      using run by (auto simp: decode_major_def Let_def and_then_eq_Inr ensure_eq_Inr a_def)
    with 4 recount_sized_len [OF r(1)] read_sized_len_D [OF r(1)] read_bytes_D [OF r(2)] show ?thesis
      by (simp add: decode_major_def Let_def and_then_eq_Inr ensure_eq_Inr a_def)
  next
    case 5
    then obtain n d1 xs where r: "read_sized_len (Some L) a 1 d = Inr (n, d1)"
      "decode_items S (Some L) stack (depth + 1) n d1 = Inr (xs, d')" "x = ArrayJ xs"
      using run by (auto simp: decode_major_def Let_def and_then_eq_Inr a_def)
    with 5 recount_sized_len [OF r(1)] read_sized_len_D [OF r(1)] limited_D [OF items_limited [OF v] r(2)] show ?thesis
      by (simp add: decode_major_def Let_def and_then_eq_Inr a_def)
  next
    case 6
    then obtain n d1 es where r: "read_sized_len (Some L) a 2 d = Inr (n, d1)"
      "decode_pairs S (Some L) stack (depth + 1) n [] d1 = Inr (es, d')" "x = ObjectJ es"
      using run by (auto simp: decode_major_def Let_def and_then_eq_Inr a_def)
    with 6 recount_sized_len [OF r(1)] read_sized_len_D [OF r(1)] pairs_limited [OF S v r(2)] show ?thesis
      by (simp add: decode_major_def Let_def and_then_eq_Inr a_def entry_count_def)
  next
    case 7
    then show ?thesis
      using run decode_simple_D [of S "i AND 0x1f" d x d'] decode_simple_scalar [of S "i AND 0x1f" d x d']
      by (auto simp: decode_major_def Let_def split: if_splits)
  qed
qed

lemma value_limited:
  assumes "serde_laws S"
  shows "limited L item_count (decode_value_at_depth S (Some L) stack depth) (decode_value_at_depth S None stack depth)"
proof (induction stack arbitrary: depth)
  case (Suc stack)
  show ?case
    unfolding limited_def
  proof (intro allI impI, goal_cases)
    case (1 d v d')
    from 1 obtain d1 i where h: "cd_items d1 = Suc (cd_items d)" "Suc (cd_items d) \<le> max_items L"
      "\<And>c. read_u8 (d\<lparr>cd_items := c\<rparr>) = Inr (i, d1\<lparr>cd_items := c\<rparr>)"
      "decode_major S (Some L) stack depth i d1 = Inr (v, d')"
      by (rule limited_level) blast
    have "1 \<le> item_count v" by (cases v) auto
    with h limited_D [OF major_limited [OF assms Suc] h(4)] show ?case
      by (auto simp: decode_level_major note_item_def)
  qed
qed (simp add: limited_def)

lemma decode_major_cases:
  assumes "decode_major S L stack depth i d = Inr (v, d')"
  obtains (number) n where "v = Number n"
  | (bytes) a n d1 d2 bs where "read_sized_len L a 1 d = Inr (n, d1)" "reserve_embedded_items L n d1 = Inr d2"
      "read_bytes n d2 = Inr (bs, d')" "v = ArrayJ (map (\<lambda>b. Number (from_u64 S (ucast b))) bs)"
  | (text_string) a n d1 bs where "read_sized_len L a 1 d = Inr (n, d1)" "read_bytes n d1 = Inr (bs, d')"
      "utf8_ok bs" "v = StringJ (bytes_str bs)"
  | (array) a n d1 xs where "read_sized_len L a 1 d = Inr (n, d1)"
      "decode_items S L stack (Suc depth) n d1 = Inr (xs, d')" "v = ArrayJ xs"
  | (object) a n d1 es where "read_sized_len L a 2 d = Inr (n, d1)"
      "decode_pairs S L stack (Suc depth) n [] d1 = Inr (es, d')" "v = ObjectJ es"
  | (simple) a where "decode_simple S a d = Inr (v, d')"
proof -
  consider "drop_bit 5 i = 0 \<or> drop_bit 5 i = 1" | "drop_bit 5 i = 2" | "drop_bit 5 i = 3" | "drop_bit 5 i = 4"
    | "drop_bit 5 i = 5" | "drop_bit 5 i \<notin> {0, 1, 2, 3, 4, 5}" by blast
  then show thesis
  proof cases
    case 1
    with assms number show thesis by (auto simp: decode_major_def Let_def and_then_eq_Inr)
  next
    case 2
    with assms bytes show thesis by (auto simp: decode_major_def Let_def and_then_eq_Inr)
  next
    case 3
    with assms text_string show thesis by (auto simp: decode_major_def Let_def and_then_eq_Inr ensure_eq_Inr)
  next
    case 4
    with assms array show thesis by (auto simp: decode_major_def Let_def and_then_eq_Inr)
  next
    case 5
    with assms object show thesis by (auto simp: decode_major_def Let_def and_then_eq_Inr)
  next
    case 6
    with assms simple show thesis by (auto simp: decode_major_def Let_def split: if_splits)
  qed
qed

section \<open>Nesting\<close>

definition shallow :: "decode_limits \<Rightarrow> nat \<Rightarrow> 'n json \<Rightarrow> bool" where
  "shallow L depth v \<longleftrightarrow> depth \<le> max_depth L \<and> nested_within (max_depth L - depth) v"

lemma items_shallow:
  assumes "\<And>d v d'. decode_value_at_depth S (Some L) stack depth d = Inr (v, d') \<Longrightarrow> shallow L depth v"
  shows "decode_items S (Some L) stack depth n d = Inr (xs, d') \<Longrightarrow> x \<in> set xs \<Longrightarrow> shallow L depth x"
  by (induction n arbitrary: d xs) (auto simp: and_then_eq_Inr dest: assms)

lemma pairs_shallow:
  assumes S: "serde_laws S"
    and v: "\<And>d v d'. decode_value_at_depth S (Some L) stack depth d = Inr (v, d') \<Longrightarrow> shallow L depth v"
  shows "decode_pairs S (Some L) stack depth n obj d = Inr (es, d') \<Longrightarrow> distinct (map fst obj) \<Longrightarrow>
    (k, x) \<in> set es \<Longrightarrow> (k, x) \<in> set obj \<or> shallow L depth x"
proof (induction n arbitrary: obj d)
  case (Suc n)
  from Suc.prems(1) obtain j d1 y d2 where run: "decode_value_at_depth S (Some L) stack depth d1 = Inr (y, d2)"
    "decode_pairs S (Some L) stack depth n (map_insert S j y obj) d2 = Inr (es, d')"
    unfolding decode_pairs_Suc by blast
  from Suc.IH [OF run(2) insert_key(1) [OF S Suc.prems(2)] Suc.prems(3)] show ?case
    using insert_entries [OF S Suc.prems(2)] v [OF run(1)] by blast
qed simp

lemma value_shallow:
  assumes S: "serde_laws S"
  shows "decode_value_at_depth S (Some L) stack depth d = Inr (v, d') \<Longrightarrow> shallow L depth v"
proof (induction stack arbitrary: depth d v d')
  case (Suc stack)
  from Suc.prems obtain d1 i where h: "depth \<le> max_depth L" "decode_major S (Some L) stack depth i d1 = Inr (v, d')"
    by (rule limited_level) blast
  have items: "\<lbrakk>decode_items S (Some L) stack (Suc depth) n d2 = Inr (xs, d'); x \<in> set xs\<rbrakk> \<Longrightarrow> shallow L (Suc depth) x"
    for n d2 xs x by (rule items_shallow [OF Suc.IH])
  have pairs: "shallow L (Suc depth) x"
    if "decode_pairs S (Some L) stack (Suc depth) n [] d2 = Inr (es, d')" "(k, x) \<in> set es" for n d2 es k x
    using pairs_shallow [OF S Suc.IH that(1) _ that(2)] by simp
  from h(2) have "nested_within (max_depth L - depth) v"
  proof (cases rule: decode_major_cases)
    case (array a n d2 xs)
    from items [OF array(2)] show ?thesis by (auto simp: array(3) shallow_def Suc_le_eq)
  next
    case (object a n d2 es)
    from pairs [OF object(2)] show ?thesis by (fastforce simp: object(3) shallow_def Suc_le_eq)
  next
    case (simple a)
    from decode_simple_scalar [OF simple] show ?thesis by (cases v) (auto simp: container_def)
  qed (auto simp: container_def)
  with h(1) show ?case by (simp add: shallow_def)
qed simp

section \<open>Well-formed values\<close>

lemma decoded_text:
  assumes "utf8_ok bs" "length bs < 2 ^ 64"
  shows "text_ok (bytes_str bs)"
  using assms by (simp add: text_ok_def)

definition decodes_ok :: "(cbor_decoder \<Rightarrow> cbor_error + 'n json \<times> cbor_decoder) \<Rightarrow> bool" where
  "decodes_ok f \<longleftrightarrow> (\<forall>d v d'. length (cd_rest d) < 2 ^ 64 \<longrightarrow> f d = Inr (v, d') \<longrightarrow> json_ok v)"

lemma decodes_ok_D: "decodes_ok f \<Longrightarrow> length (cd_rest d) < 2 ^ 64 \<Longrightarrow> f d = Inr (v, d') \<Longrightarrow> json_ok v"
  by (auto simp: decodes_ok_def)

lemma items_ok:
  assumes v: "decodes_ok (decode_value_at_depth S L stack depth)"
  shows "decode_items S L stack depth n d = Inr (xs, d') \<Longrightarrow> length (cd_rest d) < 2 ^ 64 \<Longrightarrow>
    length xs = n \<and> (\<forall>x \<in> set xs. json_ok x)"
proof (induction n arbitrary: d xs)
  case (Suc n)
  then obtain y d1 ys where run: "decode_value_at_depth S L stack depth d = Inr (y, d1)"
    "decode_items S L stack depth n d1 = Inr (ys, d')" "xs = y # ys"
    by (auto simp: and_then_eq_Inr)
  have "length (cd_rest d1) < 2 ^ 64" using consumes_D [OF value_consumes run(1)] Suc.prems(2) by simp
  from Suc.IH [OF run(2) this] decodes_ok_D [OF v Suc.prems(2) run(1)] run(3) show ?case by simp
qed simp

definition object_ok :: "nat \<Rightarrow> 'n json_map \<Rightarrow> bool" where
  "object_ok n es \<longleftrightarrow> length es \<le> n \<and> distinct (map fst es) \<and> (\<forall>(k, v) \<in> set es. text_ok k \<and> json_ok v)"

lemma insert_ok:
  assumes S: "serde_laws S" and m: "object_ok n m" and "text_ok k" "json_ok v"
  shows "object_ok (Suc n) (map_insert S k v m)"
proof -
  have d: "distinct (map fst m)" using m by (simp add: object_ok_def)
  note ins = insert_key [OF S d, of k v]
  have "length (map_insert S k v m) = card (fst ` set (map_insert S k v m))"
    using ins(1) by (metis distinct_card length_map set_map)
  also have "\<dots> \<le> Suc (card (fst ` set m))" by (simp add: ins(3) card_insert_le_m1 card_insert_if)
  also have "card (fst ` set m) \<le> length m" by (metis card_length length_map set_map)
  finally have "length (map_insert S k v m) \<le> Suc n" using m by (simp add: object_ok_def)
  moreover have "text_ok j \<and> json_ok x" if "(j, x) \<in> set (map_insert S k v m)" for j x
  proof -
    have "map_of (map_insert S k v m) j = Some x" using that ins(1) by simp
    then have "(j, x) \<in> set m \<or> (j, x) = (k, v)" using ins(2) by (auto split: if_splits dest: map_of_SomeD)
    with assms show ?thesis by (auto simp: object_ok_def)
  qed
  ultimately show ?thesis using ins(1) by (auto simp: object_ok_def)
qed

lemma pairs_ok:
  assumes S: "serde_laws S"
    and v: "decodes_ok (decode_value_at_depth S L stack depth)"
  shows "decode_pairs S L stack depth n obj d = Inr (es, d') \<Longrightarrow> length (cd_rest d) < 2 ^ 64 \<Longrightarrow>
    object_ok m obj \<Longrightarrow> object_ok (n + m) es"
proof (induction n arbitrary: obj d m)
  case (Suc n)
  from Suc.prems(1) obtain k d1 y d2 where run: "decode_value_at_depth S L stack depth d = Inr (StringJ k, d1)"
    "decode_value_at_depth S L stack depth d1 = Inr (y, d2)"
    "decode_pairs S L stack depth n (map_insert S k y obj) d2 = Inr (es, d')"
    unfolding decode_pairs_Suc by blast
  have len: "length (cd_rest d1) < 2 ^ 64" "length (cd_rest d2) < 2 ^ 64"
    using consumes_D [OF value_consumes run(1)] consumes_D [OF value_consumes run(2)] Suc.prems(2) by simp_all
  have "object_ok (Suc m) (map_insert S k y obj)"
    using insert_ok [OF S Suc.prems(3)] decodes_ok_D [OF v Suc.prems(2) run(1)] decodes_ok_D [OF v len(1) run(2)] by simp
  from Suc.IH [OF run(3) len(2) this] show ?case by simp
qed simp

lemma sized_len_fits:
  assumes "read_sized_len L a k d = Inr (n, d')" "length (cd_rest d) < 2 ^ 64"
  shows "n < 2 ^ 64" "length (cd_rest d') < 2 ^ 64"
proof -
  have "n \<le> length (cd_rest d') div k" using assms(1)
    by (auto simp: read_sized_len_def and_then_eq_Inr Let_def ensure_eq_Inr)
  also have "\<dots> \<le> length (cd_rest d')" by simp
  finally show "n < 2 ^ 64" "length (cd_rest d') < 2 ^ 64" using assms(2) read_sized_len_D [OF assms(1)] by simp_all
qed

lemma major_ok:
  assumes S: "serde_laws S" and v: "\<And>depth. decodes_ok (decode_value_at_depth S L stack depth)"
    and fits: "length (cd_rest d) < 2 ^ 64" and run: "decode_value_at_depth S L (Suc stack) depth d = Inr (v, d')"
  shows "json_ok v"
proof -
  from run obtain e i d1 where h: "note_item L depth d = Inr e" "read_u8 e = Inr (i, d1)"
    "decode_major S L stack depth i d1 = Inr (v, d')"
    by (auto simp: decode_level_major and_then_eq_Inr)
  have len: "length (cd_rest d1) < 2 ^ 64"
    using note_item_rest [OF h(1)] read_u8_D [OF h(2)] fits by simp
  have length_read: "length bs \<le> length (cd_rest d2)" if "read_bytes n d2 = Inr (bs, d')" for n d2 bs
    using that by (auto simp: read_bytes_def and_then_eq_Inr)
  have items: "json_ok (ArrayJ xs)" if "read_sized_len L a k d1 = Inr (n, d2)"
    "decode_items S L stack (Suc depth) n d2 = Inr (xs, d')" for a k n d2 xs
    using items_ok [OF v that(2) sized_len_fits(2) [OF that(1) len]] sized_len_fits(1) [OF that(1) len] by simp
  have pairs: "json_ok (ObjectJ es)" if "read_sized_len L a k d1 = Inr (n, d2)"
    "decode_pairs S L stack (Suc depth) n [] d2 = Inr (es, d')" for a k n d2 es
    using pairs_ok [OF S v that(2) sized_len_fits(2) [OF that(1) len], where m = 0] sized_len_fits(1) [OF that(1) len]
    by (auto simp: object_ok_def)
  from h(3) show ?thesis
  proof (cases rule: decode_major_cases)
    case (bytes a n d2 d3 bs)
    have "length bs < 2 ^ 64"
      using length_read [OF bytes(3)] reserve_rest [OF bytes(2)] sized_len_fits(2) [OF bytes(1) len] by simp
    with bytes(4) show ?thesis by simp
  next
    case (text_string a n d2 bs)
    with decoded_text [OF text_string(3)] length_read [OF text_string(2)] sized_len_fits(2) [OF text_string(1) len]
    show ?thesis by simp
  next
    case (array a n d2 xs)
    with items show ?thesis by simp
  next
    case (object a n d2 es)
    with pairs show ?thesis by simp
  next
    case (simple a)
    with decode_simple_scalar show ?thesis by blast
  qed simp
qed

lemma value_ok:
  assumes S: "serde_laws S"
  shows "decodes_ok (decode_value_at_depth S L stack depth)"
proof (induction stack arbitrary: depth)
  case (Suc stack)
  have "json_ok v" if fits: "length (cd_rest d) < 2 ^ 64"
    and run: "decode_value_at_depth S L (Suc stack) depth d = Inr (v, d')" for d v d'
    using major_ok [OF S Suc fits run] .
  then show ?case by (simp add: decodes_ok_def)
qed (simp add: decodes_ok_def)

section \<open>A library instance\<close>

text \<open>Numbers as the library stores them: unsigned, negative, or a finite double by its bits.\<close>

datatype stored = PosInt u64 | NegInt int | Float u64

definition finite_bits :: "u64 \<Rightarrow> bool" where
  "finite_bits b \<longleftrightarrow> drop_bit 52 b AND 0x7ff \<noteq> 0x7ff"

definition stored_serde :: "stored serde" where
  "stored_serde =
     \<lparr>as_u64 = (\<lambda>n. case n of PosInt v \<Rightarrow> Some v | _ \<Rightarrow> None),
      as_i64 = (\<lambda>n. case n of NegInt v \<Rightarrow> if - (2 ^ 63) \<le> v \<and> v < 0 then Some v else None | _ \<Rightarrow> None),
      as_f64 = (\<lambda>n. case n of Float b \<Rightarrow> if finite_bits b then Some b else None | _ \<Rightarrow> None),
      from_u64 = PosInt, from_i64 = NegInt,
      from_f64 = (\<lambda>b. if finite_bits b then Some (Float b) else None),
      map_insert = AList.update\<rparr>"

lemma stored_serde_laws: "serde_laws stored_serde"
  by (auto simp: serde_laws_def stored_serde_def update_conv' distinct_update split: stored.splits if_splits)

definition sample_json :: "stored json" where
  "sample_json = ObjectJ [(''ab'', Number (NegInt (- 3))), (''z'', ArrayJ [Null, BoolJ True, StringJ ''q''])]"

definition sample_swapped :: "stored json" where
  "sample_swapped = ObjectJ [(''z'', ArrayJ [Null, BoolJ True, StringJ ''q'']), (''ab'', Number (NegInt (- 3)))]"

definition sample_cbor :: bytes where
  "sample_cbor = [0xa2, 0x61, 0x7a, 0x83, 0xf6, 0xf5, 0x61, 0x71, 0x62, 0x61, 0x62, 0x22]"

lemma sample_encodes:
  "encode_value stored_serde sample_json = Inr sample_cbor" "encode_value stored_serde sample_swapped = Inr sample_cbor"
  by code_simp+

lemma sample_ok: "json_ok sample_json" "json_ok sample_swapped"
  by (simp_all add: sample_json_def sample_swapped_def text_ok_def str_bytes_def)

section \<open>Properties\<close>

lemma decode_encoded:
  assumes "serde_laws S" "json_ok v" "encode_value S v = Inr bs"
  shows "decode_payload S None bs = Inr (canon S v)"
  using round_trip_value [OF assms, of "Suc (length bs)" 0 "[]" 0]
  by (simp add: decode_payload_def finish_def ensure_def)

text \<open>
  C10. Encoding and decoding a message is the identity up to the order of map entries: whatever
  \<open>encode\<close> produces for the value of a message, \<open>decode\<close> accepts, and lifts a value with the same
  scalars, arrays and entries as the one that was encoded.
\<close>

theorem cbor_round_trip:
  assumes "serde_laws S" "to_value m = Some v" "json_ok v" "cbor_encode S to_value m = Inr bs"
  shows "\<exists>w. same_json v w \<and>
    cbor_decode S from_value bs = ok_or (from_value w) (CErr ''failed to lift wire value into message'')"
proof (intro exI conjI)
  have "encode_value S v = Inr bs" using assms(2,4) by (simp add: cbor_encode_def)
  from decode_encoded [OF assms(1,3) this]
  show "cbor_decode S from_value bs =
    ok_or (from_value (canon S v)) (CErr ''failed to lift wire value into message'')"
    by (simp add: cbor_decode_def)
  show "same_json v (canon S v)" by (rule same_canon [OF assms(1,3)])
qed

lemma preimage_inject:
  "signing_preimage domain b = Inr p \<Longrightarrow> signing_preimage domain c = Inr q \<Longrightarrow> p = q \<longleftrightarrow> b = c"
  by (auto simp: signing_preimage_def and_then_eq_Inr put_u64_def)

text \<open>
  C9. The encoding is canonical: two values have the same bytes, and the same signing preimage
  under a domain, exactly when they are the same value, entries of a map compared as a set. A
  signature over the preimage therefore covers the value and nothing else.
\<close>

theorem cbor_canonical:
  assumes "serde_laws S" "json_ok v" "json_ok w" "encode_value S v = Inr b" "encode_value S w = Inr c"
    and "signing_preimage domain b = Inr p" "signing_preimage domain c = Inr q"
  shows "(b = c \<longleftrightarrow> same_json v w) \<and> (p = q \<longleftrightarrow> same_json v w)"
proof -
  have "same_json v w" if "b = c"
  proof -
    have "canon S v = canon S w"
      using that decode_encoded [OF assms(1,2,4)] decode_encoded [OF assms(1,3,5)] by simp
    then show ?thesis
      using same_canon [OF assms(1,2)] same_canon [OF assms(1,3)] by (metis same_json_sym same_json_trans)
  qed
  moreover have "b = c" if "same_json v w"
    using same_json_bytes [OF that assms(2,3), of S b] assms(4,5) by simp
  ultimately show ?thesis using preimage_inject [OF assms(6,7)] by blast
qed

text \<open>
  C11. What \<open>decode_bounded\<close> accepts respects its limits, and limits only reject: the payload is no
  longer than \<open>max_bytes\<close>, the message is the one \<open>decode\<close> returns, and its value has at most
  \<open>max_items\<close> items and containers nested at most \<open>max_depth\<close> deep.
\<close>

theorem bounded_decode_sound:
  assumes "serde_laws S" "cbor_decode_bounded S from_value L payload = Inr m"
  shows "length payload \<le> max_bytes L \<and> cbor_decode S from_value payload = Inr m \<and>
    (\<exists>v. decode_payload S None payload = Inr v \<and> from_value v = Some m \<and>
       item_count v \<le> max_items L \<and> nested_within (max_depth L) v)"
proof -
  from assms(2) obtain v d where run: "length payload \<le> max_bytes L"
    "decode_value_at_depth S (Some L) (Suc (length payload)) 0 (cursor payload 0) = Inr (v, d)"
    "cd_rest d = []" "from_value v = Some m"
    by (auto simp: cbor_decode_bounded_def decode_payload_def finish_def and_then_eq_Inr ensure_eq_Inr ok_or_eq_Inr)
  note lim = limited_D [OF value_limited [OF assms(1)] run(2)]
  have "decode_payload S None payload = Inr v"
    using lim(1) [of 0] run(3) by (simp add: decode_payload_def finish_def ensure_def)
  moreover have "1 \<le> item_count v" by (cases v) auto
  then have "item_count v \<le> max_items L" using lim(2,3) by auto
  moreover have "nested_within (max_depth L) v" using value_shallow [OF assms(1) run(2)] by (simp add: shallow_def)
  ultimately show ?thesis using run by (simp add: cbor_decode_def ok_or_eq_Inr)
qed

text \<open>
  C12. The decoder is total and typed, whatever bytes arrive and with or without limits: it returns,
  the recursion never reaching its bound, either with an error of the source or with a value of the
  data model, in which every string and key is UTF-8, the keys of a map are distinct and lengths
  fit a machine word.
\<close>

theorem decoder_type_sound:
  assumes "serde_laws S" "length payload < 2 ^ 64"
  shows "(\<exists>e. decode_payload S limits payload = Inl (CErr e)) \<or>
         (\<exists>v. decode_payload S limits payload = Inr v \<and> json_ok v)"
proof (cases "decode_payload S limits payload")
  case (Inl e)
  with payload_bounded [of S limits payload] show ?thesis by (cases e) auto
next
  case (Inr v)
  then show ?thesis
    using decodes_ok_D [OF value_ok [OF assms(1)], of "cursor payload 0"] assms(2)
    by (auto simp: decode_payload_def and_then_eq_Inr)
qed

section \<open>Witnesses\<close>

theorem cbor_round_trip_witness:
  "\<exists>w. same_json sample_json w \<and> cbor_decode stored_serde Some sample_cbor = Inr w"
  using cbor_round_trip [of stored_serde Some sample_json sample_json sample_cbor Some]
  by (simp add: stored_serde_laws sample_ok cbor_encode_def sample_encodes)

theorem cbor_canonical_witness: "sample_json \<noteq> sample_swapped \<and> same_json sample_json sample_swapped"
  using cbor_canonical [OF stored_serde_laws sample_ok sample_encodes, of "[]"]
  by (simp add: sample_json_def sample_swapped_def sample_cbor_def signing_preimage_def ensure_def)

definition nested_cbor :: bytes where
  "nested_cbor = [0xa1, 0x61, 0x6b, 0x81, 0x01]"

definition tight_limits :: decode_limits where
  "tight_limits = \<lparr>max_bytes = 5, max_items = 4, max_depth = 2\<rparr>"

lemma key_char: "char_of (107 :: nat) = CHR ''k''"
  by code_simp

lemma nested_decodes:
  "decode_payload stored_serde (Some tight_limits) nested_cbor = Inr (ObjectJ [(''k'', ArrayJ [Number (PosInt 1)])])"
  by (simp add: decode_payload_def nested_cbor_def tight_limits_def decode_level note_item_def count_items_def
      read_u8_def read_bytes_def Let_def read_sized_len_def read_len_def ensure_def decode_simple_def finish_def
      stored_serde_def bytes_str_def key_char)

theorem bounded_decode_sound_witness:
  "\<exists>v. decode_payload stored_serde None nested_cbor = Inr v \<and> item_count v \<le> 4 \<and> nested_within 2 v"
  using bounded_decode_sound [OF stored_serde_laws, of Some tight_limits nested_cbor]
  by (auto simp: cbor_decode_bounded_def nested_decodes ensure_def) (auto simp: tight_limits_def nested_cbor_def)

theorem decoder_type_sound_witness:
  "json_ok (ObjectJ [(''k'', ArrayJ [Number (PosInt 1)])]) \<and>
   (\<exists>e. decode_payload stored_serde None [0x81 :: u8] = Inl (CErr e))"
proof -
  have "decode_payload stored_serde None [0x81 :: u8] \<noteq> Inr v" for v
    by (simp add: decode_payload_def decode_level note_item_def read_u8_def Let_def read_sized_len_def read_len_def
        ensure_def)
  with decoder_type_sound [OF stored_serde_laws, of "[0x81]" None]
    decoder_type_sound [OF stored_serde_laws, of nested_cbor "Some tight_limits"] show ?thesis
    by (auto simp: nested_decodes) (auto simp: nested_cbor_def)
qed

end
