(* ===== verification/Spec2Isabelle.thy ===== *)
theory Spec2Isabelle
  imports Plan_Order World_Protocol Program_Schedule Confluence Cbor_Limits
begin

text \<open>
  Verification of the Ostadix runtime crate (\<open>src/crates/ostadix-api/src\<close>): the path from a parsed
  program to a launch order of its operations, and the data contracts around it.

  \<^bold>\<open>The program.\<close> A source document is a tree of text, bindings, variable references, calls and
  typed blocks that name a backend. It is lowered to OIR, which freezes the catalog facts of every
  block, and planned: the plan numbers the executable nodes in preorder and records structural,
  sequence and data edges. The plan is validated and sorted, then projected to an execution
  hypergraph in which operations are hyperedges over values, versioned resource states and control
  tokens. Effect summaries decide which resource versions an operation reads and writes. An
  independent validator replays the plan against the graph; the ready-operation scheduler derives
  blockers and waves from an accepted graph, and a finite checker certifies that operations left
  unordered commute. Beside this path stand the values with their safety classes and fidelity
  judgments, the identities of a governed World with their wire records, and the CBOR codec
  that signed records share.

  \<^bold>\<open>Theories and sources.\<close> A fallible Rust function returns \<open>'e + 'a\<close>, with every early return and
  panic on the left; mutable state is passed and returned; a \<open>BTreeSet\<close> is a strictly ascending list
  and a \<open>HashMap\<close> an association list with distinct keys. Definitions keep the names of the code.
  \<^item> \<open>O_Prelude\<close>: results with the early-return operator and their rewriting rules, ordered sets,
    strings, list lemmas. No source of its own.
  \<^item> \<open>Environment\<close> (\<open>environment.rs\<close>), \<open>Backend_Catalog\<close> (\<open>backend_catalog.rs\<close> and its table): decoding
    of environment numbers; the catalog, alias resolution and the interface of a backend.
  \<^item> \<open>Oir\<close>, \<open>Plan\<close>, \<open>Topo\<close>, \<open>Plan_Order\<close> (\<open>parser.rs\<close> for the tree, \<open>ir.rs\<close>): \<open>lower\<close>,
    \<open>flatten_for_plan\<close>, \<open>plan\<close>, \<open>validate\<close>, \<open>topological_order\<close>, the root and child schedules.
  \<^item> \<open>Effects\<close>, \<open>Effect_Laws\<close> (\<open>effects.rs\<close>), \<open>Dispatch\<close> (\<open>dispatch_model.rs\<close>): resource keys,
    summaries, conflicts, declarations; dispatch classes and autonomous groups.
  \<^item> \<open>HGraph\<close>, \<open>HGraph_Validate\<close> (\<open>hgraph/kinds.rs\<close>, \<open>hgraph/graph.rs\<close>), \<open>Sequencing\<close>, \<open>HGraph_Lower\<close>
    (\<open>hgraph/from_oir.rs\<close>): the graph record with its mutators, every check of
    \<open>validate_execution_graph\<close>, and \<open>build_program\<close>.
  \<^item> \<open>Ready_Schedule\<close> (\<open>hgraph/schedule.rs\<close>): \<open>derive\<close>, \<open>waves\<close>, \<open>launch_order\<close>. \<open>Warshall\<close> and
    \<open>Confluence\<close> (\<open>hgraph/semantics.rs\<close>): \<open>check_finite_confluence\<close>.
  \<^item> \<open>Value\<close>, \<open>Fidelity\<close> (\<open>value.rs\<close>): the value datatype, its boundary and safety predicates; loss
    sets, assessments and their composition.
  \<^item> \<open>World_Identity\<close> (\<open>world/identity.rs\<close>), \<open>Codec\<close>, \<open>Identity_Wire\<close> (\<open>world/identity_wire.rs\<close>),
    \<open>World_Protocol\<close> (\<open>world/protocol.rs\<close>, \<open>world/codec.rs\<close>): names, generations, fences; byte
    vocabulary; identity records; negotiation and the record envelope.
  \<^item> \<open>Cbor\<close>, \<open>Cbor_Limits\<close> (\<open>canonical_cbor.rs\<close>): canonical encoder, limited decoder, signing
    preimage.
  \<^item> \<open>Kahn\<close>, \<open>Graph_Facts\<close>, \<open>Op_Acyclic\<close>, \<open>Waves\<close>, \<open>Ready_Laws\<close>, \<open>Race_Freedom\<close>, \<open>Graph_Build\<close>,
    \<open>Program_Schedule\<close>: proofs about the graph path, below.

  \<^bold>\<open>What is shown.\<close>
  \<^item> Plans: the plan of every program validates, its nodes are the preorder of the program, root and
    child schedules are source order; the sort returns the least topological order or reports a
    cycle exactly when there is one, and \<open>validate\<close> accepts exactly the well-formed plans.
  \<^item> Graphs: every graph the mutators can build satisfies \<open>graph_inv\<close> (rule induction over
    \<open>graph_step\<close>), and lowering is such a run; the acyclicity check is exact.
  \<^item> Schedules: blockers are exactly the producers of an operation's inputs; waves are the levels
    of the blocking relation and fail exactly on a cycle; a derived schedule always completes; two
    operations that conflict are ordered as in the plan, unless an autonomous group released one.
    \<open>program_schedule\<close> below composes these with lowering.
  \<^item> Confluence: the checker accepts exactly the congruent models in which unordered operations
    commute, and then all complete runs that respect the blocking order end in equivalent states.
  \<^item> Effects and dispatch: declarations only add constraints, conflict is a shared written
    resource, governed state cannot be declared, worker dispatch implies the worker contract.
  \<^item> Values: safe values hold no live authority outside groups; groups escape the predicates.
    Composition of fidelity assessments is exact on concretizations, joining paths is their hull.
  \<^item> Identities and records: fences accept exactly the current generation, decoders accept exactly
    the encodings of valid records, negotiation gives both peers the best common schema.
  \<^item> CBOR: decoding inverts encoding up to entry order, equal bytes or preimages mean equal values,
    limits only reject and bound what is accepted, the decoder is total and typed.

  \<^bold>\<open>Interfaces.\<close> \<open>topo_scheduler\<close> (interpreted by the plan scheduler), \<open>leveled_graph\<close> (by the blocking
  relation of a schedule), \<open>generation_fence\<close> (by all eleven fences), \<open>field_codec\<close> and \<open>record_codec\<close>
  (by the identity fields, identity records and World records), \<open>confluent_steps\<close> (by certified
  models).

  \<^bold>\<open>Bounds.\<close> Loops over work lists end by measures on the unvisited nodes, so they need no fuel. The
  CBOR decoder takes the number of nested calls as an argument; every call consumes a byte, and
  \<open>decoder_type_sound\<close> shows that one more than the length of the payload is never used up. Words
  keep their width where the code can overflow (generations, lengths on the wire); identifiers
  that index vectors are natural numbers.

  \<^bold>\<open>Parameters.\<close> SHA-256 is an argument of the catalog definitions that use it. The number and map
  operations of the serialisation library are the record \<open>serde\<close>; \<open>serde_laws\<close> states what its
  documentation promises, and \<open>stored_serde\<close> is an instance.

  \<^bold>\<open>Not modelled.\<close> The scanner of \<open>parser.rs\<close>, text dumps and \<open>Display\<close> forms without a reader, serde
  derives and fixed conformance corpora; interpolated parts of error messages; the legacy
  clustering schedule of \<open>hgraph/schedule.rs\<close>; the type and fidelity solver (\<open>hgraph/solve.rs\<close>). The
  evaluator, the executor, backend processes and hosted execution act through processes, threads,
  files and networks; admission, computation identities, receipts, placement, the registry and
  information records rest on digests and signatures of third-party packages; the O-core
  compiler, the tools and the applications are separate programs over this crate.
\<close>

text \<open>
  C1. From a program to its schedule. A program that lowers to a graph always has a ready schedule;
  its waves contain every executable node of the plan exactly once, and an operation runs in a
  strictly later wave than every operation whose value it consumes and than every earlier
  operation of the plan order with a conflicting effect summary, unless an autonomous group
  released one of the two.
\<close>

theorem program_schedule:
  assumes "build_program program = Inr g"
  shows "\<exists>s ws. derive g = Inr s \<and> waves s = Inr ws \<and> distinct (concat ws) \<and>
     set (concat ws) = {p. p < length (nodes (plan program)) \<and> node_kind (nodes (plan program) ! p) \<noteq> TextK} \<and>
     (\<forall>p \<in> set (concat ws). \<forall>q \<in> set (concat ws).
        (p, q) \<in> plan_dataflow (plan program) \<or> source_conflict g (plan program) p q \<longrightarrow> wave_before ws p q)"
proof -
  have built: "built (Some (plan program)) g" and ok: "validate_execution_graph g = Inr ()"
    using built_program [OF assms] by auto
  have "maps_ok g" using built_inv [OF built] by (simp add: graph_inv_def ids_ok_def)
  with lowered_schedule [OF ok built_source_plan [OF built]] show ?thesis by blast
qed

theorem program_schedule_witness:
  "\<exists>s ws. derive sample_graph = Inr s \<and> waves s = Inr ws \<and> distinct (concat ws) \<and> set (concat ws) = {0, 2, 3} \<and>
     wave_before ws 0 2"
proof -
  have "nodes (plan sample_bindings) = [\<lparr>node_id = 0, node_kind = StoreK ''x''\<rparr>, \<lparr>node_id = 1, node_kind = TextK\<rparr>,
      \<lparr>node_id = 2, node_kind = LoadK ''x''\<rparr>, \<lparr>node_id = 3, node_kind = LoadK ''x''\<rparr>]"
    by code_simp
  then have "{p. p < length (nodes (plan sample_bindings)) \<and> node_kind (nodes (plan sample_bindings) ! p) \<noteq> TextK} = {0, 2, 3}"
    by (auto simp: less_Suc_eq numeral_eq_Suc)
  with program_schedule [OF sample_program_built] obtain s ws
    where w: "derive sample_graph = Inr s" "waves s = Inr ws" "distinct (concat ws)" "set (concat ws) = {0, 2, 3}"
      and ord: "\<forall>p \<in> set (concat ws). \<forall>q \<in> set (concat ws).
        (p, q) \<in> plan_dataflow (plan sample_bindings) \<or> source_conflict sample_graph (plan sample_bindings) p q \<longrightarrow>
        wave_before ws p q"
    by (elim exE conjE) (simp only:)
  have "list_ex (\<lambda>e. edge_from e = 0 \<and> edge_to e = 2 \<and> edge_kind e = Data) (edges (plan sample_bindings))"
    by code_simp
  then have "(0, 2) \<in> plan_dataflow (plan sample_bindings)" by (force simp: list_ex_iff plan_dataflow_def)
  moreover have "0 \<in> set (concat ws)" "2 \<in> set (concat ws)" by (simp_all only: w(4) insert_iff simp_thms)
  ultimately have "wave_before ws 0 2" using ord by blast
  with w show ?thesis by blast
qed

end
